(* ===== verification/Krot_Prelude.thy ===== *)
theory Krot_Prelude
  imports Main "HOL-Library.Word" "HOL-Library.Char_ord" "HOL-Library.Sublist"
begin

text \<open>
  Shared vocabulary of the development: the machine integers of the Rust
  sources as words of their width, little-endian byte strings
  (\<^verbatim>\<open>to_le_bytes\<close> / \<^verbatim>\<open>from_le_bytes\<close>), the parts of \<^verbatim>\<open>str\<close> the
  sources use (a \<^verbatim>\<open>str\<close> is the list of its UTF-8 bytes, a \<^typ>\<open>string\<close>),
  results as a sum type with the error on the left, and the generic contracts
  that several components implement.
\<close>

unbundle bit_operations_syntax

named_theorems wire_simps \<open>unfolding rules of the wire encodings\<close>
named_theorems state_simps \<open>unfolding rules of state-changing operations\<close>

section \<open>Machine integers\<close>

type_synonym u8 = "8 word"
type_synonym u16 = "16 word"
type_synonym u32 = "32 word"
type_synonym u64 = "64 word"
type_synonym bytes = "u8 list"

type_synonym ('e, 'a) result = "'e + 'a"

fun to_le :: "nat \<Rightarrow> 'a::len word \<Rightarrow> bytes" where
  "to_le 0 w = []"
| "to_le (Suc n) w = ucast w # to_le n (drop_bit 8 w)"

fun of_le :: "bytes \<Rightarrow> 'a::len word" where
  "of_le [] = 0"
| "of_le (b # bs) = ucast b OR push_bit 8 (of_le bs)"

lemma length_to_le [simp]: "length (to_le n w) = n"
  by (induction n arbitrary: w) auto

lemma ucast_byte_or_shift:
  "(ucast (ucast w :: u8) :: 'a::len word) OR push_bit 8 (take_bit k (drop_bit 8 w)) = take_bit (8 + k) w"
  by (rule bit_word_eqI) (auto simp: bit_simps)

lemma of_le_to_le_take_bit: "(of_le (to_le n w) :: 'a::len word) = take_bit (8 * n) w"
  by (induction n arbitrary: w) (simp_all add: ucast_byte_or_shift)

lemma of_le_to_le:
  assumes "LENGTH('a) \<le> 8 * n"
  shows "of_le (to_le n w) = (w :: 'a::len word)"
  using assms by (simp add: of_le_to_le_take_bit take_bit_word_eq_self)

lemma of_le_to_le_u16 [simp]: "of_le (to_le 2 w) = (w :: u16)"
  by (rule of_le_to_le) simp

lemma of_le_to_le_u32 [simp]: "of_le (to_le 4 w) = (w :: u32)"
  by (rule of_le_to_le) simp

lemma of_le_to_le_u64 [simp]: "of_le (to_le 8 w) = (w :: u64)"
  by (rule of_le_to_le) simp

lemma bit_of_le: "bit (of_le bs :: 'a::len word) n \<Longrightarrow> n < 8 * length bs"
  by (induction bs arbitrary: n) (fastforce simp: bit_simps dest: bit_imp_le_length)+

lemma ucast_of_le_Cons:
  assumes "8 \<le> LENGTH('a)"
  shows "ucast (ucast b OR push_bit 8 w :: 'a::len word) = (b :: u8)"
  using assms by (intro bit_word_eqI) (auto simp: bit_simps)

lemma to_le_of_le:
  "8 * length bs \<le> LENGTH('a) \<Longrightarrow> to_le (length bs) (of_le bs :: 'a::len word) = bs"
proof (induction bs)
  case (Cons b bs)
  have "drop_bit 8 (ucast b OR push_bit 8 (of_le bs) :: 'a word) = of_le bs"
    using Cons.prems bit_of_le [of bs, where 'a = 'a]
    by (intro bit_word_eqI) (fastforce simp: bit_simps dest: bit_imp_le_length)
  with Cons show ?case by (simp add: ucast_of_le_Cons)
qed simp

lemma to_le_of_le_u32: "length bs = 4 \<Longrightarrow> to_le 4 (of_le bs :: u32) = bs"
  using to_le_of_le [of bs, where 'a = 32] by simp

lemma to_le_of_le_u64: "length bs = 8 \<Longrightarrow> to_le 8 (of_le bs :: u64) = bs"
  using to_le_of_le [of bs, where 'a = 64] by simp

lemma word_less_plus_one: "w \<noteq> - 1 \<Longrightarrow> w < w + (1 :: 'a::len word)"
  using unatSuc [of w] by (simp add: word_less_nat_alt add.commute [of 1] add_eq_0_iff minus_equation_iff [of w 1])

lemma find_Some_iff': "find P xs = Some x \<Longrightarrow> x \<in> set xs \<and> P x"
  by (induction xs) (auto split: if_splits)

lemma find_sorted_le:
  "sorted xs \<Longrightarrow> find P xs = Some x \<Longrightarrow> y \<in> set xs \<Longrightarrow> P y \<Longrightarrow> x \<le> y"
  by (induction xs) (auto split: if_splits)

section \<open>Prefix codecs\<close>

text \<open>
  A decoder that reads one value from the head of a buffer and returns the
  unread rest. \<^verbatim>\<open>dec_many\<close> is the caller's loop over such a decoder.
\<close>

fun dec_many :: "(bytes \<Rightarrow> ('a \<times> bytes) option) \<Rightarrow> nat \<Rightarrow> bytes \<Rightarrow> ('a list \<times> bytes) option" where
  "dec_many dec 0 bs = Some ([], bs)"
| "dec_many dec (Suc n) bs =
    (case dec bs of
       None \<Rightarrow> None
     | Some (x, rest) \<Rightarrow>
         (case dec_many dec n rest of
            None \<Rightarrow> None
          | Some (xs, rest') \<Rightarrow> Some (x # xs, rest')))"

locale prefix_codec =
  fixes enc :: "'a \<Rightarrow> bytes"
    and dec :: "bytes \<Rightarrow> ('a \<times> bytes) option"
    and ok :: "'a \<Rightarrow> bool"
  assumes dec_enc: "ok x \<Longrightarrow> dec (enc x @ rest) = Some (x, rest)"
    and dec_progress: "dec bs = Some (x, rest) \<Longrightarrow> length rest < length bs"
begin

lemma enc_nonempty: "ok x \<Longrightarrow> enc x \<noteq> []"
  using dec_progress [OF dec_enc [of x "[]"]] by auto

lemma dec_many_concat:
  "\<forall>x \<in> set xs. ok x \<Longrightarrow> dec_many dec (length xs) (concat (map enc xs) @ rest) = Some (xs, rest)"
  by (induction xs) (simp_all add: dec_enc)

lemma enc_prefix_free:
  assumes "ok x" "ok y" "enc x @ r = enc y @ s"
  shows "x = y \<and> r = s"
proof -
  have "Some (x, r) = Some (y, s)"
    using dec_enc [OF assms(1), of r] dec_enc [OF assms(2), of s] by (simp only: assms(3))
  then show ?thesis by simp
qed

lemma concat_enc_inj:
  assumes "\<forall>x \<in> set xs. ok x" "\<forall>y \<in> set ys. ok y" "concat (map enc xs) = concat (map enc ys)"
  shows "xs = ys"
  using assms
proof (induction xs arbitrary: ys)
  case Nil
  then show ?case by (cases ys) (simp_all add: enc_nonempty)
next
  case (Cons x xs)
  show ?case
  proof (cases ys)
    case Nil
    with Cons.prems show ?thesis by (simp add: enc_nonempty)
  next
    case ys: (Cons y ys')
    have "x = y \<and> concat (map enc xs) = concat (map enc ys')"
      by (rule enc_prefix_free) (use Cons.prems ys in simp_all)
    with Cons.IH [of ys'] Cons.prems show ?thesis by (simp add: ys)
  qed
qed

end

text \<open>A codec whose decoder accepts nothing but encodings; a buffer of them is read item by item.\<close>

locale exact_codec = prefix_codec +
  assumes dec_sound: "dec bs = Some (x, rest) \<Longrightarrow> ok x \<and> bs = enc x @ rest"
begin

lemma items_step:
  "(\<exists>xs. bs = concat (map enc xs) \<and> list_all ok xs \<and> Q xs) \<longleftrightarrow>
    (if bs = [] then Q []
     else case dec bs of None \<Rightarrow> False
       | Some (x, rest) \<Rightarrow> (\<exists>xs. rest = concat (map enc xs) \<and> list_all ok xs \<and> Q (x # xs)))"
  (is "?L \<longleftrightarrow> ?R")
proof
  assume ?L
  then obtain xs where xs: "bs = concat (map enc xs)" "list_all ok xs" "Q xs" by blast
  then show ?R
    by (cases xs) (auto simp: dec_enc enc_nonempty)
next
  assume R: ?R
  show ?L
  proof (cases "bs = []")
    case True
    then show ?thesis using R by (intro exI [of _ "[]"]) simp
  next
    case False
    then obtain x rest xs where "dec bs = Some (x, rest)" "rest = concat (map enc xs)" "list_all ok xs" "Q (x # xs)"
      using R by (auto split: option.splits)
    then show ?thesis using dec_sound [of bs x rest] by (intro exI [of _ "x # xs"]) simp
  qed
qed

end

section \<open>Transition systems\<close>

text \<open>
  The contract of a component whose operations interleave: every initial state
  satisfies the invariant and every step keeps it.
\<close>

locale invariant_system =
  fixes init :: "'s \<Rightarrow> bool"
    and step :: "'s \<Rightarrow> 's \<Rightarrow> bool"
    and inv :: "'s \<Rightarrow> bool"
  assumes init_inv: "init s \<Longrightarrow> inv s"
    and step_inv: "step s t \<Longrightarrow> inv s \<Longrightarrow> inv t"
begin

lemma steps_inv: "step\<^sup>*\<^sup>* s t \<Longrightarrow> inv s \<Longrightarrow> inv t"
  by (induction rule: rtranclp_induct) (auto intro: step_inv)

lemma reachable_inv: "init s \<Longrightarrow> step\<^sup>*\<^sup>* s t \<Longrightarrow> inv t"
  using init_inv steps_inv by blast

end

section \<open>Characters\<close>

definition is_ascii_lowercase :: "char \<Rightarrow> bool" where
  "is_ascii_lowercase c \<longleftrightarrow> CHR ''a'' \<le> c \<and> c \<le> CHR ''z''"

definition is_ascii_uppercase :: "char \<Rightarrow> bool" where
  "is_ascii_uppercase c \<longleftrightarrow> CHR ''A'' \<le> c \<and> c \<le> CHR ''Z''"

definition is_ascii_digit :: "char \<Rightarrow> bool" where
  "is_ascii_digit c \<longleftrightarrow> CHR ''0'' \<le> c \<and> c \<le> CHR ''9''"

definition is_ascii_alphanumeric :: "char \<Rightarrow> bool" where
  "is_ascii_alphanumeric c \<longleftrightarrow> is_ascii_lowercase c \<or> is_ascii_uppercase c \<or> is_ascii_digit c"

end
