(* ===== verification/Proto_Wire.thy ===== *)
theory Proto_Wire
  imports Krot_Prelude
begin

text \<open>
  The wire protocol of \<^verbatim>\<open>crates/krot-proto\<close>: constants, identifiers, error
  codes, Control frames, the Data-stream header (\<^verbatim>\<open>stream.rs\<close>), the mux frame
  header (\<^verbatim>\<open>mux.rs\<close>), the varint length-prefixed framing (\<^verbatim>\<open>framing.rs\<close>) and
  the signed payload of the challenge (\<^verbatim>\<open>auth.rs\<close>). The \<^verbatim>\<open>postcard\<close> serializer
  and the Ed25519 primitives are parameters.
\<close>

section \<open>Constants and identifiers\<close>

definition MAX_FRAME_SIZE :: nat where "MAX_FRAME_SIZE = 64 * 1024"
definition DATA_HEADER_SIZE :: nat where "DATA_HEADER_SIZE = 9"
definition MUX_HEADER_SIZE :: nat where "MUX_HEADER_SIZE = 9"
definition SESSION_ID_LEN :: nat where "SESSION_ID_LEN = 16"
definition AUTH_NONCE_LEN :: nat where "AUTH_NONCE_LEN = 32"
definition CONTROL_STREAM_ID :: u32 where "CONTROL_STREAM_ID = 0"

text \<open>Durations are in milliseconds.\<close>

definition ADMIN_TOKEN_TTL :: nat where "ADMIN_TOKEN_TTL = 10 * 60 * 1000"
definition DEFAULT_GRACE_PERIOD :: nat where "DEFAULT_GRACE_PERIOD = 30 * 1000"
definition DATA_FIRST_BYTE_DEADLINE :: nat where "DATA_FIRST_BYTE_DEADLINE = 30 * 1000"

type_synonym TunnelId = u64
type_synonym SessionId = bytes
type_synonym Nonce = bytes
type_synonym PubKey = bytes
type_synonym Signature = bytes
type_synonym ErrorCode = u16

section \<open>Error codes\<close>

definition NO_ERROR :: ErrorCode where "NO_ERROR = 0x0000"
definition PROTOCOL_VIOLATION :: ErrorCode where "PROTOCOL_VIOLATION = 0x0001"
definition FRAME_TOO_LARGE :: ErrorCode where "FRAME_TOO_LARGE = 0x0002"
definition UNKNOWN_STREAM_KIND :: ErrorCode where "UNKNOWN_STREAM_KIND = 0x0003"
definition UNEXPECTED_STREAM :: ErrorCode where "UNEXPECTED_STREAM = 0x0004"
definition AUTHENTICATION_FAILED :: ErrorCode where "AUTHENTICATION_FAILED = 0x0010"
definition UNKNOWN_IDENTITY :: ErrorCode where "UNKNOWN_IDENTITY = 0x0011"
definition KEY_REVOKED :: ErrorCode where "KEY_REVOKED = 0x0012"
definition TOKEN_EXPIRED :: ErrorCode where "TOKEN_EXPIRED = 0x0013"
definition ENROLL_DISABLED :: ErrorCode where "ENROLL_DISABLED = 0x0014"
definition LABEL_UNAVAILABLE :: ErrorCode where "LABEL_UNAVAILABLE = 0x0020"
definition LABEL_FORBIDDEN :: ErrorCode where "LABEL_FORBIDDEN = 0x0021"
definition LABEL_INVALID :: ErrorCode where "LABEL_INVALID = 0x0022"
definition TUNNEL_LIMIT_EXCEEDED :: ErrorCode where "TUNNEL_LIMIT_EXCEEDED = 0x0023"
definition HTTP_NOT_AVAILABLE :: ErrorCode where "HTTP_NOT_AVAILABLE = 0x0024"
definition PORT_POOL_EXHAUSTED :: ErrorCode where "PORT_POOL_EXHAUSTED = 0x0025"
definition RATE_LIMITED :: ErrorCode where "RATE_LIMITED = 0x0030"
definition QUOTA_EXCEEDED :: ErrorCode where "QUOTA_EXCEEDED = 0x0031"
definition RESUME_UNKNOWN :: ErrorCode where "RESUME_UNKNOWN = 0x0040"
definition RESUME_IDENTITY_MISMATCH :: ErrorCode where "RESUME_IDENTITY_MISMATCH = 0x0041"
definition SERVER_SHUTDOWN :: ErrorCode where "SERVER_SHUTDOWN = 0x00F0"
definition INTERNAL_ERROR :: ErrorCode where "INTERNAL_ERROR = 0x00F1"

lemmas ErrorCode_defs =
  NO_ERROR_def PROTOCOL_VIOLATION_def FRAME_TOO_LARGE_def UNKNOWN_STREAM_KIND_def
  UNEXPECTED_STREAM_def AUTHENTICATION_FAILED_def UNKNOWN_IDENTITY_def KEY_REVOKED_def
  TOKEN_EXPIRED_def ENROLL_DISABLED_def LABEL_UNAVAILABLE_def LABEL_FORBIDDEN_def
  LABEL_INVALID_def TUNNEL_LIMIT_EXCEEDED_def HTTP_NOT_AVAILABLE_def PORT_POOL_EXHAUSTED_def
  RATE_LIMITED_def QUOTA_EXCEEDED_def RESUME_UNKNOWN_def RESUME_IDENTITY_MISMATCH_def
  SERVER_SHUTDOWN_def INTERNAL_ERROR_def

text \<open>\<^verbatim>\<open>{:X}\<close> of one nibble and \<^verbatim>\<open>{:04X}\<close> of a code.\<close>

definition hex_upper_digit :: "nat \<Rightarrow> char" where
  "hex_upper_digit n = (if n < 10 then char_of (48 + n) else char_of (55 + n))"

definition hex4_upper :: "u16 \<Rightarrow> string" where
  "hex4_upper w = map (\<lambda>i. hex_upper_digit (unat w div 16 ^ i mod 16)) [3, 2, 1, 0]"

definition ErrorCode_name :: "ErrorCode \<Rightarrow> string option" where
  "ErrorCode_name c =
    (if c = NO_ERROR then Some ''NoError''
     else if c = PROTOCOL_VIOLATION then Some ''ProtocolViolation''
     else if c = FRAME_TOO_LARGE then Some ''FrameTooLarge''
     else if c = UNKNOWN_STREAM_KIND then Some ''UnknownStreamKind''
     else if c = UNEXPECTED_STREAM then Some ''UnexpectedStream''
     else if c = AUTHENTICATION_FAILED then Some ''AuthenticationFailed''
     else if c = UNKNOWN_IDENTITY then Some ''UnknownIdentity''
     else if c = KEY_REVOKED then Some ''KeyRevoked''
     else if c = TOKEN_EXPIRED then Some ''TokenExpired''
     else if c = ENROLL_DISABLED then Some ''EnrollDisabled''
     else if c = LABEL_UNAVAILABLE then Some ''LabelUnavailable''
     else if c = LABEL_FORBIDDEN then Some ''LabelForbidden''
     else if c = LABEL_INVALID then Some ''LabelInvalid''
     else if c = TUNNEL_LIMIT_EXCEEDED then Some ''TunnelLimitExceeded''
     else if c = HTTP_NOT_AVAILABLE then Some ''HttpNotAvailable''
     else if c = PORT_POOL_EXHAUSTED then Some ''PortPoolExhausted''
     else if c = RATE_LIMITED then Some ''RateLimited''
     else if c = QUOTA_EXCEEDED then Some ''QuotaExceeded''
     else if c = RESUME_UNKNOWN then Some ''ResumeUnknown''
     else if c = RESUME_IDENTITY_MISMATCH then Some ''ResumeIdentityMismatch''
     else if c = SERVER_SHUTDOWN then Some ''ServerShutdown''
     else if c = INTERNAL_ERROR then Some ''InternalError''
     else None)"

definition ErrorCode_display :: "ErrorCode \<Rightarrow> string" where
  "ErrorCode_display c =
    (case ErrorCode_name c of
       Some name \<Rightarrow> name
     | None \<Rightarrow> ''ErrorCode(0x'' @ hex4_upper c @ '')'')"

section \<open>Control frames\<close>

datatype TunnelKind = Http | Tcp "u16 option"

datatype ClientFrame =
    AuthRequest PubKey
  | AuthResponse Signature
  | RegisterTunnel string TunnelKind "SessionId option" bool
  | UnregisterTunnel TunnelId
  | Ping u64
  | Bye
  | Enroll string PubKey "string option"
  | ListPeers

datatype ServerFrame =
    AuthChallenge Nonce
  | AuthOk SessionId
  | AuthReject ErrorCode
  | TunnelRegistered TunnelId string "u16 option"
  | TunnelRejected ErrorCode string
  | Pong u64
  | RateLimit "TunnelId option" u32
  | ServerBye ErrorCode
  | EnrollOk string
  | EnrollRejected ErrorCode
  | Peers "string list"

record HttpMetadata =
  hm_host :: string
  hm_sni :: "string option"

record InspectionPrelude =
  ip_accept_unix_secs :: u64
  ip_peer :: string
  ip_http :: "HttpMetadata option"

section \<open>Challenge signatures\<close>

text \<open>
  \<^verbatim>\<open>sign\<close> is \<^verbatim>\<open>SigningKey::sign\<close>, \<^verbatim>\<open>vk_from_bytes\<close> is \<^verbatim>\<open>VerifyingKey::from_bytes\<close>
  and \<^verbatim>\<open>verify\<close> is \<^verbatim>\<open>VerifyingKey::verify\<close> of \<^verbatim>\<open>ed25519_dalek\<close>.
\<close>

definition string_bytes :: "string \<Rightarrow> bytes" where
  "string_bytes s = map of_char s"

definition AUTH_DOMAIN_SEPARATOR :: bytes where
  "AUTH_DOMAIN_SEPARATOR = string_bytes ''krot-auth-v1'' @ [0]"

definition signing_payload :: "Nonce \<Rightarrow> bytes" where
  "signing_payload nonce = AUTH_DOMAIN_SEPARATOR @ nonce"

definition sign_challenge :: "('sk \<Rightarrow> bytes \<Rightarrow> bytes) \<Rightarrow> 'sk \<Rightarrow> Nonce \<Rightarrow> Signature" where
  "sign_challenge sign key nonce = sign key (signing_payload nonce)"

definition verify_challenge ::
  "(bytes \<Rightarrow> 'vk option) \<Rightarrow> ('vk \<Rightarrow> bytes \<Rightarrow> bytes \<Rightarrow> bool) \<Rightarrow> PubKey \<Rightarrow> Nonce \<Rightarrow> Signature \<Rightarrow> bool" where
  "verify_challenge vk_from_bytes verify pubkey nonce sig =
    (case vk_from_bytes pubkey of
       None \<Rightarrow> False
     | Some vk \<Rightarrow> verify vk (signing_payload nonce) sig)"

section \<open>Data-stream header\<close>

datatype StreamKind = Control | DataHttp | DataTcp

fun StreamKind_as_byte :: "StreamKind \<Rightarrow> u8" where
  "StreamKind_as_byte Control = 0x01"
| "StreamKind_as_byte DataHttp = 0x02"
| "StreamKind_as_byte DataTcp = 0x03"

datatype StreamKindError = StreamKindError u8

definition StreamKind_try_from :: "u8 \<Rightarrow> (StreamKindError, StreamKind) result" where
  "StreamKind_try_from v =
    (if v = 0x01 then Inr Control
     else if v = 0x02 then Inr DataHttp
     else if v = 0x03 then Inr DataTcp
     else Inl (StreamKindError v))"

record DataHeader =
  dh_kind :: StreamKind
  dh_tunnel_id :: TunnelId

definition DataHeader_to_bytes :: "DataHeader \<Rightarrow> bytes" where
  "DataHeader_to_bytes h = StreamKind_as_byte (dh_kind h) # to_le 8 (dh_tunnel_id h)"

text \<open>The argument of \<^verbatim>\<open>decode\<close> is an array of nine bytes.\<close>

definition DataHeader_decode :: "bytes \<Rightarrow> (StreamKindError, DataHeader) result" where
  "DataHeader_decode bs =
    (case StreamKind_try_from (bs ! 0) of
       Inl e \<Rightarrow> Inl e
     | Inr k \<Rightarrow>
         if k = Control then Inl (StreamKindError (bs ! 0))
         else Inr \<lparr>dh_kind = k, dh_tunnel_id = of_le (take 8 (drop 1 bs))\<rparr>)"

section \<open>Mux frame header\<close>

datatype MuxFlag = Open | Data | Fin

fun MuxFlag_as_byte :: "MuxFlag \<Rightarrow> u8" where
  "MuxFlag_as_byte Open = 0x01"
| "MuxFlag_as_byte Data = 0x02"
| "MuxFlag_as_byte Fin = 0x03"

datatype MuxHeaderError = TooShort | UnknownFlag u8 | FinWithPayload u32 | OpenBadPayload u32

definition MuxFlag_try_from :: "u8 \<Rightarrow> (MuxHeaderError, MuxFlag) result" where
  "MuxFlag_try_from b =
    (if b = 0x01 then Inr Open
     else if b = 0x02 then Inr Data
     else if b = 0x03 then Inr Fin
     else Inl (UnknownFlag b))"

record MuxHeader =
  mh_flag :: MuxFlag
  mh_stream_id :: u32
  mh_payload_len :: u32

definition MuxHeader_to_bytes :: "MuxHeader \<Rightarrow> bytes" where
  "MuxHeader_to_bytes h =
     MuxFlag_as_byte (mh_flag h) # to_le 4 (mh_stream_id h) @ to_le 4 (mh_payload_len h)"

definition MuxHeader_decode :: "bytes \<Rightarrow> (MuxHeaderError, MuxHeader) result" where
  "MuxHeader_decode bs =
    (if length bs < MUX_HEADER_SIZE then Inl TooShort
     else case MuxFlag_try_from (bs ! 0) of
       Inl e \<Rightarrow> Inl e
     | Inr flag \<Rightarrow>
        (let stream_id = of_le (take 4 (drop 1 bs));
             payload_len = of_le (take 4 (drop 5 bs))
         in if flag = Fin \<and> payload_len \<noteq> 0 then Inl (FinWithPayload payload_len)
            else if flag = Open \<and> payload_len \<noteq> 9 then Inl (OpenBadPayload payload_len)
            else Inr \<lparr>mh_flag = flag, mh_stream_id = stream_id, mh_payload_len = payload_len\<rparr>))"

definition is_client_opened :: "u32 \<Rightarrow> bool" where
  "is_client_opened stream_id \<longleftrightarrow> stream_id \<noteq> CONTROL_STREAM_ID \<and> stream_id mod 2 = 0"

definition is_server_opened :: "u32 \<Rightarrow> bool" where
  "is_server_opened stream_id \<longleftrightarrow> stream_id \<noteq> CONTROL_STREAM_ID \<and> stream_id mod 2 \<noteq> 0"

text \<open>The header a peer may legally send, by \<^verbatim>\<open>decode\<close>'s two shape checks.\<close>

definition mux_header_ok :: "MuxHeader \<Rightarrow> bool" where
  "mux_header_ok h \<longleftrightarrow>
     (mh_flag h = Fin \<longrightarrow> mh_payload_len h = 0) \<and> (mh_flag h = Open \<longrightarrow> mh_payload_len h = 9)"

lemma StreamKind_try_from_as_byte [simp]: "StreamKind_try_from (StreamKind_as_byte k) = Inr k"
  by (cases k) (simp_all add: StreamKind_try_from_def)

lemma StreamKind_try_from_Inr: "StreamKind_try_from b = Inr k \<longleftrightarrow> b = StreamKind_as_byte k"
  by (cases k) (auto simp: StreamKind_try_from_def)

lemma MuxFlag_try_from_as_byte [simp]: "MuxFlag_try_from (MuxFlag_as_byte k) = Inr k"
  by (cases k) (simp_all add: MuxFlag_try_from_def)

lemma MuxFlag_try_from_Inr: "MuxFlag_try_from b = Inr k \<longleftrightarrow> b = MuxFlag_as_byte k"
  by (cases k) (auto simp: MuxFlag_try_from_def)

lemma DataHeader_decode_to_bytes:
  assumes "dh_kind h \<noteq> Control"
  shows "DataHeader_decode (DataHeader_to_bytes h @ rest) = Inr h"
  using assms by (simp add: DataHeader_decode_def DataHeader_to_bytes_def)

lemma MuxHeader_decode_to_bytes:
  assumes "mux_header_ok h"
  shows "MuxHeader_decode (MuxHeader_to_bytes h @ rest) = Inr h"
  using assms by (auto simp: MuxHeader_decode_def MuxHeader_to_bytes_def MUX_HEADER_SIZE_def
      mux_header_ok_def)

section \<open>Length-prefixed frames\<close>

text \<open>A \<^verbatim>\<open>postcard::Error\<close> is represented by its message.\<close>

datatype FramingError =
    FrameTooLarge nat nat
  | BadVarint
  | Truncated nat nat
  | Postcard string

function write_varint_u32 :: "u32 \<Rightarrow> bytes \<Rightarrow> bytes" where
  "write_varint_u32 v out =
    (if 0x80 \<le> v
     then write_varint_u32 (drop_bit 7 v) (out @ [(ucast v AND 0x7F) OR 0x80])
     else out @ [ucast v])"
  by pat_completeness auto
termination
proof (relation "measure (unat \<circ> fst)", simp)
  fix v :: u32 and out :: bytes
  assume "0x80 \<le> v"
  then have "0 < unat v" by (simp add: word_le_nat_alt)
  then have "unat v div 2 ^ 7 < unat v" by simp
  then show "((drop_bit 7 v, out @ [(ucast v AND 0x7F) OR 0x80]), v, out) \<in> measure (unat \<circ> fst)"
    by (simp add: drop_bit_eq_div unat_div)
qed

declare write_varint_u32.simps [simp del]

fun read_varint_loop :: "nat \<Rightarrow> u32 \<Rightarrow> bytes \<Rightarrow> (FramingError, u32 \<times> nat) result" where
  "read_varint_loop i acc [] = Inl BadVarint"
| "read_varint_loop i acc (b # bs) =
    (if 5 \<le> i then Inl BadVarint
     else let bits = ucast (b AND 0x7F); shift = i * 7
       in if 32 \<le> shift \<or> drop_bit shift (push_bit shift bits) \<noteq> bits then Inl BadVarint
          else let acc = acc OR push_bit shift bits
            in if b AND 0x80 = 0 then Inr (acc, i + 1) else read_varint_loop (i + 1) acc bs)"

definition read_varint_u32 :: "bytes \<Rightarrow> (FramingError, u32 \<times> nat) result" where
  "read_varint_u32 input = read_varint_loop 0 0 input"

text \<open>\<^verbatim>\<open>ser\<close> and \<^verbatim>\<open>de\<close> stand for \<^verbatim>\<open>postcard::to_stdvec\<close> and \<^verbatim>\<open>postcard::from_bytes\<close>.\<close>

definition encode_frame ::
  "('a \<Rightarrow> (string, bytes) result) \<Rightarrow> 'a \<Rightarrow> bytes \<Rightarrow> (FramingError, nat \<times> bytes) result" where
  "encode_frame ser v out =
    (case ser v of
       Inl e \<Rightarrow> Inl (Postcard e)
     | Inr payload \<Rightarrow>
         if MAX_FRAME_SIZE < length payload then Inl (FrameTooLarge (length payload) MAX_FRAME_SIZE)
         else let out' = write_varint_u32 (word_of_nat (length payload)) out @ payload
           in Inr (length out' - length out, out'))"

definition decode_frame ::
  "(bytes \<Rightarrow> (string, 'a) result) \<Rightarrow> bytes \<Rightarrow> (FramingError, 'a \<times> nat) result" where
  "decode_frame de input =
    (case read_varint_u32 input of
       Inl e \<Rightarrow> Inl e
     | Inr (len, prefix_bytes) \<Rightarrow>
        (let len = unat len
         in if MAX_FRAME_SIZE < len then Inl (FrameTooLarge len MAX_FRAME_SIZE)
            else let end = prefix_bytes + len
              in if length input < end then Inl (Truncated end (length input))
                 else case de (drop prefix_bytes (take end input)) of
                   Inl e \<Rightarrow> Inl (Postcard e)
                 | Inr v \<Rightarrow> Inr (v, end)))"

subsection \<open>The varint loops are inverse\<close>

lemma unat_drop_bit_7_less: "(0x80 :: u32) \<le> v \<Longrightarrow> unat (drop_bit 7 v) < unat v"
  by (simp add: drop_bit_eq_div unat_div word_le_nat_alt)

lemma write_varint_u32_acc: "write_varint_u32 v out = out @ write_varint_u32 v []"
proof (induction "unat v" arbitrary: v out rule: less_induct)
  case less
  show ?case
  proof (cases "0x80 \<le> v")
    case True
    note IH = less [OF unat_drop_bit_7_less [OF True]]
    show ?thesis
      using True by (subst (1 2) write_varint_u32.simps) (simp add: IH [of "_ @ _"] IH [of "[_]"])
  next
    case False
    then show ?thesis by (subst (1 2) write_varint_u32.simps) simp
  qed
qed

lemma write_varint_u32_step:
  "0x80 \<le> v \<Longrightarrow>
    write_varint_u32 v [] = ((ucast v AND 0x7F) OR 0x80) # write_varint_u32 (drop_bit 7 v) []"
  by (subst write_varint_u32.simps, subst write_varint_u32_acc) simp

lemma write_varint_u32_last: "\<not> 0x80 \<le> v \<Longrightarrow> write_varint_u32 v [] = [ucast v]"
  by (subst write_varint_u32.simps) simp

lemma mask_7_u8: "(0x7F :: u8) = mask 7" by (simp add: mask_eq_exp_minus_1)

lemma and_0x80_u8: "(b :: u8) AND 0x80 = 0 \<longleftrightarrow> \<not> bit b 7"
  using and_exp_eq_0_iff_not_bit [of b 7] by simp

lemma or_0x80_u8: "(b :: u8) OR 0x80 = set_bit 7 b"
  by (simp add: set_bit_eq_or push_bit_eq_mult)

lemma varint_cont_bits:
  "ucast (((ucast v AND 0x7F) OR 0x80 :: u8) AND 0x7F) = (take_bit 7 v :: u32)"
  by (rule bit_word_eqI) (auto simp: mask_7_u8 or_0x80_u8 bit_simps)
lemma varint_cont_flag:
  "((ucast (v :: u32) AND 0x7F) OR 0x80 :: u8) AND 0x80 \<noteq> 0"
  by (simp add: or_0x80_u8 and_0x80_u8 bit_simps)

lemma take_bit_7_less_0x80:
  assumes "\<not> 0x80 \<le> (v :: u32)"
  shows "take_bit 7 v = v"
  using assms by (simp add: word_unat_eq_iff unsigned_take_bit_eq word_le_nat_alt not_le) (simp add: take_bit_eq_mod)

lemma varint_last_bits:
  assumes "\<not> 0x80 \<le> (v :: u32)"
  shows "ucast (ucast v AND 0x7F :: u8) = v"
proof -
  have "ucast (ucast v AND 0x7F :: u8) = take_bit 7 v"
    by (rule bit_word_eqI) (auto simp: mask_7_u8 bit_simps)
  with take_bit_7_less_0x80 [OF assms] show ?thesis by simp
qed
lemma varint_last_flag:
  assumes "\<not> 0x80 \<le> (v :: u32)"
  shows "(ucast v :: u8) AND 0x80 = 0"
  using arg_cong[OF take_bit_7_less_0x80 [OF assms], of "\<lambda>v. bit v 7"] by (simp add: and_0x80_u8 bit_simps)

lemma varint_shift_ok:
  assumes "drop_bit (32 - k) (v :: u32) = 0" "k \<le> 32"
  shows "drop_bit k (push_bit k v) = v"
proof (rule bit_word_eqI)
  fix n
  assume "n < LENGTH(32)"
  have "\<not> bit v n" if "32 - k \<le> n" for n
    using arg_cong[OF assms(1), of "\<lambda>v. bit v (n - (32 - k))"] that by (simp add: bit_simps)
  moreover have "n < 32 - k \<Longrightarrow> n + k < 32" using assms(2) by auto
  ultimately show "bit (drop_bit k (push_bit k v)) n = bit v n"
    by (cases "n < 32 - k") (auto simp: bit_simps dest: bit_imp_le_length)
qed

lemma push_bit_split_7:
  "push_bit k (take_bit 7 v) OR push_bit (7 + k) (drop_bit 7 v) = push_bit k (v :: u32)"
proof -
  have "take_bit 7 v OR push_bit 7 (drop_bit 7 v) = v"
    by (rule bit_word_eqI) (auto simp: bit_simps not_less le_add_diff_inverse intro: ccontr)
  then show ?thesis
    by (metis push_bit_or push_bit_push_bit add.commute)
qed

lemma varint_more_bits:
  assumes "0x80 \<le> (v :: u32)" "drop_bit k v = 0"
  shows "7 < k"
proof (rule ccontr)
  assume "\<not> 7 < k"
  then have "drop_bit 7 v = drop_bit (7 - k) (drop_bit k v)" by (simp add: drop_bit_drop_bit)
  with assms(2) have "unat (v div 128) = 0" by (simp add: drop_bit_eq_div)
  with assms(1) show False by (simp add: unat_div word_le_nat_alt div_eq_0_iff)
qed

lemma read_varint_loop_write:
  assumes "drop_bit (32 - 7 * i) v = 0" "i < 5"
  shows "read_varint_loop i acc (write_varint_u32 v [] @ rest) =
           Inr (acc OR push_bit (7 * i) v, i + length (write_varint_u32 v []))"
  using assms
proof (induction "unat v" arbitrary: v i acc rule: less_induct)
  case less
  have ok: "drop_bit (7 * i) (push_bit (7 * i) v) = v"
    by (rule varint_shift_ok) (use less.prems in auto)
  show ?case
  proof (cases "0x80 \<le> v")
    case True
    have ok': "drop_bit (7 * i) (push_bit (7 * i) (take_bit 7 v)) = take_bit 7 v"
      by (rule varint_shift_ok) (use less.prems in \<open>simp_all add: drop_bit_take_bit\<close>)
    have lt: "7 * i + 7 < 32"
      using varint_more_bits [OF True less.prems(1)] by simp
    have join: "(acc OR push_bit (7 * i) (take_bit 7 v)) OR push_bit (7 * Suc i) (drop_bit 7 v) =
        acc OR push_bit (7 * i) v"
      by (simp add: or.assoc push_bit_split_7)
    have "drop_bit (32 - 7 * Suc i) (drop_bit 7 v) = 0"
      using less.prems(1) lt by (simp add: drop_bit_drop_bit)
    from less.hyps [OF unat_drop_bit_7_less [OF True] this, of "acc OR push_bit (7 * i) (take_bit 7 v)"] lt
    show ?thesis
      using less.prems(2) ok' True join
      by (simp add: write_varint_u32_step varint_cont_bits varint_cont_flag Let_def mult.commute)
  next
    case False
    then show ?thesis
      using less.prems(2) ok
      by (simp add: write_varint_u32_last varint_last_bits varint_last_flag Let_def mult.commute)
  qed
qed

lemma read_write_varint_u32:
  "read_varint_u32 (write_varint_u32 v [] @ rest) = Inr (v, length (write_varint_u32 v []))"
proof -
  have "drop_bit (32 - 7 * 0) v = 0" by (rule bit_word_eqI) (auto simp: bit_simps dest: bit_imp_le_length)
  from read_varint_loop_write [OF this, of 0] show ?thesis by (simp add: read_varint_u32_def)
qed

subsection \<open>Frames\<close>

lemma read_varint_loop_mono:
  "read_varint_loop i acc bs = Inr (v, n) \<Longrightarrow>
     i < n \<and> n \<le> i + length bs \<and> read_varint_loop i acc (bs @ rest) = Inr (v, n)"
proof (induction i acc bs rule: read_varint_loop.induct)
  case (2 i acc b bs)
  then show ?case by (auto simp: Let_def intro: Suc_lessD split: if_splits)
qed simp

lemma read_varint_u32_mono:
  assumes "read_varint_u32 bs = Inr (v, n)"
  shows "0 < n" "n \<le> length bs" "read_varint_u32 (bs @ rest) = Inr (v, n)"
  unfolding read_varint_u32_def
  using read_varint_loop_mono [OF assms [unfolded read_varint_u32_def]] by auto

lemma decode_frame_mono:
  assumes "decode_frame de bs = Inr (v, n)"
  shows "0 < n \<and> n \<le> length bs \<and> decode_frame de (bs @ rest) = Inr (v, n)"
proof -
  obtain len p where rv: "read_varint_u32 bs = Inr (len, p)"
    using assms by (auto simp: decode_frame_def split: sum.splits)
  show ?thesis
    using assms rv read_varint_u32_mono [OF rv]
    by (auto simp: decode_frame_def Let_def split: if_splits sum.splits)
qed

text \<open>The bytes of one frame around a serialized payload, and the frame reader on raw payloads.\<close>

definition frame_of_payload :: "bytes \<Rightarrow> bytes" where
  "frame_of_payload p = write_varint_u32 (word_of_nat (length p)) [] @ p"

definition frame_split :: "bytes \<Rightarrow> (bytes \<times> bytes) option" where
  "frame_split bs =
    (case decode_frame Inr bs of
       Inl e \<Rightarrow> None
     | Inr (p, n) \<Rightarrow> Some (p, drop n bs))"

lemma encode_frame_eq:
  "encode_frame ser v out =
    (case ser v of
       Inl e \<Rightarrow> Inl (Postcard e)
     | Inr p \<Rightarrow>
         if MAX_FRAME_SIZE < length p then Inl (FrameTooLarge (length p) MAX_FRAME_SIZE)
         else Inr (length (frame_of_payload p), out @ frame_of_payload p))"
  by (subst encode_frame_def, subst write_varint_u32_acc)
    (simp add: frame_of_payload_def split: sum.split)

lemma decode_frame_of_payload:
  assumes "length p \<le> MAX_FRAME_SIZE"
  shows "decode_frame de (frame_of_payload p @ rest) =
    (case de p of Inl e \<Rightarrow> Inl (Postcard e) | Inr v \<Rightarrow> Inr (v, length (frame_of_payload p)))"
proof -
  have "unat (word_of_nat (length p) :: u32) = length p"
    using assms by (simp add: unat_of_nat MAX_FRAME_SIZE_def)
  then show ?thesis
    using assms by (simp add: decode_frame_def frame_of_payload_def read_write_varint_u32 Let_def
        split: sum.split)
qed

interpretation frame_codec: prefix_codec frame_of_payload frame_split "\<lambda>p. length p \<le> MAX_FRAME_SIZE"
proof
  show "length p \<le> MAX_FRAME_SIZE \<Longrightarrow> frame_split (frame_of_payload p @ rest) = Some (p, rest)" for p rest
    by (simp add: frame_split_def decode_frame_of_payload)
  show "frame_split bs = Some (p, rest) \<Longrightarrow> length rest < length bs" for bs p rest
    by (auto simp: frame_split_def split: sum.splits dest: decode_frame_mono)
qed

definition DataHeader_split :: "bytes \<Rightarrow> (DataHeader \<times> bytes) option" where
  "DataHeader_split bs =
    (if length bs < DATA_HEADER_SIZE then None
     else case DataHeader_decode (take DATA_HEADER_SIZE bs) of
       Inl e \<Rightarrow> None
     | Inr h \<Rightarrow> Some (h, drop DATA_HEADER_SIZE bs))"

lemma length_DataHeader_to_bytes [simp]: "length (DataHeader_to_bytes h) = DATA_HEADER_SIZE"
  by (simp add: DataHeader_to_bytes_def DATA_HEADER_SIZE_def)

lemma length_MuxHeader_to_bytes [simp]: "length (MuxHeader_to_bytes h) = MUX_HEADER_SIZE"
  by (simp add: MuxHeader_to_bytes_def MUX_HEADER_SIZE_def)

interpretation data_header_codec: prefix_codec DataHeader_to_bytes DataHeader_split "\<lambda>h. dh_kind h \<noteq> Control"
proof
  show "dh_kind h \<noteq> Control \<Longrightarrow> DataHeader_split (DataHeader_to_bytes h @ rest) = Some (h, rest)" for h rest
    using DataHeader_decode_to_bytes [of h "[]"] by (simp add: DataHeader_split_def)
  show "DataHeader_split bs = Some (h, rest) \<Longrightarrow> length rest < length bs" for bs h rest
    by (auto simp: DataHeader_split_def DATA_HEADER_SIZE_def split: if_splits sum.splits)
qed

lemma take_9_split: "9 \<le> length bs \<Longrightarrow> take 9 bs = bs ! 0 # take 4 (drop 1 bs) @ take 4 (drop 5 bs)"
  using take_add [of 4 4 "tl bs"] by (cases bs) simp_all

section \<open>Properties\<close>

text \<open>
  C34: a frame written by \<^verbatim>\<open>encode_frame\<close> is appended to the output buffer, the
  returned count is its length, and \<^verbatim>\<open>decode_frame\<close> reads it back from the head of
  any longer buffer, consuming exactly those bytes, when \<^verbatim>\<open>postcard\<close> reads back what
  it wrote for the value.
\<close>

theorem frame_roundtrip:
  assumes "ser v = Inr p" "de p = Inr v" "length p \<le> MAX_FRAME_SIZE"
  shows "\<exists>f. encode_frame ser v out = Inr (length f, out @ f) \<and>
             decode_frame de (f @ rest) = Inr (v, length f)"
  using assms by (simp add: encode_frame_eq decode_frame_of_payload)

theorem frame_roundtrip_witness:
  "\<exists>f. encode_frame Inr [0xAA, 0xBB] [1] = Inr (length f, [1] @ f) \<and>
       decode_frame Inr (f @ [7]) = Inr ([0xAA, 0xBB], length f)"
  by (rule frame_roundtrip [where p = "[0xAA, 0xBB]"]) (simp_all add: MAX_FRAME_SIZE_def)

text \<open>
  \<^verbatim>\<open>decode_frame\<close> never accepts a partial frame: every strict prefix of an
  encoded frame is an error, so a reader that waits for more input never misparses.
\<close>

theorem decode_frame_strict_prefix:
  assumes "ser v = Inr p" "length p \<le> MAX_FRAME_SIZE" "encode_frame ser v [] = Inr (n, f)" "k < n"
  shows "\<exists>e. decode_frame de (take k f) = Inl e"
proof (rule ccontr)
  assume "\<not> ?thesis"
  then obtain w m where ok: "decode_frame de (take k f) = Inr (w, m)"
    by (cases "decode_frame de (take k f)") auto
  have f: "f = frame_of_payload p" "n = length f"
    using assms by (auto simp: encode_frame_eq split: if_splits)
  have "m \<le> k" "decode_frame de f = Inr (w, m)"
    using decode_frame_mono [OF ok, of "drop k f"] by auto
  then show False
    using decode_frame_of_payload [OF assms(2), of de "[]"] f assms(4) by (auto split: sum.splits)
qed

theorem decode_frame_strict_prefix_witness:
  "\<exists>e. (decode_frame Inr (take 2 [0x02, 0xAA, 0xBB]) :: (FramingError, bytes \<times> nat) result) = Inl e"
proof (rule decode_frame_strict_prefix 
      [where ser = Inr and v = "[0xAA, 0xBB]" and p = "[0xAA, 0xBB]" and n = 3])
  show "encode_frame Inr [0xAA, 0xBB] [] = Inr (3, [0x02, 0xAA, 0xBB])"
    by (simp add: encode_frame_eq frame_of_payload_def write_varint_u32_last MAX_FRAME_SIZE_def)
qed (simp_all add: MAX_FRAME_SIZE_def)

text \<open>
  C38: \<^verbatim>\<open>MuxHeader::decode\<close> accepts exactly the byte strings that \<^verbatim>\<open>to_bytes\<close> produces
  (followed by anything) for headers whose FIN carries no payload and whose OPEN
  carries nine bytes, and returns that header.
\<close>

theorem MuxHeader_decode_iff:
  "MuxHeader_decode bs = Inr h \<longleftrightarrow> mux_header_ok h \<and> prefix (MuxHeader_to_bytes h) bs"
proof
  assume dec: "MuxHeader_decode bs = Inr h"
  then have len: "9 \<le> length bs" and flag: "bs ! 0 = MuxFlag_as_byte (mh_flag h)"
    and sid: "mh_stream_id h = of_le (take 4 (drop 1 bs))"
    and pl: "mh_payload_len h = of_le (take 4 (drop 5 bs))" and ok: "mux_header_ok h"
    by (auto simp: MuxHeader_decode_def MUX_HEADER_SIZE_def Let_def mux_header_ok_def
        MuxFlag_try_from_Inr split: if_splits sum.splits)
  have "to_le 4 (mh_stream_id h) = take 4 (drop 1 bs)" "to_le 4 (mh_payload_len h) = take 4 (drop 5 bs)"
    using len by (simp_all add: sid pl to_le_of_le_u32)
  then have "MuxHeader_to_bytes h = take 9 bs"
    using len by (simp add: MuxHeader_to_bytes_def flag take_9_split)
  with ok show "mux_header_ok h \<and> prefix (MuxHeader_to_bytes h) bs" by (simp add: take_is_prefix)
next
  assume "mux_header_ok h \<and> prefix (MuxHeader_to_bytes h) bs"
  then show "MuxHeader_decode bs = Inr h" by (auto simp: prefix_def MuxHeader_decode_to_bytes)
qed

end
