(* ===== verification/Registry.thy ===== *)
theory Registry
  imports Proto_Wire "HOL-Library.AList"
begin

text \<open>
  The tunnel registry of \<^verbatim>\<open>krot-server/src/registry.rs\<close>: label-indexed HTTP
  tunnels, port-pool TCP tunnels and the session-resume lease. The mutex makes
  each method atomic, so a method is a function on the registry. Connections,
  listeners, rate-limit states and task abort handles are references (numbers);
  an operation that aborts listener tasks also returns the aborted handles.
  A \<^verbatim>\<open>HashMap\<close> that is iterated is an association list, whose order stands
  for the unspecified iteration order. An \<^verbatim>\<open>Instant\<close> is a number of milliseconds.
\<close>

section \<open>State\<close>

type_synonym ConnRef = nat
type_synonym AbortHandle = nat
type_synonym ListenerRef = nat
type_synonym RateRef = nat

datatype RegisteredKind = KTcp u16 | KHttp string

datatype TunnelState = Live ConnRef "AbortHandle option" | Dangling nat

record TunnelInfo =
  ti_id :: TunnelId
  ti_owner :: PubKey
  ti_session_id :: SessionId
  ti_kind :: RegisteredKind
  ti_state :: TunnelState
  ti_tcp_listener :: "ListenerRef option"
  ti_rate :: RateRef
  ti_inspect :: bool

record TunnelRegistry =
  port_pool :: "u16 \<times> u16"
  next_id :: u64
  used_ports :: "u16 set"
  used_labels :: "string set"
  tunnels :: "(TunnelId \<times> TunnelInfo) list"
  labels :: "string \<rightharpoonup> TunnelId"

datatype TunnelSnapshotKind = SHttp string | STcp u16

record TunnelSnapshot =
  ts_tunnel_id :: TunnelId
  ts_owner :: PubKey
  ts_session_id :: SessionId
  ts_inspect :: bool
  ts_kind :: TunnelSnapshotKind
  ts_live :: bool

record ResolvedTunnel =
  rt_id :: TunnelId
  rt_connection :: ConnRef
  rt_rate :: RateRef
  rt_inspect :: bool

datatype ResumedInfo = RHttp string | RTcp u16 ListenerRef

datatype ResumeOutcome = Reattached TunnelId ResumedInfo bool | Unknown | IdentityMismatch

datatype RegistryError = PortPoolExhausted | LabelTaken string

fun is_dangling :: "TunnelState \<Rightarrow> bool" where
  "is_dangling (Dangling e) = True"
| "is_dangling (Live c a) = False"

fun abort_of :: "TunnelState \<Rightarrow> AbortHandle list" where
  "abort_of (Live c (Some a)) = [a]"
| "abort_of (Live c None) = []"
| "abort_of (Dangling e) = []"

section \<open>Operations\<close>

definition registry_new :: "u16 \<times> u16 \<Rightarrow> TunnelRegistry" where
  "registry_new pool =
    \<lparr>port_pool = pool, next_id = 1, used_ports = {}, used_labels = {}, tunnels = [], labels = Map.empty\<rparr>"

definition range_inclusive :: "u16 \<times> u16 \<Rightarrow> u16 list" where
  "range_inclusive pool = map word_of_nat [unat (fst pool) ..< Suc (unat (snd pool))]"

definition pick_free_port :: "u16 \<times> u16 \<Rightarrow> u16 set \<Rightarrow> u16 list option \<Rightarrow> u16 option" where
  "pick_free_port pool used allowlist =
    find (\<lambda>p. if p \<in> used then False
              else case allowlist of Some l \<Rightarrow> p \<in> set l | None \<Rightarrow> True) (range_inclusive pool)"

text \<open>\<^verbatim>\<open>checked_add(1).unwrap_or(1)\<close>: the only overflowing operand is the largest word.\<close>

definition fresh_id :: "TunnelRegistry \<Rightarrow> TunnelId \<times> TunnelRegistry" where
  "fresh_id r = (next_id r, r\<lparr>next_id := if next_id r = - 1 then 1 else next_id r + 1\<rparr>)"

definition allocate_tcp ::
  "u16 list option \<Rightarrow> TunnelRegistry \<Rightarrow> (RegistryError, TunnelId \<times> u16) result \<times> TunnelRegistry" where
  "allocate_tcp allowlist r =
    (case pick_free_port (port_pool r) (used_ports r) allowlist of
       None \<Rightarrow> (Inl PortPoolExhausted, r)
     | Some port \<Rightarrow>
        (let (tid, r') = fresh_id (r\<lparr>used_ports := insert port (used_ports r)\<rparr>)
         in (Inr (tid, port), r')))"

definition allocate_http ::
  "string \<Rightarrow> TunnelRegistry \<Rightarrow> (RegistryError, TunnelId) result \<times> TunnelRegistry" where
  "allocate_http label r =
    (if label \<in> used_labels r then (Inl (LabelTaken label), r)
     else let (tid, r') = fresh_id (r\<lparr>used_labels := insert label (used_labels r)\<rparr>)
       in (Inr tid, r'))"

definition registry_insert :: "TunnelInfo \<Rightarrow> TunnelRegistry \<Rightarrow> TunnelRegistry" where
  "registry_insert info r =
    (let r = (case ti_kind info of
                KHttp label \<Rightarrow> r\<lparr>labels := (labels r)(label \<mapsto> ti_id info)\<rparr>
              | KTcp port \<Rightarrow> r)
     in r\<lparr>tunnels := AList.update (ti_id info) info (tunnels r)\<rparr>)"

definition resolve_label :: "string \<Rightarrow> TunnelRegistry \<Rightarrow> ResolvedTunnel option" where
  "resolve_label label r =
    (case labels r label of
       None \<Rightarrow> None
     | Some tid \<Rightarrow>
        (case map_of (tunnels r) tid of
           None \<Rightarrow> None
         | Some info \<Rightarrow>
            (case ti_state info of
               Live connection abort \<Rightarrow>
                 Some \<lparr>rt_id = tid, rt_connection = connection, rt_rate = ti_rate info,
                       rt_inspect = ti_inspect info\<rparr>
             | Dangling e \<Rightarrow> None)))"

definition remove_locked :: "TunnelId \<Rightarrow> TunnelRegistry \<Rightarrow> TunnelRegistry \<times> AbortHandle list" where
  "remove_locked tid r =
    (case map_of (tunnels r) tid of
       None \<Rightarrow> (r, [])
     | Some info \<Rightarrow>
        (let r = r\<lparr>tunnels := AList.delete tid (tunnels r)\<rparr>;
             r = (case ti_kind info of
                    KTcp port \<Rightarrow> r\<lparr>used_ports := used_ports r - {port}\<rparr>
                  | KHttp label \<Rightarrow>
                      r\<lparr>used_labels := used_labels r - {label}, labels := (labels r)(label := None)\<rparr>)
         in (r, abort_of (ti_state info))))"

definition registry_remove :: "TunnelId \<Rightarrow> TunnelRegistry \<Rightarrow> TunnelRegistry \<times> AbortHandle list" where
  "registry_remove tid r = remove_locked tid r"

fun remove_ids :: "TunnelId list \<Rightarrow> TunnelRegistry \<Rightarrow> TunnelRegistry \<times> AbortHandle list" where
  "remove_ids [] r = (r, [])"
| "remove_ids (tid # ids) r =
    (let (r1, as1) = remove_locked tid r; (r2, as2) = remove_ids ids r1 in (r2, as1 @ as2))"

definition ids_owned_by :: "PubKey \<Rightarrow> TunnelRegistry \<Rightarrow> TunnelId list" where
  "ids_owned_by owner r = map fst (filter (\<lambda>(tid, info). ti_owner info = owner) (tunnels r))"

definition remove_all_owned_by :: "PubKey \<Rightarrow> TunnelRegistry \<Rightarrow> TunnelRegistry \<times> AbortHandle list" where
  "remove_all_owned_by owner r = remove_ids (ids_owned_by owner r) r"

fun dangle_ids :: "nat \<Rightarrow> TunnelId list \<Rightarrow> TunnelRegistry \<Rightarrow> TunnelRegistry \<times> AbortHandle list" where
  "dangle_ids expires_at [] r = (r, [])"
| "dangle_ids expires_at (tid # ids) r =
    (case map_of (tunnels r) tid of
       None \<Rightarrow> dangle_ids expires_at ids r
     | Some info \<Rightarrow>
         if is_dangling (ti_state info) then dangle_ids expires_at ids r
         else let (r', as) = dangle_ids expires_at ids
                (r\<lparr>tunnels := AList.update tid (info\<lparr>ti_state := Dangling expires_at\<rparr>) (tunnels r)\<rparr>)
           in (r', abort_of (ti_state info) @ as))"

definition mark_dangling ::
  "nat \<Rightarrow> PubKey \<Rightarrow> nat \<Rightarrow> TunnelRegistry \<Rightarrow> TunnelRegistry \<times> AbortHandle list" where
  "mark_dangling now owner grace r = dangle_ids (now + grace) (ids_owned_by owner r) r"

definition expired_ids :: "nat \<Rightarrow> TunnelRegistry \<Rightarrow> TunnelId list" where
  "expired_ids now r =
    map fst (filter (\<lambda>(tid, info). case ti_state info of Dangling expires_at \<Rightarrow> expires_at \<le> now
                                                     | Live c a \<Rightarrow> False) (tunnels r))"

definition reap_expired :: "nat \<Rightarrow> TunnelRegistry \<Rightarrow> nat \<times> TunnelRegistry \<times> AbortHandle list" where
  "reap_expired now r = (let ids = expired_ids now r in (length ids, remove_ids ids r))"

definition resume_candidate :: "string \<Rightarrow> SessionId \<Rightarrow> TunnelRegistry \<Rightarrow> TunnelId option" where
  "resume_candidate label sid r =
    (case labels r label of
       Some tid \<Rightarrow> Some tid
     | None \<Rightarrow>
         map_option fst
           (find (\<lambda>(tid, info). ti_session_id info = sid \<and> is_dangling (ti_state info) \<and>
                               (\<exists>p. ti_kind info = KTcp p)) (tunnels r)))"

definition try_resume ::
  "string \<Rightarrow> SessionId \<Rightarrow> PubKey \<Rightarrow> ConnRef \<Rightarrow> TunnelRegistry \<Rightarrow> ResumeOutcome \<times> TunnelRegistry" where
  "try_resume label sid pubkey connection r =
    (case resume_candidate label sid r of
       None \<Rightarrow> (Unknown, r)
     | Some tid \<Rightarrow>
        (case map_of (tunnels r) tid of
           None \<Rightarrow> (Unknown, r)
         | Some info \<Rightarrow>
             if \<not> is_dangling (ti_state info) then (Unknown, r)
             else if ti_session_id info \<noteq> sid then (Unknown, r)
             else if ti_owner info \<noteq> pubkey then (IdentityMismatch, r)
             else let r' = r\<lparr>tunnels := AList.update tid (info\<lparr>ti_state := Live connection None\<rparr>) (tunnels r)\<rparr>
               in case ti_kind info of
                    KHttp l \<Rightarrow> (Reattached tid (RHttp l) (ti_inspect info), r')
                  | KTcp port \<Rightarrow>
                     (case ti_tcp_listener info of
                        None \<Rightarrow> (Unknown, r')
                      | Some listener \<Rightarrow> (Reattached tid (RTcp port listener) (ti_inspect info), r'))))"

definition set_tcp_abort :: "TunnelId \<Rightarrow> AbortHandle \<Rightarrow> TunnelRegistry \<Rightarrow> TunnelRegistry" where
  "set_tcp_abort tid new_abort r =
    (case map_of (tunnels r) tid of
       None \<Rightarrow> r
     | Some info \<Rightarrow>
        (case ti_state info of
           Live connection abort \<Rightarrow>
             r\<lparr>tunnels := AList.update tid (info\<lparr>ti_state := Live connection (Some new_abort)\<rparr>) (tunnels r)\<rparr>
         | Dangling e \<Rightarrow> r))"

definition registry_snapshot :: "TunnelRegistry \<Rightarrow> TunnelSnapshot list" where
  "registry_snapshot r =
    map (\<lambda>(tid, info).
          \<lparr>ts_tunnel_id = ti_id info, ts_owner = ti_owner info, ts_session_id = ti_session_id info,
           ts_inspect = ti_inspect info,
           ts_kind = (case ti_kind info of KHttp label \<Rightarrow> SHttp label | KTcp port \<Rightarrow> STcp port),
           ts_live = (\<not> is_dangling (ti_state info))\<rparr>) (tunnels r)"

definition registry_len :: "TunnelRegistry \<Rightarrow> nat" where
  "registry_len r = length (tunnels r)"

definition count_owned_by :: "PubKey \<Rightarrow> TunnelRegistry \<Rightarrow> nat" where
  "count_owned_by owner r = length (filter (\<lambda>t. ti_owner t = owner) (map snd (tunnels r)))"

definition label_alnum :: "char \<Rightarrow> bool" where
  "label_alnum b \<longleftrightarrow> is_ascii_lowercase b \<or> is_ascii_digit b"

definition is_valid_label :: "string \<Rightarrow> bool" where
  "is_valid_label label =
    (if label = ''admin'' then False
     else if \<not> (1 \<le> length label \<and> length label \<le> 63) then False
     else if \<not> label_alnum (label ! 0) \<or> \<not> label_alnum (label ! (length label - 1)) then False
     else if length label < 3 then True
     else list_all (\<lambda>b. label_alnum b \<or> b = CHR ''-'') (take (length label - 2) (drop 1 label)))"

section \<open>Invariant\<close>

text \<open>
  A session reserves a port or label with \<^verbatim>\<open>allocate_*\<close> and publishes the tunnel
  later with \<^verbatim>\<open>insert\<close>; in between, other sessions use the registry. The
  reservations held by sessions are the ghost component \<^verbatim>\<open>res\<close>.
\<close>

definition tunnel :: "TunnelRegistry \<Rightarrow> TunnelId \<rightharpoonup> TunnelInfo" where
  "tunnel r = map_of (tunnels r)"

lemma tunnel_simps [simp]:
  "tunnel (r\<lparr>tunnels := AList.update tid info (tunnels r)\<rparr>) = (tunnel r)(tid \<mapsto> info)"
  "tunnel (r\<lparr>tunnels := AList.delete tid (tunnels r)\<rparr>) = (tunnel r)(tid := None)"
  "tunnel (r\<lparr>used_ports := ps\<rparr>) = tunnel r"
  "tunnel (r\<lparr>used_labels := ls\<rparr>) = tunnel r"
  "tunnel (r\<lparr>labels := m\<rparr>) = tunnel r"
  "tunnel (r\<lparr>next_id := n\<rparr>) = tunnel r"
  by (simp_all add: tunnel_def AList.update_conv' AList.delete_conv')

type_synonym reservations = "(TunnelId \<times> RegisteredKind) list"

definition claims :: "TunnelRegistry \<Rightarrow> reservations \<Rightarrow> (TunnelId \<times> RegisteredKind) set" where
  "claims r res = {(tid, ti_kind info) |tid info. tunnel r tid = Some info} \<union> set res"

definition keys_ok :: "TunnelRegistry \<Rightarrow> reservations \<Rightarrow> bool" where
  "keys_ok r res \<longleftrightarrow>
     distinct (map fst (tunnels r)) \<and> distinct (map fst res) \<and>
     (\<forall>tid info. tunnel r tid = Some info \<longrightarrow>
        ti_id info = tid \<and> tid \<notin> fst ` set res \<and>
        (ti_tcp_listener info \<noteq> None \<longleftrightarrow> (\<exists>p. ti_kind info = KTcp p)))"

definition routes_ok :: "TunnelRegistry \<Rightarrow> bool" where
  "routes_ok r \<longleftrightarrow>
     (\<forall>l tid. labels r l = Some tid \<longleftrightarrow>
        (\<exists>info. tunnel r tid = Some info \<and> ti_kind info = KHttp l))"

definition claims_ok :: "TunnelRegistry \<Rightarrow> reservations \<Rightarrow> bool" where
  "claims_ok r res \<longleftrightarrow>
     (\<forall>a b k. (a, k) \<in> claims r res \<longrightarrow> (b, k) \<in> claims r res \<longrightarrow> a = b) \<and>
     used_ports r = {p. \<exists>a. (a, KTcp p) \<in> claims r res} \<and>
     used_labels r = {l. \<exists>a. (a, KHttp l) \<in> claims r res} \<and>
     used_ports r \<subseteq> set (range_inclusive (port_pool r)) \<and>
     (\<forall>a k. (a, k) \<in> claims r res \<longrightarrow> a < next_id r)"

definition registry_inv :: "TunnelRegistry \<Rightarrow> reservations \<Rightarrow> bool" where
  "registry_inv r res \<longleftrightarrow> keys_ok r res \<and> routes_ok r \<and> claims_ok r res"

lemmas registry_inv_defs = registry_inv_def keys_ok_def routes_ok_def claims_ok_def

lemma registry_inv_new: "registry_inv (registry_new pool) []"
  by (simp add: registry_inv_defs registry_new_def claims_def tunnel_def)

lemma claims_update_same:
  assumes "tunnel r tid = Some info" "ti_kind info' = ti_kind info"
  shows "claims (r\<lparr>tunnels := AList.update tid info' (tunnels r)\<rparr>) res = claims r res"
  using assms by (auto simp: claims_def split: if_splits)

lemma registry_inv_update_same:
  assumes "registry_inv r res" "tunnel r tid = Some info"
    and "ti_id info' = ti_id info" "ti_kind info' = ti_kind info"
    and "ti_tcp_listener info' = ti_tcp_listener info"
  shows "registry_inv (r\<lparr>tunnels := AList.update tid info' (tunnels r)\<rparr>) res"
  using assms claims_update_same [OF assms(2,4)]
  by (auto simp: registry_inv_defs AList.distinct_update split: if_splits)

lemma remove_locked_eq:
  "remove_locked tid r =
    (case tunnel r tid of
       None \<Rightarrow> (r, [])
     | Some info \<Rightarrow>
        ((case ti_kind info of
            KTcp port \<Rightarrow> r\<lparr>used_ports := used_ports r - {port}, tunnels := AList.delete tid (tunnels r)\<rparr>
          | KHttp label \<Rightarrow>
              r\<lparr>used_labels := used_labels r - {label}, labels := (labels r)(label := None),
                tunnels := AList.delete tid (tunnels r)\<rparr>), abort_of (ti_state info)))"
  by (auto simp: remove_locked_def tunnel_def Let_def split: option.split RegisteredKind.split)

lemma tunnel_remove_locked: "tunnel (fst (remove_locked tid r)) = (tunnel r)(tid := None)"
  by (auto simp: remove_locked_eq tunnel_def AList.delete_conv' split: option.split RegisteredKind.split)

lemma holders_minus:
  assumes "\<forall>a b k. (a, k) \<in> C \<longrightarrow> (b, k) \<in> C \<longrightarrow> a = b" "(t, k0) \<in> C"
  shows "{x. \<exists>a. (a, f x) \<in> C - {(t, k0)}} = {x. \<exists>a. (a, f x) \<in> C} - {x. k0 = f x}"
  using assms by blast

lemma claims_remove_locked:
  assumes "keys_ok r res" "tunnel r tid = Some info"
  shows "claims (fst (remove_locked tid r)) res = claims r res - {(tid, ti_kind info)}"
proof -
  have "(tid, k) \<notin> set res" for k
    using assms by (force simp: keys_ok_def)
  with assms(2) show ?thesis
    by (auto simp: claims_def tunnel_remove_locked split: if_splits) (metis option.inject)
qed

lemma keys_ok_remove_locked:
  assumes "keys_ok r res" "tunnel r tid = Some info"
  shows "keys_ok (fst (remove_locked tid r)) res"
proof -
  have "tunnels (fst (remove_locked tid r)) = AList.delete tid (tunnels r)"
    using assms(2) by (simp add: remove_locked_eq split: RegisteredKind.split)
  with assms(1) show ?thesis by (simp add: keys_ok_def tunnel_remove_locked AList.distinct_delete)
qed

lemma routes_ok_remove_locked:
  assumes "routes_ok r" "tunnel r tid = Some info"
  shows "routes_ok (fst (remove_locked tid r))"
proof -
  let ?r = "fst (remove_locked tid r)"
  have rt: "labels r l' = Some t \<longleftrightarrow> (\<exists>i. tunnel r t = Some i \<and> ti_kind i = KHttp l')" for l' t
    using assms(1) by (simp add: routes_ok_def)
  show ?thesis
  proof (cases "ti_kind info")
    case (KTcp p)
    with assms(2) have "labels ?r = labels r" by (simp add: remove_locked_eq)
    with assms KTcp show ?thesis by (auto simp: routes_ok_def tunnel_remove_locked)
  next
    case (KHttp l)
    with assms(2) have lab: "labels ?r = (labels r)(l := None)" by (simp add: remove_locked_eq)
    have "labels r l = Some tid" using assms(2) KHttp by (simp add: rt)
    then have uniq: "ti_kind i \<noteq> KHttp l" if "t \<noteq> tid" "tunnel r t = Some i" for t i
      using rt [of l t] that by auto
    have "(labels ?r l' = Some t) = (\<exists>i. tunnel ?r t = Some i \<and> ti_kind i = KHttp l')" for l' t
      using assms(2) KHttp uniq by (cases "l' = l"; cases "t = tid") (simp_all add: tunnel_remove_locked lab rt)
    then show ?thesis unfolding routes_ok_def by blast
  qed
qed

lemma claims_ok_remove_locked:
  assumes "keys_ok r res" "claims_ok r res" "tunnel r tid = Some info"
  shows "claims_ok (fst (remove_locked tid r)) res"
proof -
  let ?r = "fst (remove_locked tid r)"
  note cl = claims_remove_locked [OF assms(1,3)]
  have mine: "(tid, ti_kind info) \<in> claims r res"
    using assms(3) by (auto simp: claims_def)
  have fields: "used_ports ?r = used_ports r - {p. ti_kind info = KTcp p}"
    "used_labels ?r = used_labels r - {l. ti_kind info = KHttp l}"
    "port_pool ?r = port_pool r" "next_id ?r = next_id r"
    using assms(3) by (simp_all add: remove_locked_eq split: RegisteredKind.split)
  have uniq: "\<forall>a b k. (a, k) \<in> claims r res \<longrightarrow> (b, k) \<in> claims r res \<longrightarrow> a = b"
    using assms(2) unfolding claims_ok_def by blast
  have "{p. \<exists>a. (a, KTcp p) \<in> claims ?r res} = used_ports ?r"
    "{l. \<exists>a. (a, KHttp l) \<in> claims ?r res} = used_labels ?r"
    using assms(2) holders_minus [OF uniq mine] by (simp_all only: cl fields claims_ok_def)
  moreover have "\<forall>a b k. (a, k) \<in> claims ?r res \<longrightarrow> (b, k) \<in> claims ?r res \<longrightarrow> a = b"
    using uniq unfolding cl by blast
  moreover have "used_ports ?r \<subseteq> set (range_inclusive (port_pool ?r))"
    using assms(2) unfolding claims_ok_def fields by blast
  moreover have "\<forall>a k. (a, k) \<in> claims ?r res \<longrightarrow> a < next_id ?r"
    using assms(2) unfolding claims_ok_def fields cl by blast
  ultimately show ?thesis unfolding claims_ok_def by simp
qed

lemma registry_inv_remove_locked:
  assumes "registry_inv r res"
  shows "registry_inv (fst (remove_locked tid r)) res"
  using assms keys_ok_remove_locked routes_ok_remove_locked claims_ok_remove_locked
  by (cases "tunnel r tid") (simp_all add: registry_inv_def remove_locked_eq)

lemma registry_inv_remove_ids: "registry_inv r res \<Longrightarrow> registry_inv (fst (remove_ids ids r)) res"
  by (induction ids arbitrary: r) (simp_all add: case_prod_beta Let_def registry_inv_remove_locked)

lemma dangle_ids_Cons:
  "dangle_ids e (tid # ids) r =
    (case tunnel r tid of
       None \<Rightarrow> dangle_ids e ids r
     | Some info \<Rightarrow>
         if is_dangling (ti_state info) then dangle_ids e ids r
         else let (r', as) = dangle_ids e ids
                (r\<lparr>tunnels := AList.update tid (info\<lparr>ti_state := Dangling e\<rparr>) (tunnels r)\<rparr>)
           in (r', abort_of (ti_state info) @ as))"
  by (simp add: tunnel_def)

declare dangle_ids.simps(2) [simp del]

lemma registry_inv_set_state:
  "registry_inv r res \<Longrightarrow> tunnel r tid = Some info \<Longrightarrow>
    registry_inv (r\<lparr>tunnels := AList.update tid (info\<lparr>ti_state := st\<rparr>) (tunnels r)\<rparr>) res"
  by (rule registry_inv_update_same) simp_all

lemma registry_inv_dangle_ids: "registry_inv r res \<Longrightarrow> registry_inv (fst (dangle_ids e ids r)) res"
proof (induction ids arbitrary: r)
  case (Cons tid ids)
  then show ?case
    by (simp add: dangle_ids_Cons case_prod_beta Let_def registry_inv_set_state split: option.split)
qed simp

lemma registry_inv_try_resume:
  "registry_inv r res \<Longrightarrow> registry_inv (snd (try_resume l sid pk c r)) res"
  by (simp add: try_resume_def tunnel_def [symmetric] Let_def registry_inv_set_state
      split: option.split RegisteredKind.split)

lemma registry_inv_set_tcp_abort:
  "registry_inv r res \<Longrightarrow> registry_inv (set_tcp_abort tid a r) res"
  by (simp add: set_tcp_abort_def tunnel_def [symmetric] registry_inv_set_state
      split: option.split TunnelState.split)

lemma pick_free_port_Some:
  assumes "pick_free_port pool used allow = Some p"
  shows "p \<in> set (range_inclusive pool)" "p \<notin> used" "allow = Some l \<Longrightarrow> p \<in> set l"
  using find_Some_iff' [OF assms [unfolded pick_free_port_def]] by (auto split: if_splits)

lemma sorted_range_inclusive: "sorted (range_inclusive pool)"
proof -
  have "sorted (map (word_of_nat :: nat \<Rightarrow> u16) [m ..< n])" if "n \<le> 2 ^ 16" for m n
    using that by (induction n) (auto simp: sorted_append word_le_nat_alt unat_of_nat)
  moreover have "Suc (unat (snd pool)) \<le> 2 ^ 16"
    using unsigned_less [of "snd pool"] by (simp add: Suc_le_eq)
  ultimately show ?thesis unfolding range_inclusive_def by blast
qed

text \<open>A reservation: the new id is below the next one, its port or label was free.\<close>

lemma registry_inv_reserve:
  assumes inv: "registry_inv r res" and wrap: "next_id r \<noteq> - 1"
    and r': "r' = r\<lparr>used_ports := used_ports r \<union> {p. k = KTcp p}, used_labels := used_labels r \<union> {l. k = KHttp l},
               next_id := next_id r + 1\<rparr>"
    and free: "\<forall>p. k = KTcp p \<longrightarrow> p \<notin> used_ports r \<and> p \<in> set (range_inclusive (port_pool r))"
      "\<forall>l. k = KHttp l \<longrightarrow> l \<notin> used_labels r"
  shows "registry_inv r' ((next_id r, k) # res)"
proof -
  have tun: "tunnel r' = tunnel r" by (simp add: r')
  have cl: "claims r' ((next_id r, k) # res) = insert (next_id r, k) (claims r res)"
    by (simp add: claims_def tun)
  have old: "claims_ok r res" and keys: "keys_ok r res" using inv by (simp_all add: registry_inv_def)
  have below: "\<forall>a k. (a, k) \<in> claims r res \<longrightarrow> a < next_id r"
    using old by (simp add: claims_ok_def)
  have newk: "(a, k) \<notin> claims r res" for a
    using old free by (cases k) (auto simp: claims_ok_def)
  have nxt: "next_id r < next_id r'"
    using word_less_plus_one [OF wrap] by (simp add: r')
  have "keys_ok r' ((next_id r, k) # res)"
  proof -
    have "tunnel r tid = Some info \<Longrightarrow> (tid, ti_kind info) \<in> claims r res" for tid info
      by (auto simp: claims_def)
    moreover have "(a, j) \<in> set res \<Longrightarrow> (a, j) \<in> claims r res" for a j
      by (simp add: claims_def)
    ultimately show ?thesis
      using keys below by (fastforce simp: keys_ok_def tun r')
  qed
  moreover have "routes_ok r'"
    using inv by (simp add: registry_inv_def routes_ok_def tun) (simp add: r')
  moreover have "claims_ok r' ((next_id r, k) # res)"
    unfolding claims_ok_def cl
  proof (intro conjI)
    show "\<forall>a b j. (a, j) \<in> insert (next_id r, k) (claims r res) \<longrightarrow>
            (b, j) \<in> insert (next_id r, k) (claims r res) \<longrightarrow> a = b"
      using old newk unfolding claims_ok_def by blast
    show "used_ports r' = {p. \<exists>a. (a, KTcp p) \<in> insert (next_id r, k) (claims r res)}"
      using old unfolding claims_ok_def by (auto simp: r')
    show "used_labels r' = {l. \<exists>a. (a, KHttp l) \<in> insert (next_id r, k) (claims r res)}"
      using old unfolding claims_ok_def by (auto simp: r')
    show "used_ports r' \<subseteq> set (range_inclusive (port_pool r'))"
      using old free(1) unfolding claims_ok_def by (auto simp: r')
    show "\<forall>a j. (a, j) \<in> insert (next_id r, k) (claims r res) \<longrightarrow> a < next_id r'"
      using below nxt by (auto intro: less_trans)
  qed
  ultimately show ?thesis by (simp add: registry_inv_def)
qed

lemma registry_inv_allocate_tcp:
  assumes "registry_inv r res" "next_id r \<noteq> - 1" "allocate_tcp allow r = (Inr (tid, port), r')"
  shows "registry_inv r' ((tid, KTcp port) # res)"
proof -
  have p: "pick_free_port (port_pool r) (used_ports r) allow = Some port" and "tid = next_id r"
    and "r' = r\<lparr>used_ports := insert port (used_ports r), next_id := next_id r + 1\<rparr>"
    using assms by (auto simp: allocate_tcp_def fresh_id_def split: option.splits)
  then show ?thesis
    using registry_inv_reserve [OF assms(1,2), of r' "KTcp port"] pick_free_port_Some [OF p] by simp
qed

lemma registry_inv_allocate_http:
  assumes "registry_inv r res" "next_id r \<noteq> - 1" "allocate_http l r = (Inr tid, r')"
  shows "registry_inv r' ((tid, KHttp l) # res)"
proof -
  have "l \<notin> used_labels r" "tid = next_id r"
    and "r' = r\<lparr>used_labels := insert l (used_labels r), next_id := next_id r + 1\<rparr>"
    using assms by (auto simp: allocate_http_def fresh_id_def split: if_splits)
  then show ?thesis
    using registry_inv_reserve [OF assms(1,2), of r' "KHttp l"] by simp
qed

lemma allocate_error_unchanged:
  "allocate_tcp allow r = (Inl e, r') \<Longrightarrow> r' = r"
  "allocate_http l r = (Inl e, r') \<Longrightarrow> r' = r"
  by (auto simp: allocate_tcp_def allocate_http_def fresh_id_def split: option.splits if_splits)

text \<open>What \<^verbatim>\<open>session.rs\<close> passes to \<^verbatim>\<open>insert\<close>: a tunnel for a reservation it holds.\<close>

definition publishable :: "TunnelInfo \<Rightarrow> reservations \<Rightarrow> bool" where
  "publishable info res \<longleftrightarrow> (ti_id info, ti_kind info) \<in> set res \<and>
     (ti_tcp_listener info \<noteq> None \<longleftrightarrow> (\<exists>p. ti_kind info = KTcp p))"

lemma remove1_reservation:
  assumes "distinct (map fst res)" "(t, k) \<in> set res"
  shows "set (remove1 (t, k) res) = set res - {(t, k)}"
    and "t \<notin> fst ` set (remove1 (t, k) res)" "distinct (map fst (remove1 (t, k) res))"
  using assms by (induction res) (auto simp: image_iff)

lemma registry_insert_fields:
  "tunnels (registry_insert info r) = AList.update (ti_id info) info (tunnels r)"
  "tunnel (registry_insert info r) = (tunnel r)(ti_id info \<mapsto> info)"
  "used_ports (registry_insert info r) = used_ports r"
  "used_labels (registry_insert info r) = used_labels r"
  "port_pool (registry_insert info r) = port_pool r"
  "next_id (registry_insert info r) = next_id r"
  "labels (registry_insert info r) =
     (case ti_kind info of KHttp l \<Rightarrow> (labels r)(l \<mapsto> ti_id info) | KTcp p \<Rightarrow> labels r)"
  by (simp_all add: registry_insert_def Let_def tunnel_def AList.update_conv' split: RegisteredKind.split)

lemma keys_ok_insert:
  assumes "keys_ok r res" "set res' \<subseteq> set res" "ti_id info \<notin> fst ` set res'" "distinct (map fst res')"
    and "ti_tcp_listener info \<noteq> None \<longleftrightarrow> (\<exists>p. ti_kind info = KTcp p)"
  shows "keys_ok (registry_insert info r) res'"
proof -
  have "tid \<notin> fst ` set res'" if "tunnel r tid = Some i" for tid i
    using assms(1,2) that unfolding keys_ok_def by blast
  with assms show ?thesis
    by (simp add: keys_ok_def registry_insert_fields AList.distinct_update)
qed

lemma registry_inv_insert:
  assumes inv: "registry_inv r res" and pub: "publishable info res"
  shows "registry_inv (registry_insert info r) (remove1 (ti_id info, ti_kind info) res)"
proof -
  let ?t = "ti_id info" and ?k = "ti_kind info" and ?r = "registry_insert info r"
  let ?res = "remove1 (?t, ?k) res"
  have keys: "keys_ok r res" and old: "claims_ok r res" and mem: "(?t, ?k) \<in> set res"
    using inv pub by (simp_all add: registry_inv_def publishable_def)
  have dist: "distinct (map fst res)" using keys by (simp add: keys_ok_def)
  have fresh: "tunnel r ?t = None"
    using keys mem by (cases "tunnel r ?t") (force simp: keys_ok_def)+
  have res: "set ?res = set res - {(?t, ?k)}" "?t \<notin> fst ` set ?res" "distinct (map fst ?res)"
    using remove1_reservation [OF dist mem] by auto
  have cl: "claims ?r ?res = claims r res"
    using fresh mem by (auto simp: claims_def res(1) registry_insert_fields split: if_splits)
  have "keys_ok ?r ?res"
    by (rule keys_ok_insert [OF keys _ res(2,3)]) (use pub res(1) in \<open>auto simp: publishable_def\<close>)
  moreover have "claims_ok ?r ?res"
    using old unfolding claims_ok_def cl registry_insert_fields .
  moreover have "routes_ok ?r"
  proof -
    have free: "ti_kind i \<noteq> ?k" if "tunnel r t = Some i" for t i
    proof
      assume "ti_kind i = ?k"
      then have "(t, ?k) \<in> claims r res" "(?t, ?k) \<in> claims r res" using that mem by (auto simp: claims_def)
      then have "t = ?t" using old unfolding claims_ok_def by blast
      with that fresh show False by simp
    qed
    have rt: "labels r l = Some t \<longleftrightarrow> (\<exists>i. tunnel r t = Some i \<and> ti_kind i = KHttp l)" for l t
      using inv by (simp add: registry_inv_def routes_ok_def)
    have "(labels ?r l = Some t) = (\<exists>i. tunnel ?r t = Some i \<and> ti_kind i = KHttp l)" for l t
      using fresh free [of t]
      by (cases "t = ?t"; cases ?k) (auto simp: registry_insert_fields rt)
    then show ?thesis unfolding routes_ok_def by blast
  qed
  ultimately show ?thesis by (simp add: registry_inv_def)
qed

section \<open>Interleaved sessions\<close>

text \<open>
  One atomic registry call of some session, of the reaper or of the admin API. An
  allocation step is taken while the id counter has not reached its largest value.
\<close>

inductive registry_step :: "TunnelRegistry \<times> reservations \<Rightarrow> TunnelRegistry \<times> reservations \<Rightarrow> bool" where
  step_allocate_tcp:
    "next_id r \<noteq> - 1 \<Longrightarrow> allocate_tcp allow r = (Inr (tid, port), r') \<Longrightarrow>
       registry_step (r, res) (r', (tid, KTcp port) # res)"
| step_allocate_http:
    "next_id r \<noteq> - 1 \<Longrightarrow> allocate_http label r = (Inr tid, r') \<Longrightarrow>
       registry_step (r, res) (r', (tid, KHttp label) # res)"
| step_insert:
    "publishable info res \<Longrightarrow>
       registry_step (r, res) (registry_insert info r, remove1 (ti_id info, ti_kind info) res)"
| step_remove: "registry_remove tid r = (r', as) \<Longrightarrow> registry_step (r, res) (r', res)"
| step_remove_all: "remove_all_owned_by owner r = (r', as) \<Longrightarrow> registry_step (r, res) (r', res)"
| step_mark_dangling: "mark_dangling now owner grace r = (r', as) \<Longrightarrow> registry_step (r, res) (r', res)"
| step_reap: "reap_expired now r = (n, r', as) \<Longrightarrow> registry_step (r, res) (r', res)"
| step_resume: "try_resume label sid pk c r = (out, r') \<Longrightarrow> registry_step (r, res) (r', res)"
| step_set_abort: "registry_step (r, res) (set_tcp_abort tid a r, res)"

inductive_cases registry_stepE: "registry_step s t"

interpretation registry_sys: invariant_system "\<lambda>s. \<exists>pool. s = (registry_new pool, [])" registry_step
  "\<lambda>(r, res). registry_inv r res"
proof
  show "\<exists>pool. s = (registry_new pool, []) \<Longrightarrow> case s of (r, res) \<Rightarrow> registry_inv r res" for s
    by (auto simp: registry_inv_new)
  show "registry_step s t \<Longrightarrow> case s of (r, res) \<Rightarrow> registry_inv r res \<Longrightarrow> case t of (r, res) \<Rightarrow> registry_inv r res" for s t
  proof (induction rule: registry_step.induct)
    case (step_allocate_tcp r allow tid port r' res)
    then show ?case by (simp add: registry_inv_allocate_tcp)
  next
    case (step_allocate_http r label tid r' res)
    then show ?case by (simp add: registry_inv_allocate_http)
  next
    case (step_insert info res r)
    then show ?case by (simp add: registry_inv_insert)
  next
    case (step_remove tid r r' as res)
    then show ?case using registry_inv_remove_locked [of r res tid] by (simp add: registry_remove_def)
  next
    case (step_remove_all owner r r' as res)
    then show ?case using registry_inv_remove_ids [of r res "ids_owned_by owner r"]
      by (simp add: remove_all_owned_by_def)
  next
    case (step_mark_dangling now owner grace r r' as res)
    then show ?case using registry_inv_dangle_ids [of r res "now + grace" "ids_owned_by owner r"]
      by (simp add: mark_dangling_def)
  next
    case (step_reap now r n r' as res)
    then show ?case using registry_inv_remove_ids [of r res "expired_ids now r"]
      by (simp add: reap_expired_def Let_def)
  next
    case (step_resume label sid pk c r out r' res)
    then show ?case using registry_inv_try_resume [of r res label sid pk c] by simp
  next
    case (step_set_abort r res tid a)
    then show ?case by (simp add: registry_inv_set_tcp_abort)
  qed
qed

section \<open>Behaviour of the operations\<close>

lemma tunnel_remove_ids: "tunnel (fst (remove_ids ids r)) tid = (if tid \<in> set ids then None else tunnel r tid)"
  by (induction ids arbitrary: r) (auto simp: case_prod_beta Let_def tunnel_remove_locked)

lemma mem_tunnels_iff:
  "keys_ok r res \<Longrightarrow> (tid, info) \<in> set (tunnels r) \<longleftrightarrow> tunnel r tid = Some info"
  by (simp add: tunnel_def keys_ok_def)

lemma ids_owned_by_iff:
  assumes "registry_inv r res"
  shows "tid \<in> set (ids_owned_by owner r) \<longleftrightarrow> (\<exists>info. tunnel r tid = Some info \<and> ti_owner info = owner)"
  using assms by (force simp: ids_owned_by_def registry_inv_def mem_tunnels_iff)

lemma expired_ids_iff:
  assumes "registry_inv r res"
  shows "tid \<in> set (expired_ids now r) \<longleftrightarrow>
    (\<exists>info e. tunnel r tid = Some info \<and> ti_state info = Dangling e \<and> e \<le> now)"
proof -
  have case_iff: "(case st of Dangling e \<Rightarrow> e \<le> now | Live c a \<Rightarrow> False) \<longleftrightarrow> (\<exists>e. st = Dangling e \<and> e \<le> now)" for st
    by (cases st) auto
  show ?thesis
    using assms unfolding expired_ids_def case_iff
    by (force simp: registry_inv_def mem_tunnels_iff)
qed

lemma tunnel_dangle_ids:
  "tunnel (fst (dangle_ids e ids r)) tid =
    (case tunnel r tid of
       None \<Rightarrow> None
     | Some info \<Rightarrow>
         Some (if tid \<in> set ids \<and> \<not> is_dangling (ti_state info) then info\<lparr>ti_state := Dangling e\<rparr> else info))"
  by (induction ids arbitrary: r)
    (auto simp: dangle_ids_Cons case_prod_beta Let_def split: option.split)


lemma resume_candidate_cases:
  assumes "registry_inv r res" "resume_candidate label sid r = Some tid"
  shows "\<exists>info. tunnel r tid = Some info \<and>
    (ti_kind info = KHttp label \<or>
     ti_session_id info = sid \<and> is_dangling (ti_state info) \<and> (\<exists>p. ti_kind info = KTcp p))"
proof (cases "labels r label")
  case None
  then obtain info where "(tid, info) \<in> set (tunnels r)"
    "ti_session_id info = sid \<and> is_dangling (ti_state info) \<and> (\<exists>p. ti_kind info = KTcp p)"
    using assms(2) find_Some_iff' by (fastforce simp: resume_candidate_def)
  with assms(1) show ?thesis by (auto simp: registry_inv_def mem_tunnels_iff)
next
  case (Some t)
  with assms show ?thesis by (auto simp: resume_candidate_def registry_inv_def routes_ok_def)
qed

lemma listener_iff:
  "registry_inv r res \<Longrightarrow> tunnel r tid = Some info \<Longrightarrow> ti_kind info = KTcp p \<Longrightarrow> \<exists>l. ti_tcp_listener info = Some l"
  by (auto simp: registry_inv_def keys_ok_def)

text \<open>What a resume hands back for a tunnel of a given kind.\<close>

definition resumed_of :: "TunnelInfo \<Rightarrow> ResumedInfo \<Rightarrow> bool" where
  "resumed_of info x \<longleftrightarrow>
     (case x of RHttp l \<Rightarrow> ti_kind info = KHttp l
      | RTcp p l \<Rightarrow> ti_kind info = KTcp p \<and> ti_tcp_listener info = Some l)"

lemma try_resume_reattached:
  assumes "try_resume label sid pk c r = (Reattached tid x insp, r')"
  shows "\<exists>info. tunnel r tid = Some info \<and> is_dangling (ti_state info) \<and> ti_session_id info = sid \<and>
    ti_owner info = pk \<and> insp = ti_inspect info \<and> resumed_of info x \<and>
    r' = r\<lparr>tunnels := AList.update tid (info\<lparr>ti_state := Live c None\<rparr>) (tunnels r)\<rparr>"
  using assms
  by (auto simp: try_resume_def tunnel_def resumed_of_def Let_def
      split: option.splits if_splits RegisteredKind.splits)

lemma try_resume_not_reattached:
  assumes "registry_inv r res" "try_resume label sid pk c r = (out, r')" "out = Unknown \<or> out = IdentityMismatch"
  shows "r' = r"
  using assms listener_iff [OF assms(1)]
  by (auto simp: try_resume_def tunnel_def Let_def split: option.splits if_splits RegisteredKind.splits)
    (metis option.distinct(1))


definition owner_aborts :: "(TunnelId \<times> TunnelInfo) list \<Rightarrow> PubKey \<Rightarrow> AbortHandle list" where
  "owner_aborts ts owner =
     concat (map (\<lambda>(tid, info). abort_of (ti_state info)) (filter (\<lambda>(tid, info). ti_owner info = owner) ts))"

definition aborts_at :: "TunnelRegistry \<Rightarrow> TunnelId \<Rightarrow> AbortHandle list" where
  "aborts_at r tid = (case tunnel r tid of None \<Rightarrow> [] | Some info \<Rightarrow> abort_of (ti_state info))"

lemma aborts_at_remove_locked: "tid \<noteq> t \<Longrightarrow> aborts_at (fst (remove_locked t r)) tid = aborts_at r tid"
  by (simp add: aborts_at_def tunnel_remove_locked)

lemma snd_remove_ids: "distinct ids \<Longrightarrow> snd (remove_ids ids r) = concat (map (aborts_at r) ids)"
proof (induction ids arbitrary: r)
  case (Cons t ids)
  have "snd (remove_locked t r) = aborts_at r t"
    by (simp add: remove_locked_eq aborts_at_def split: option.split)
  moreover have "map (aborts_at (fst (remove_locked t r))) ids = map (aborts_at r) ids"
    using Cons.prems by (intro map_cong) (auto intro: aborts_at_remove_locked)
  ultimately show ?case
    using Cons by (simp add: case_prod_beta Let_def cong: map_cong)
qed simp

lemma concat_map_owned:
  assumes "distinct (map fst ts)"
  shows "concat (map (\<lambda>tid. case map_of ts tid of None \<Rightarrow> [] | Some info \<Rightarrow> g info)
           (map fst (filter P ts))) = concat (map (\<lambda>(tid, info). g info) (filter P ts))"
proof -
  have "map (\<lambda>tid. case map_of ts tid of None \<Rightarrow> [] | Some info \<Rightarrow> g info) (map fst (filter P ts))
      = map (\<lambda>(tid, info). g info) (filter P ts)"
    using assms by (auto simp: map_of_eq_Some_iff intro!: map_cong)
  then show ?thesis by (rule arg_cong)
qed

lemma snd_remove_all_owned_by:
  assumes "registry_inv r res"
  shows "snd (remove_all_owned_by owner r) = owner_aborts (tunnels r) owner"
proof -
  have d: "distinct (map fst (tunnels r))" using assms by (simp add: registry_inv_def keys_ok_def)
  then have "distinct (ids_owned_by owner r)"
    unfolding ids_owned_by_def by (rule distinct_map_filter)
  then show ?thesis
    using concat_map_owned [OF d]
    by (simp add: remove_all_owned_by_def snd_remove_ids tunnel_def owner_aborts_def ids_owned_by_def
        aborts_at_def [abs_def])
qed

lemma count_owned_by_0:
  "count_owned_by owner r = 0 \<longleftrightarrow> (\<forall>(tid, info) \<in> set (tunnels r). ti_owner info \<noteq> owner)"
  by (auto simp: count_owned_by_def filter_empty_conv)

lemma tunnel_remove_all_owned_by:
  assumes "registry_inv r res"
  shows "tunnel (fst (remove_all_owned_by owner r)) tid =
    (case tunnel r tid of None \<Rightarrow> None | Some info \<Rightarrow> if ti_owner info = owner then None else Some info)"
  using ids_owned_by_iff [OF assms, of tid owner]
  by (auto simp: remove_all_owned_by_def tunnel_remove_ids split: option.split)

lemma tunnel_mark_dangling:
  assumes "registry_inv r res"
  shows "tunnel (fst (mark_dangling now owner grace r)) tid =
    (case tunnel r tid of
       None \<Rightarrow> None
     | Some info \<Rightarrow>
         Some (if ti_owner info = owner \<and> \<not> is_dangling (ti_state info)
               then info\<lparr>ti_state := Dangling (now + grace)\<rparr> else info))"
  using ids_owned_by_iff [OF assms, of tid owner]
  by (auto simp: mark_dangling_def tunnel_dangle_ids split: option.split)

lemma tunnel_reap_expired:
  assumes "registry_inv r res"
  shows "tunnel (fst (snd (reap_expired now r))) tid =
    (case tunnel r tid of
       None \<Rightarrow> None
     | Some info \<Rightarrow> if \<exists>e. ti_state info = Dangling e \<and> e \<le> now then None else Some info)"
  using expired_ids_iff [OF assms, of tid now]
  by (auto simp: reap_expired_def Let_def tunnel_remove_ids split: option.split)

lemma routes_iff:
  "registry_inv r res \<Longrightarrow> labels r l = Some t \<longleftrightarrow> (\<exists>i. tunnel r t = Some i \<and> ti_kind i = KHttp l)"
  by (simp add: registry_inv_def routes_ok_def)

text \<open>A label with no route: neither a live nor a dangling tunnel serves it.\<close>

lemma route_None_iff:
  "registry_inv r res \<Longrightarrow> labels r l = None \<longleftrightarrow> (\<forall>t i. tunnel r t = Some i \<longrightarrow> ti_kind i \<noteq> KHttp l)"
  using routes_iff [of r res l] by (metis not_None_eq)

lemma try_resume_http:
  assumes "registry_inv r res" "tunnel r tid = Some info" "ti_kind info = KHttp label"
    and "ti_state info = Dangling e" "ti_session_id info = sid" "ti_owner info = pk"
  shows "fst (try_resume label sid pk c r) = Reattached tid (RHttp label) (ti_inspect info)"
proof -
  have "labels r label = Some tid" using assms by (simp add: routes_iff)
  then show ?thesis
    using assms by (simp add: try_resume_def resume_candidate_def tunnel_def Let_def)
qed

section \<open>A concrete registry\<close>

text \<open>One published HTTP tunnel, reached by \<^verbatim>\<open>allocate_http\<close> and \<^verbatim>\<open>insert\<close>.\<close>

definition demo_info :: TunnelInfo where
  "demo_info = \<lparr>ti_id = 1, ti_owner = [7], ti_session_id = [9], ti_kind = KHttp ''demo'',
     ti_state = Live 5 None, ti_tcp_listener = None, ti_rate = 0, ti_inspect = True\<rparr>"

definition demo_registry :: TunnelRegistry where
  "demo_registry = registry_insert demo_info (snd (allocate_http ''demo'' (registry_new (100, 200))))"

lemma demo_steps: "registry_step\<^sup>*\<^sup>* (registry_new (100, 200), []) (demo_registry, [])"
proof -
  let ?r1 = "snd (allocate_http ''demo'' (registry_new (100, 200)))"
  have a: "allocate_http ''demo'' (registry_new (100, 200)) = (Inr 1, ?r1)"
    by (simp add: allocate_http_def registry_new_def fresh_id_def)
  have "registry_step (registry_new (100, 200), []) (?r1, [(1, KHttp ''demo'')])"
    by (rule step_allocate_http [OF _ a]) (simp add: registry_new_def)
  moreover have "registry_step (?r1, [(1, KHttp ''demo'')]) (demo_registry, [])"
    using step_insert [of demo_info "[(1, KHttp ''demo'')]" ?r1]
    by (simp add: publishable_def demo_registry_def) (simp add: demo_info_def)
  ultimately show ?thesis by (meson converse_rtranclp_into_rtranclp rtranclp.rtrancl_refl)
qed

lemma demo_inv: "registry_inv demo_registry []"
  using registry_sys.reachable_inv [OF _ demo_steps] by blast

lemma demo_tunnel: "tunnel demo_registry 1 = Some demo_info"
  by (simp add: demo_registry_def registry_insert_fields) (simp add: demo_info_def)

section \<open>Properties\<close>

text \<open>
  C3: registry consistency under interleaving. In every state reached by any
  sequence of registry calls of concurrent sessions, the reaper and the admin API,
  no two tunnels share a public port or label, the route table maps a label to a
  tunnel exactly when that tunnel serves the label, the reserved ports and labels
  are exactly those of the published tunnels and of the pending reservations, every
  reserved port lies in the pool, and ids are below the next id.
\<close>

theorem registry_reachable_consistent:
  assumes "registry_step\<^sup>*\<^sup>* (registry_new pool, []) (r, res)"
  shows "(\<forall>a b i j. tunnel r a = Some i \<and> tunnel r b = Some j \<and> ti_kind i = ti_kind j \<longrightarrow> a = b) \<and>
    (\<forall>l t. labels r l = Some t \<longleftrightarrow> (\<exists>i. tunnel r t = Some i \<and> ti_kind i = KHttp l)) \<and>
    used_ports r = {p. \<exists>a. (a, KTcp p) \<in> claims r res} \<and>
    used_labels r = {l. \<exists>a. (a, KHttp l) \<in> claims r res} \<and>
    used_ports r \<subseteq> set (range_inclusive (port_pool r)) \<and>
    (\<forall>a k. (a, k) \<in> claims r res \<longrightarrow> a < next_id r)"
proof -
  have inv: "registry_inv r res"
    using registry_sys.reachable_inv [OF _ assms] by blast
  have "a = b" if "tunnel r a = Some i" "tunnel r b = Some j" "ti_kind i = ti_kind j" for a b i j
  proof -
    have "(a, ti_kind i) \<in> claims r res" "(b, ti_kind i) \<in> claims r res"
      using that by (auto simp: claims_def)
    then show ?thesis using inv unfolding registry_inv_def claims_ok_def by blast
  qed
  then show ?thesis
    using inv routes_iff [OF inv] unfolding registry_inv_def claims_ok_def by blast
qed

theorem registry_reachable_consistent_witness:
  "used_labels demo_registry = {l. \<exists>a. (a, KHttp l) \<in> claims demo_registry []}"
  using registry_reachable_consistent [OF demo_steps] by blast



text \<open>
  resume safety. A resume succeeds only for a dangling tunnel with the same
  session id and the same owner key, changes nothing but that tunnel's state, and
  hands back that tunnel's own label, or its port and parked listener; every other
  outcome leaves the registry unchanged.
\<close>

theorem try_resume_safe:
  assumes "registry_inv r res" "try_resume label sid pk c r = (out, r')"
  shows "case out of
     Reattached tid x insp \<Rightarrow>
       (\<exists>info. tunnel r tid = Some info \<and> is_dangling (ti_state info) \<and> ti_session_id info = sid \<and>
          ti_owner info = pk \<and> insp = ti_inspect info \<and> resumed_of info x \<and>
          tunnel r' = (tunnel r)(tid \<mapsto> info\<lparr>ti_state := Live c None\<rparr>) \<and>
          labels r' = labels r \<and> used_ports r' = used_ports r \<and> used_labels r' = used_labels r)
   | Unknown \<Rightarrow> r' = r
   | IdentityMismatch \<Rightarrow> r' = r"
proof (cases out)
  case (Reattached tid x insp)
  then show ?thesis using try_resume_reattached [of label sid pk c r tid x insp r'] assms(2) by fastforce
qed (use try_resume_not_reattached [OF assms] in auto)

theorem try_resume_safe_witness:
  "case fst (try_resume ''demo'' [9] [7] 6 demo_registry) of
     Reattached tid x insp \<Rightarrow> False | Unknown \<Rightarrow> snd (try_resume ''demo'' [9] [7] 6 demo_registry) = demo_registry
   | IdentityMismatch \<Rightarrow> False"
proof -
  have "fst (try_resume ''demo'' [9] [7] 6 demo_registry) = Unknown"
    using demo_tunnel routes_iff [OF demo_inv, of "''demo''" 1]
    by (simp add: try_resume_def resume_candidate_def tunnel_def demo_info_def)
  with try_resume_safe [OF demo_inv, where label = "''demo''" and sid = "[9]" and pk = "[7]" and c = 6,
      OF surjective_pairing]
  show ?thesis by simp
qed

text \<open>
  \<^verbatim>\<open>remove_all_owned_by\<close> (Bye, shutdown and key revocation) removes every tunnel
  of the owner and no other, aborts exactly the owner's running listener tasks, leaves
  no route to any removed tunnel, and no lease of the owner can be resumed any more.
\<close>

theorem remove_all_owned_by_complete:
  assumes "registry_inv r res" "remove_all_owned_by owner r = (r', as)"
  shows "count_owned_by owner r' = 0 \<and>
    (\<forall>tid info. tunnel r' tid = Some info \<longleftrightarrow> tunnel r tid = Some info \<and> ti_owner info \<noteq> owner) \<and>
    as = owner_aborts (tunnels r) owner \<and>
    (\<forall>l t. labels r' l = Some t \<longrightarrow> (\<exists>i. tunnel r t = Some i \<and> ti_owner i \<noteq> owner)) \<and>
    (\<forall>label sid c tid x insp. fst (try_resume label sid owner c r') \<noteq> Reattached tid x insp)"
proof -
  have r': "r' = fst (remove_all_owned_by owner r)" using assms(2) by simp
  have inv': "registry_inv r' res"
    using registry_inv_remove_ids [OF assms(1)] by (simp add: r' remove_all_owned_by_def)
  have tun: "tunnel r' tid = Some info \<longleftrightarrow> tunnel r tid = Some info \<and> ti_owner info \<noteq> owner" for tid info
    by (auto simp: r' tunnel_remove_all_owned_by [OF assms(1)] split: option.splits if_splits)
  have "fst (try_resume label sid owner c r') \<noteq> Reattached tid x insp" for label sid c tid x insp
  proof
    assume "fst (try_resume label sid owner c r') = Reattached tid x insp"
    then have "try_resume label sid owner c r' = (Reattached tid x insp, snd (try_resume label sid owner c r'))"
      by (metis prod.collapse)
    from try_resume_reattached [OF this] tun show False by auto
  qed
  moreover have "count_owned_by owner r' = 0"
    using inv' tun by (auto simp: count_owned_by_0 registry_inv_def mem_tunnels_iff)
  moreover have "as = owner_aborts (tunnels r) owner"
    using snd_remove_all_owned_by [OF assms(1), of owner] assms(2) by simp
  moreover have "labels r' l = Some t \<Longrightarrow> \<exists>i. tunnel r t = Some i \<and> ti_owner i \<noteq> owner" for l t
    using routes_iff [OF inv'] tun by blast
  ultimately show ?thesis using tun by blast
qed

theorem remove_all_owned_by_complete_witness:
  "count_owned_by [7] (fst (remove_all_owned_by [7] demo_registry)) = 0"
  using remove_all_owned_by_complete [OF demo_inv surjective_pairing] by blast

text \<open>
  \<^verbatim>\<open>is_valid_label\<close> accepts exactly the label grammar
  \<^verbatim>\<open>[a-z0-9]([a-z0-9-]{0,61}[a-z0-9])?\<close> except the reserved label \<^verbatim>\<open>admin\<close>.
\<close>

theorem is_valid_label_grammar:
  "is_valid_label s \<longleftrightarrow> s \<noteq> ''admin'' \<and>
    (\<exists>a. label_alnum a \<and>
      (s = [a] \<or>
       (\<exists>mid z. s = a # mid @ [z] \<and> length mid \<le> 61 \<and> label_alnum z \<and>
          list_all (\<lambda>b. label_alnum b \<or> b = CHR ''-'') mid)))"
proof (cases s)
  case (Cons a t)
  show ?thesis
  proof (cases t rule: rev_cases)
    case Nil
    then show ?thesis by (auto simp: is_valid_label_def Cons)
  next
    case (snoc mid z)
    have "length mid + 2 < 3 \<longleftrightarrow> mid = []" by (cases mid) auto
    then show ?thesis
      by (auto simp: is_valid_label_def Cons snoc list_all_iff nth_append)
  qed
qed (simp add: is_valid_label_def)

text \<open>
  \<^verbatim>\<open>allocate_tcp\<close> hands out the first port of the pool that is neither in use nor
  outside the key's allowlist, with the current id, and fails exactly when there is none.
\<close>

theorem allocate_tcp_first_free:
  "case allocate_tcp allow r of
     (Inl e, r') \<Rightarrow> e = PortPoolExhausted \<and> r' = r \<and>
        (\<forall>p \<in> set (range_inclusive (port_pool r)) - used_ports r. \<exists>l. allow = Some l \<and> p \<notin> set l)
   | (Inr (tid, port), r') \<Rightarrow>
        tid = next_id r \<and> port \<in> set (range_inclusive (port_pool r)) - used_ports r \<and>
        (\<forall>l. allow = Some l \<longrightarrow> port \<in> set l) \<and> used_ports r' = insert port (used_ports r) \<and>
        (\<forall>q \<in> set (range_inclusive (port_pool r)) - used_ports r.
            (\<forall>l. allow = Some l \<longrightarrow> q \<in> set l) \<longrightarrow> port \<le> q)"
proof (cases "pick_free_port (port_pool r) (used_ports r) allow")
  case None
  then have "\<forall>p \<in> set (range_inclusive (port_pool r)) - used_ports r. \<exists>l. allow = Some l \<and> p \<notin> set l"
    by (auto simp: pick_free_port_def find_None_iff split: option.splits)
  with None show ?thesis by (simp add: allocate_tcp_def)
next
  case (Some port)
  then have "\<forall>q \<in> set (range_inclusive (port_pool r)) - used_ports r.
      (\<forall>l. allow = Some l \<longrightarrow> q \<in> set l) \<longrightarrow> port \<le> q"
    using find_sorted_le [OF sorted_range_inclusive Some [unfolded pick_free_port_def]]
    by (auto split: option.splits)
  with Some pick_free_port_Some [OF Some] show ?thesis by (simp add: allocate_tcp_def fresh_id_def)
qed

theorem allocate_tcp_first_free_witness:
  "fst (allocate_tcp (Some [102]) (registry_new (100, 200))) = Inr (1, 102)"
proof -
  have "range_inclusive (100, 200) = (map word_of_nat [100 ..< 201] :: u16 list)"
    by (simp add: range_inclusive_def)
  then have "102 \<in> set (range_inclusive (port_pool (registry_new (100, 200))))"
    by (simp add: registry_new_def image_iff)
  then show ?thesis
    using allocate_tcp_first_free [where allow = "Some [102]" and r = "registry_new (100, 200)"]
    by (auto simp: registry_new_def split: prod.splits sum.splits)
qed
end
