(* ===== verification/Stream_IO.thy ===== *)
theory Stream_IO
  imports Proto_Wire
begin

text \<open>
  Byte-stream reading. \<^verbatim>\<open>byte_source\<close> is the contract of an \<^verbatim>\<open>AsyncRead\<close>: the bytes
  not yet read, whether the peer has ended the stream, and one \<^verbatim>\<open>poll_read\<close>. On top
  of it stand \<^verbatim>\<open>read_exact\<close> (\<^verbatim>\<open>conn.rs\<close>), the incremental frame reader (\<^verbatim>\<open>frame.rs\<close>)
  and the replaying wrapper of the HTTPS dispatcher (\<^verbatim>\<open>domain/replay.rs\<close>), whose
  inner stream is a TCP socket. A pending read is a future that has not completed.
\<close>

section \<open>Poll results and errors\<close>

datatype 'a Poll = Ready 'a | Pending

datatype TransportError = UnexpectedEof | Framing FramingError | Io string

section \<open>Reading loops\<close>

function read_exact ::
  "(nat \<Rightarrow> 's \<Rightarrow> bytes Poll \<times> 's) \<Rightarrow> nat \<Rightarrow> 's \<Rightarrow> (TransportError, bytes) result Poll \<times> 's" where
  "read_exact rd n s =
    (if n = 0 then (Ready (Inr []), s)
     else case rd n s of
       (Pending, s') \<Rightarrow> (Pending, s')
     | (Ready b, s') \<Rightarrow>
         if b = [] then (Ready (Inl UnexpectedEof), s')
         else case read_exact rd (n - length b) s' of
           (Ready (Inr rest), s'') \<Rightarrow> (Ready (Inr (b @ rest)), s'')
         | (Ready (Inl e), s'') \<Rightarrow> (Ready (Inl e), s'')
         | (Pending, s'') \<Rightarrow> (Pending, s''))"
  by pat_completeness auto
termination by (relation "measure (\<lambda>(rd, n, s). n)") auto

declare read_exact.simps [simp del]

definition VARINT_MAX_BYTES :: nat where "VARINT_MAX_BYTES = 5"

text \<open>The \<^verbatim>\<open>for\<close> loop of \<^verbatim>\<open>read_varint\<close>, with \<^verbatim>\<open>k\<close> iterations left at index \<^verbatim>\<open>i\<close>.\<close>

fun read_varint_bytes ::
  "(nat \<Rightarrow> 's \<Rightarrow> bytes Poll \<times> 's) \<Rightarrow> nat \<Rightarrow> nat \<Rightarrow> u32 \<Rightarrow> 's \<Rightarrow> (TransportError, u32) result Poll \<times> 's" where
  "read_varint_bytes rd 0 i acc s = (Ready (Inl (Framing BadVarint)), s)"
| "read_varint_bytes rd (Suc k) i acc s =
    (case read_exact rd 1 s of
       (Pending, s') \<Rightarrow> (Pending, s')
     | (Ready (Inl e), s') \<Rightarrow> (Ready (Inl e), s')
     | (Ready (Inr one), s') \<Rightarrow>
        (let byte = one ! 0; bits = ucast (byte AND 0x7F); shift = i * 7
         in if 32 \<le> shift \<or> drop_bit shift (push_bit shift bits) \<noteq> bits
            then (Ready (Inl (Framing BadVarint)), s')
            else let acc = acc OR push_bit shift bits
              in if byte AND 0x80 = 0 then (Ready (Inr acc), s')
                 else read_varint_bytes rd k (i + 1) acc s'))"

definition read_varint ::
  "(nat \<Rightarrow> 's \<Rightarrow> bytes Poll \<times> 's) \<Rightarrow> 's \<Rightarrow> (TransportError, u32) result Poll \<times> 's" where
  "read_varint rd s = read_varint_bytes rd VARINT_MAX_BYTES 0 0 s"

definition read_frame ::
  "(nat \<Rightarrow> 's \<Rightarrow> bytes Poll \<times> 's) \<Rightarrow> (bytes \<Rightarrow> (string, 'a) result) \<Rightarrow> 's
    \<Rightarrow> (TransportError, 'a) result Poll \<times> 's" where
  "read_frame rd de s =
    (case read_varint rd s of
       (Pending, s') \<Rightarrow> (Pending, s')
     | (Ready (Inl e), s') \<Rightarrow> (Ready (Inl e), s')
     | (Ready (Inr w), s') \<Rightarrow>
        (let len = unat w
         in if MAX_FRAME_SIZE < len then (Ready (Inl (Framing (FrameTooLarge len MAX_FRAME_SIZE))), s')
            else case read_exact rd len s' of
              (Pending, s'') \<Rightarrow> (Pending, s'')
            | (Ready (Inl e), s'') \<Rightarrow> (Ready (Inl e), s'')
            | (Ready (Inr buf), s'') \<Rightarrow>
               (case de buf of
                  Inl e \<Rightarrow> (Ready (Inl (Framing (Postcard e))), s'')
                | Inr v \<Rightarrow> (Ready (Inr v), s''))))"

section \<open>Replayed sockets\<close>

text \<open>
  A connected socket as the reader sees it: the segments that have arrived, in
  order, and whether the peer has shut down its side. A read returns bytes of the
  first segment.
\<close>

record TcpStream =
  sock_segments :: "bytes list"
  sock_fin :: bool

fun tcp_poll_read :: "nat \<Rightarrow> TcpStream \<Rightarrow> bytes Poll \<times> TcpStream" where
  "tcp_poll_read n s =
    (case sock_segments s of
       [] \<Rightarrow> ((if sock_fin s then Ready [] else Pending), s)
     | seg # segs \<Rightarrow>
         (Ready (take n seg),
          s\<lparr>sock_segments := (if n < length seg then drop n seg # segs else segs)\<rparr>))"

record 's ReplayStream =
  rs_replay :: bytes
  rs_read_pos :: nat
  rs_inner :: 's

definition ReplayStream_new :: "bytes \<Rightarrow> 's \<Rightarrow> 's ReplayStream" where
  "ReplayStream_new replay inner = \<lparr>rs_replay = replay, rs_read_pos = 0, rs_inner = inner\<rparr>"

definition replay_poll_read ::
  "(nat \<Rightarrow> 's \<Rightarrow> bytes Poll \<times> 's) \<Rightarrow> nat \<Rightarrow> 's ReplayStream \<Rightarrow> bytes Poll \<times> 's ReplayStream" where
  "replay_poll_read rd n s =
    (if rs_read_pos s < length (rs_replay s)
     then let remaining = drop (rs_read_pos s) (rs_replay s); k = min (length remaining) n
       in (Ready (take k remaining), s\<lparr>rs_read_pos := rs_read_pos s + k\<rparr>)
     else let (p, inner) = rd n (rs_inner s) in (p, s\<lparr>rs_inner := inner\<rparr>))"

section \<open>The contract of a byte source\<close>

locale byte_source =
  fixes ok :: "'s \<Rightarrow> bool"
    and unread :: "'s \<Rightarrow> bytes"
    and ended :: "'s \<Rightarrow> bool"
    and rd :: "nat \<Rightarrow> 's \<Rightarrow> bytes Poll \<times> 's"
  assumes rd_ready: "ok s \<Longrightarrow> rd n s = (Ready b, s') \<Longrightarrow>
      unread s = b @ unread s' \<and> length b \<le> n \<and> ok s' \<and> ended s' = ended s"
    and rd_empty: "ok s \<Longrightarrow> 0 < n \<Longrightarrow> rd n s = (Ready [], s') \<Longrightarrow> unread s = [] \<and> ended s"
    and rd_pending: "ok s \<Longrightarrow> 0 < n \<Longrightarrow> rd n s = (Pending, s') \<Longrightarrow> unread s = [] \<and> \<not> ended s"
begin

lemma read_exact_enough:
  "ok s \<Longrightarrow> n \<le> length (unread s) \<Longrightarrow>
    \<exists>s'. read_exact rd n s = (Ready (Inr (take n (unread s))), s') \<and>
         unread s' = drop n (unread s) \<and> ok s' \<and> ended s' = ended s"
proof (induction n arbitrary: s rule: less_induct)
  case (less n)
  show ?case
  proof (cases "n = 0")
    case True
    with less.prems show ?thesis by (simp add: read_exact.simps)
  next
    case False
    obtain p s1 where r: "rd n s = (p, s1)" by (cases "rd n s")
    have "p \<noteq> Pending" using rd_pending [of s n s1] less.prems False r by auto
    then obtain b where b: "p = Ready b" by (cases p) auto
    have b0: "b \<noteq> []" using rd_empty [of s n s1] less.prems False r b by auto
    have law: "unread s = b @ unread s1" "length b \<le> n" "ok s1" "ended s1 = ended s"
      using rd_ready [of s n b s1] less.prems r b by auto
    have "n - length b < n" "n - length b \<le> length (unread s1)"
      using False b0 law less.prems(2) by auto
    from less.IH [OF this(1) law(3) this(2)] show ?thesis
      using r b b0 law False by (auto simp: read_exact.simps [of rd n s])
  qed
qed

lemma read_exact_short:
  "ok s \<Longrightarrow> length (unread s) < n \<Longrightarrow>
    fst (read_exact rd n s) = (if ended s then Ready (Inl UnexpectedEof) else Pending)"
proof (induction n arbitrary: s rule: less_induct)
  case (less n)
  obtain p s1 where r: "rd n s = (p, s1)" by (cases "rd n s")
  show ?case
  proof (cases p)
    case Pending
    then show ?thesis using rd_pending [of s n s1] less.prems r by (simp add: read_exact.simps [of rd n s])
  next
    case (Ready b)
    have law: "unread s = b @ unread s1" "length b \<le> n" "ok s1" "ended s1 = ended s"
      using rd_ready [of s n b s1] less.prems r Ready by auto
    show ?thesis
    proof (cases "b = []")
      case True
      then show ?thesis
        using rd_empty [of s n s1] less.prems r Ready by (simp add: read_exact.simps [of rd n s])
    next
      case False
      then have "n - length b < n" "length (unread s1) < n - length b" using law less.prems(2) by auto
      from less.IH [OF this(1) law(3) this(2)] show ?thesis
        using r Ready False law less.prems(2)
        by (cases "read_exact rd (n - length b) s1")
          (auto simp: read_exact.simps [of rd n s] split: if_splits)
    qed
  qed
qed

lemma read_one:
  assumes "ok s" "unread s = b # bs"
  shows "\<exists>s'. read_exact rd 1 s = (Ready (Inr [b]), s') \<and> unread s' = bs \<and> ok s' \<and> ended s' = ended s"
  using read_exact_enough [OF assms(1), of 1] assms(2) by simp

lemma read_varint_bytes_ok:
  "ok s \<Longrightarrow> i + k = 5 \<Longrightarrow> read_varint_loop i acc (unread s) = Inr (v, n) \<Longrightarrow>
    \<exists>s'. read_varint_bytes rd k i acc s = (Ready (Inr v), s') \<and>
         unread s' = drop (n - i) (unread s) \<and> ok s' \<and> ended s' = ended s"
proof (induction k arbitrary: i acc s)
  case 0
  then show ?case by (cases "unread s") simp_all
next
  case (Suc k)
  then obtain b bs where u: "unread s = b # bs" by (cases "unread s") auto
  obtain s1 where s1: "read_exact rd 1 s = (Ready (Inr [b]), s1)" "unread s1 = bs" "ok s1" "ended s1 = ended s"
    using read_one [OF Suc.prems(1) u] by blast
  show ?case
  proof (cases "b AND 0x80 = 0")
    case True
    then show ?thesis using Suc.prems u s1 by (auto simp: Let_def split: if_splits)
  next
    case False
    let ?acc = "acc OR push_bit (i * 7) (ucast (b AND 0x7F))"
    have step: "read_varint_loop (i + 1) ?acc (unread s1) = Inr (v, n)" "i + 1 + k = 5"
      using Suc.prems False u s1 by (auto simp: Let_def split: if_splits)
    then have "n - i = Suc (n - (i + 1))" using read_varint_loop_mono [OF step(1), of "[]"] by linarith
    then have d: "drop (n - i) (unread s) = drop (n - (i + 1)) (unread s1)" by (simp add: u s1(2))
    from Suc.IH [OF s1(3) step(2,1)] show ?thesis using Suc.prems False u s1 d
      by (auto simp: Let_def split: if_splits)
  qed
qed

lemma read_frame_complete:
  assumes "ok s" "decode_frame de (unread s) = Inr (v, n)"
  shows "\<exists>s'. read_frame rd de s = (Ready (Inr v), s') \<and> unread s' = drop n (unread s) \<and> ok s' \<and> ended s' = ended s"
proof -
  obtain w p where w: "read_varint_u32 (unread s) = Inr (w, p)" "unat w \<le> MAX_FRAME_SIZE" "n = p + unat w"
    "n \<le> length (unread s)" "de (drop p (take n (unread s))) = Inr v"
    using assms(2) by (auto simp: decode_frame_def Let_def split: sum.splits if_splits)
  obtain s1 where s1: "read_varint rd s = (Ready (Inr w), s1)" "unread s1 = drop p (unread s)" "ok s1" "ended s1 = ended s"
    using read_varint_bytes_ok [OF assms(1), of 0 5 0 w p] w(1)
    by (auto simp: read_varint_def read_varint_u32_def VARINT_MAX_BYTES_def)
  have "unat w \<le> length (unread s1)" using w s1 by simp
  from read_exact_enough [OF s1(3) this] show ?thesis
    using w s1 by (auto simp: read_frame_def take_drop add.commute)
qed

end

lemma take_drop_rest: "take n (drop p xs) @ drop (p + n) xs = drop p xs"
  by (metis add.commute append_take_drop_id drop_drop)

text \<open>Wrapping a source in a replayed prefix gives a source again.\<close>

locale replayed_source = byte_source

sublocale replayed_source \<subseteq> replay: byte_source
  "\<lambda>s. rs_read_pos s \<le> length (rs_replay s) \<and> ok (rs_inner s)"
  "\<lambda>s. drop (rs_read_pos s) (rs_replay s) @ unread (rs_inner s)"
  "\<lambda>s. ended (rs_inner s)"
  "replay_poll_read rd"
proof
  fix s s' :: "'a ReplayStream" and n b
  let ?ok = "\<lambda>s. rs_read_pos s \<le> length (rs_replay s) \<and> ok (rs_inner s)"
  show "?ok s \<Longrightarrow> replay_poll_read rd n s = (Ready b, s') \<Longrightarrow>
      drop (rs_read_pos s) (rs_replay s) @ unread (rs_inner s) =
        b @ drop (rs_read_pos s') (rs_replay s') @ unread (rs_inner s') \<and>
      length b \<le> n \<and> ?ok s' \<and> ended (rs_inner s') = ended (rs_inner s)"
    using rd_ready [of "rs_inner s" n b]
    by (auto simp: replay_poll_read_def Let_def min_def take_drop_rest
        simp flip: append_assoc split: if_splits prod.splits)
  show "?ok s \<Longrightarrow> 0 < n \<Longrightarrow> replay_poll_read rd n s = (Ready [], s') \<Longrightarrow>
      drop (rs_read_pos s) (rs_replay s) @ unread (rs_inner s) = [] \<and> ended (rs_inner s)"
    using rd_empty [of "rs_inner s" n]
    by (auto simp: replay_poll_read_def Let_def split: if_splits prod.splits)
  show "?ok s \<Longrightarrow> 0 < n \<Longrightarrow> replay_poll_read rd n s = (Pending, s') \<Longrightarrow>
      drop (rs_read_pos s) (rs_replay s) @ unread (rs_inner s) = [] \<and> \<not> ended (rs_inner s)"
    using rd_pending [of "rs_inner s" n]
    by (auto simp: replay_poll_read_def Let_def split: if_splits prod.splits)
qed

definition tcp_ok :: "TcpStream \<Rightarrow> bool" where
  "tcp_ok s \<longleftrightarrow> [] \<notin> set (sock_segments s)"

interpretation tcp_source: replayed_source tcp_ok "\<lambda>s. concat (sock_segments s)" sock_fin tcp_poll_read
proof
  fix s s' :: TcpStream and n b
  show "tcp_ok s \<Longrightarrow> tcp_poll_read n s = (Ready b, s') \<Longrightarrow>
      concat (sock_segments s) = b @ concat (sock_segments s') \<and> length b \<le> n \<and> tcp_ok s' \<and> sock_fin s' = sock_fin s"
    by (auto simp: tcp_ok_def split: list.splits if_splits)
  show "tcp_ok s \<Longrightarrow> 0 < n \<Longrightarrow> tcp_poll_read n s = (Ready [], s') \<Longrightarrow>
      concat (sock_segments s) = [] \<and> sock_fin s"
    by (auto simp: tcp_ok_def split: list.splits if_splits)
  show "tcp_ok s \<Longrightarrow> 0 < n \<Longrightarrow> tcp_poll_read n s = (Pending, s') \<Longrightarrow>
      concat (sock_segments s) = [] \<and> \<not> sock_fin s"
    by (auto simp: tcp_ok_def split: list.splits if_splits)
qed

section \<open>Properties\<close>

text \<open>
  a \<^verbatim>\<open>ReplayStream\<close> over the peeked bytes and the socket yields the peeked bytes
  followed by the socket's bytes: reading any amount that has arrived returns exactly
  that prefix, and what remains readable is the rest.
\<close>

theorem replay_stream_transparent:
  assumes "tcp_ok sock" "n \<le> length (peeked @ concat (sock_segments sock))"
  shows "\<exists>s'. read_exact (replay_poll_read tcp_poll_read) n (ReplayStream_new peeked sock) =
           (Ready (Inr (take n (peeked @ concat (sock_segments sock)))), s') \<and>
         drop (rs_read_pos s') (rs_replay s') @ concat (sock_segments (rs_inner s')) =
           drop n (peeked @ concat (sock_segments sock))"
  using tcp_source.replay.read_exact_enough [of "ReplayStream_new peeked sock" n] assms
  by (simp add: ReplayStream_new_def) blast

theorem replay_stream_transparent_witness:
  "\<exists>s'. read_exact (replay_poll_read tcp_poll_read) 3
          (ReplayStream_new [1, 2] \<lparr>sock_segments = [[3], [4, 5]], sock_fin = False\<rparr>) =
        (Ready (Inr [1, 2, 3]), s')"
  using replay_stream_transparent [of "\<lparr>sock_segments = [[3], [4, 5]], sock_fin = False\<rparr>" 3 "[1, 2]"]
  by (auto simp: tcp_ok_def)

lemma tcp_read_exact_short:
  "tcp_ok s \<Longrightarrow> \<not> sock_fin s \<Longrightarrow> length (concat (sock_segments s)) < n \<Longrightarrow>
    read_exact tcp_poll_read n s = (Pending, s\<lparr>sock_segments := []\<rparr>)"
proof (induction "sock_segments s" arbitrary: n s)
  case Nil
  have e: "s\<lparr>sock_segments := []\<rparr> = s" using Nil(1) by (cases s) simp
  have p: "tcp_poll_read n s = (Pending, s)" using Nil(1) [symmetric] Nil(3) by simp
  have n: "n \<noteq> 0" using Nil(4) by auto
  have "read_exact tcp_poll_read n s = (Pending, s)" using n by (subst read_exact.simps) (simp add: p del: tcp_poll_read.simps)
  then show ?case by (subst e)
next
  case (Cons seg segs)
  let ?s1 = "s\<lparr>sock_segments := segs\<rparr>"
  have ss: "sock_segments s = seg # segs" using Cons.hyps(2) by simp
  then have seg: "seg \<noteq> []" "length seg < n" "sock_segments s = seg # segs"
    using Cons.prems by (auto simp: tcp_ok_def)
  have "read_exact tcp_poll_read (n - length seg) ?s1 = (Pending, ?s1\<lparr>sock_segments := []\<rparr>)"
    using Cons.hyps(1) [of ?s1 "n - length seg"] Cons.prems seg by (auto simp: tcp_ok_def)
  then show ?case using seg by (simp add: read_exact.simps [of _ n])
qed

text \<open>
  a frame read is not cancel safe. While only a part of a frame has arrived, polling
  \<^verbatim>\<open>read_frame\<close> leaves it pending with that part consumed. If the future is then dropped,
  as the session's \<^verbatim>\<open>select!\<close> drops it when it forwards a queued frame, the next
  \<^verbatim>\<open>read_frame\<close> starts in the middle of the payload and takes what it finds there for a
  frame.
\<close>

theorem cancelled_read_loses_bytes:
  assumes "tcp_ok s" "\<not> sock_fin s" "length (a @ b) \<le> MAX_FRAME_SIZE" "b \<noteq> []"
    and arrived: "concat (sock_segments s) = write_varint_u32 (word_of_nat (length (a @ b))) [] @ a"
    and rest: "decode_frame de b = Inr (v, k)"
  shows "read_frame tcp_poll_read de s = (Pending, s\<lparr>sock_segments := []\<rparr>) \<and>
    fst (read_frame tcp_poll_read de (s\<lparr>sock_segments := [b]\<rparr>)) = Ready (Inr v)"
proof -
  let ?w = "word_of_nat (length (a @ b)) :: u32"
  have len: "unat ?w = length (a @ b)"
    using assms(3) by (simp only: unat_of_nat MAX_FRAME_SIZE_def) simp
  obtain s1 where s1: "read_varint tcp_poll_read s = (Ready (Inr ?w), s1)" "concat (sock_segments s1) = a"
    "tcp_ok s1" "sock_fin s1 = sock_fin s"
    using tcp_source.read_varint_bytes_ok [OF assms(1), of 0 5 0 ?w "length (write_varint_u32 ?w [])"]
      read_write_varint_u32 [of ?w a] arrived
    by (auto simp: read_varint_def read_varint_u32_def VARINT_MAX_BYTES_def)
  have seg: "s1\<lparr>sock_segments := []\<rparr> = s\<lparr>sock_segments := []\<rparr>"
    using s1(4) by (cases s; cases s1) simp
  have "read_exact tcp_poll_read (unat ?w) s1 = (Pending, s1\<lparr>sock_segments := []\<rparr>)"
    using tcp_read_exact_short [OF s1(3)] s1(2,4) assms(2,4) len by simp
  then have "read_frame tcp_poll_read de s = (Pending, s\<lparr>sock_segments := []\<rparr>)"
    using s1(1) len assms(3) seg by (simp add: read_frame_def Let_def)
  moreover have "fst (read_frame tcp_poll_read de (s\<lparr>sock_segments := [b]\<rparr>)) = Ready (Inr v)"
    using tcp_source.read_frame_complete [of "s\<lparr>sock_segments := [b]\<rparr>" de v k] rest assms(4) by (auto simp: tcp_ok_def)
  ultimately show ?thesis by blast
qed

theorem cancelled_read_loses_bytes_witness:
  "read_frame tcp_poll_read (\<lambda>p. Inr p) \<lparr>sock_segments = [[3, 9]], sock_fin = False\<rparr> =
     (Pending, \<lparr>sock_segments = [], sock_fin = False\<rparr>) \<and>
   fst (read_frame tcp_poll_read (\<lambda>p. Inr p) \<lparr>sock_segments = [[1, 7]], sock_fin = False\<rparr>) = Ready (Inr [7])"
proof -
  have "decode_frame (\<lambda>p. Inr p) [1, 7] = Inr ([7 :: u8], 2)"
    by (simp add: decode_frame_def read_varint_u32_def MAX_FRAME_SIZE_def Let_def)
  then show ?thesis
    using cancelled_read_loses_bytes [of "\<lparr>sock_segments = [[3, 9]], sock_fin = False\<rparr>" "[9]" "[1, 7]" "\<lambda>p. Inr p" "[7]" 2]
    by (simp add: tcp_ok_def MAX_FRAME_SIZE_def write_varint_u32.simps)
qed

end
