(* ===== verification/Tcp_Mux.thy ===== *)
theory Tcp_Mux
  imports Stream_IO
begin

text \<open>
  The TCP-mux transport of \<^verbatim>\<open>krot-transport/src/tcp_mux.rs\<close>. One record holds what
  \<^verbatim>\<open>Inner\<close> shares between the connection handle, the reader task and the streams. A
  bounded channel is a reference into a table of queues: its sender is alive while
  \<^verbatim>\<open>streams\<close> refers to it, its receiver while it is in \<^verbatim>\<open>rx_live\<close>. The reader and
  writer tasks are functions of the bytes of the pipe; a task that would await is
  blocked.
\<close>

section \<open>State\<close>

definition STREAM_INBOUND_CAPACITY :: nat where "STREAM_INBOUND_CAPACITY = 64"
definition MAX_MUX_PAYLOAD :: u32 where "MAX_MUX_PAYLOAD = 256 * 1024"

datatype OutFrame = Frame MuxHeader bytes | Close

type_synonym ChanRef = nat

record AcceptedStream =
  as_stream_id :: u32
  as_open_payload :: bytes
  as_data_rx :: ChanRef

record Inner =
  is_server :: bool
  writer_q :: "OutFrame list"
  writer_up :: bool
  streams :: "u32 \<rightharpoonup> ChanRef"
  queues :: "ChanRef \<Rightarrow> bytes list"
  rx_live :: "ChanRef set"
  next_chan :: nat
  accept_q :: "AcceptedStream list"
  next_stream_id :: u32
  closed :: bool
  control_recv_slot :: "ChanRef option"

record TcpMuxSendStream =
  ss_stream_id :: u32
  ss_pending_open :: "bytes option"
  ss_finished :: bool

record TcpMuxRecvStream =
  rv_stream_id :: u32
  rv_data_rx :: ChanRef
  rv_leftover :: bytes
  rv_eof :: bool

datatype IoError = BrokenPipe string

section \<open>Connection handle\<close>

definition new_channel :: "Inner \<Rightarrow> ChanRef \<times> Inner" where
  "new_channel m =
    (next_chan m,
     m\<lparr>next_chan := Suc (next_chan m), queues := (queues m)(next_chan m := []),
       rx_live := insert (next_chan m) (rx_live m)\<rparr>)"

definition writer_send :: "OutFrame \<Rightarrow> Inner \<Rightarrow> Inner option" where
  "writer_send out m = (if writer_up m then Some (m\<lparr>writer_q := writer_q m @ [out]\<rparr>) else None)"

definition mux_new :: "bool \<Rightarrow> Inner" where
  "mux_new server =
    (let ctrl = 0;
         m = \<lparr>is_server = server, writer_q = [], writer_up = True,
              streams = [CONTROL_STREAM_ID \<mapsto> ctrl], queues = (\<lambda>_. []), rx_live = {ctrl}, next_chan = 1,
              accept_q = [], next_stream_id = (if server then 1 else 2), closed = False,
              control_recv_slot = (if server then None else Some ctrl)\<rparr>
     in if server
        then m\<lparr>accept_q := [\<lparr>as_stream_id = CONTROL_STREAM_ID, as_open_payload = replicate 9 0, as_data_rx = ctrl\<rparr>]\<rparr>
        else m)"

text \<open>\<^verbatim>\<open>fetch_add(2)\<close> on an \<^verbatim>\<open>AtomicU32\<close> wraps.\<close>

definition mint_stream_id :: "Inner \<Rightarrow> u32 \<times> Inner" where
  "mint_stream_id m = (next_stream_id m, m\<lparr>next_stream_id := next_stream_id m + 2\<rparr>)"

definition mk_send :: "u32 \<Rightarrow> bytes option \<Rightarrow> TcpMuxSendStream" where
  "mk_send sid pending = \<lparr>ss_stream_id = sid, ss_pending_open = pending, ss_finished = False\<rparr>"

definition mk_recv :: "u32 \<Rightarrow> ChanRef \<Rightarrow> bytes \<Rightarrow> TcpMuxRecvStream" where
  "mk_recv sid rx leftover =
    \<lparr>rv_stream_id = sid, rv_data_rx = rx, rv_leftover = leftover, rv_eof = False\<rparr>"

definition open_data_stream ::
  "bytes \<Rightarrow> Inner \<Rightarrow> (TransportError, TcpMuxSendStream \<times> TcpMuxRecvStream) result \<times> Inner" where
  "open_data_stream header m =
    (if closed m then (Inl UnexpectedEof, m)
     else let (stream_id, m) = mint_stream_id m;
              (c, m) = new_channel m;
              m = m\<lparr>streams := (streams m)(stream_id \<mapsto> c)\<rparr>;
              out = Frame \<lparr>mh_flag = Open, mh_stream_id = stream_id, mh_payload_len = 9\<rparr> header
       in case writer_send out m of
            None \<Rightarrow> (Inl UnexpectedEof, m)
          | Some m \<Rightarrow> (Inr (mk_send stream_id None, mk_recv stream_id c []), m))"

definition open_bi ::
  "Inner \<Rightarrow> (TransportError, TcpMuxSendStream \<times> TcpMuxRecvStream) result \<times> Inner" where
  "open_bi m =
    (if closed m then (Inl UnexpectedEof, m)
     else case (if is_server m then None else control_recv_slot m) of
       Some rx \<Rightarrow>
         (Inr (mk_send CONTROL_STREAM_ID None, mk_recv CONTROL_STREAM_ID rx []), m\<lparr>control_recv_slot := None\<rparr>)
     | None \<Rightarrow>
        (let (stream_id, m) = mint_stream_id m;
             (c, m) = new_channel m;
             m = m\<lparr>streams := (streams m)(stream_id \<mapsto> c)\<rparr>
         in (Inr (mk_send stream_id (Some []), mk_recv stream_id c []), m)))"

text \<open>The accept queue never closes while the handle exists; an empty queue awaits.\<close>

definition accept_data_stream ::
  "Inner \<Rightarrow> (bytes \<times> TcpMuxSendStream \<times> TcpMuxRecvStream) Poll \<times> Inner" where
  "accept_data_stream m =
    (case accept_q m of
       [] \<Rightarrow> (Pending, m)
     | a # q \<Rightarrow>
         (Ready (as_open_payload a, mk_send (as_stream_id a) None, mk_recv (as_stream_id a) (as_data_rx a) []),
          m\<lparr>accept_q := q\<rparr>))"

definition accept_bi :: "Inner \<Rightarrow> (TcpMuxSendStream \<times> TcpMuxRecvStream) Poll \<times> Inner" where
  "accept_bi m =
    (case accept_q m of
       [] \<Rightarrow> (Pending, m)
     | a # q \<Rightarrow>
        (let leftover = (if as_stream_id a = CONTROL_STREAM_ID then [] else as_open_payload a)
         in (Ready (mk_send (as_stream_id a) None, mk_recv (as_stream_id a) (as_data_rx a) leftover),
             m\<lparr>accept_q := q\<rparr>)))"

definition mux_close :: "Inner \<Rightarrow> Inner" where
  "mux_close m =
    (if closed m then m
     else case writer_send Close (m\<lparr>closed := True\<rparr>) of None \<Rightarrow> m\<lparr>closed := True\<rparr> | Some m' \<Rightarrow> m')"

definition mux_closed :: "Inner \<Rightarrow> bool" where
  "mux_closed m = closed m"

section \<open>Reader and writer tasks\<close>

datatype ReaderStep = Continue Inner bytes | Exit Inner | Blocked

definition reader_exit :: "Inner \<Rightarrow> ReaderStep" where
  "reader_exit m = Exit (m\<lparr>closed := True\<rparr>)"

text \<open>
  \<^verbatim>\<open>read_exact\<close> on the pipe with \<^verbatim>\<open>inp\<close> received: with too few bytes it fails at the end
  of the pipe and awaits otherwise.
\<close>

definition short_read :: "bool \<Rightarrow> Inner \<Rightarrow> ReaderStep" where
  "short_read eof m = (if eof then reader_exit m else Blocked)"

definition dispatch_open :: "u32 \<Rightarrow> bytes \<Rightarrow> bytes \<Rightarrow> Inner \<Rightarrow> ReaderStep" where
  "dispatch_open stream_id payload rest m =
    (if stream_id = CONTROL_STREAM_ID then reader_exit m
     else let (c, m) = new_channel m
       in Continue (m\<lparr>streams := (streams m)(stream_id \<mapsto> c),
                     accept_q := accept_q m @
                       [\<lparr>as_stream_id = stream_id, as_open_payload = payload, as_data_rx = c\<rparr>]\<rparr>) rest)"

definition dispatch_data :: "u32 \<Rightarrow> bytes \<Rightarrow> bytes \<Rightarrow> Inner \<Rightarrow> ReaderStep" where
  "dispatch_data stream_id payload rest m =
    (case streams m stream_id of
       None \<Rightarrow> Continue m rest
     | Some c \<Rightarrow>
         if c \<notin> rx_live m then Continue m rest
         else if STREAM_INBOUND_CAPACITY \<le> length (queues m c) then Blocked
         else Continue (m\<lparr>queues := (queues m)(c := queues m c @ [payload])\<rparr>) rest)"

definition dispatch_fin :: "u32 \<Rightarrow> bytes \<Rightarrow> Inner \<Rightarrow> ReaderStep" where
  "dispatch_fin stream_id rest m = Continue (m\<lparr>streams := (streams m)(stream_id := None)\<rparr>) rest"

definition reader_step :: "bool \<Rightarrow> bytes \<Rightarrow> Inner \<Rightarrow> ReaderStep" where
  "reader_step eof inp m =
    (if length inp < MUX_HEADER_SIZE then short_read eof m
     else case MuxHeader_decode (take MUX_HEADER_SIZE inp) of
       Inl e \<Rightarrow> reader_exit m
     | Inr h \<Rightarrow>
        (let rest = drop MUX_HEADER_SIZE inp
         in case mh_flag h of
              Open \<Rightarrow>
                if length rest < 9 then short_read eof m
                else dispatch_open (mh_stream_id h) (take 9 rest) (drop 9 rest) m
            | Data \<Rightarrow>
                if MAX_MUX_PAYLOAD < mh_payload_len h then reader_exit m
                else let n = unat (mh_payload_len h)
                  in if length rest < n then short_read eof m
                     else dispatch_data (mh_stream_id h) (take n rest) (drop n rest) m
            | Fin \<Rightarrow> dispatch_fin (mh_stream_id h) rest m))"

lemma reader_step_progress: "reader_step eof inp m = Continue m' rest \<Longrightarrow> length rest < length inp"
  by (auto simp: reader_step_def short_read_def reader_exit_def dispatch_open_def dispatch_data_def
      dispatch_fin_def MUX_HEADER_SIZE_def Let_def
      split: if_splits sum.splits MuxFlag.splits option.splits prod.splits)

function reader_task :: "bool \<Rightarrow> bytes \<Rightarrow> Inner \<Rightarrow> Inner \<times> bytes" where
  "reader_task eof inp m =
    (case reader_step eof inp m of
       Continue m' rest \<Rightarrow> reader_task eof rest m'
     | Exit m' \<Rightarrow> (m', [])
     | Blocked \<Rightarrow> (m, inp))"
  by pat_completeness auto
termination by (relation "measure (\<lambda>(eof, inp, m). length inp)") (auto dest: reader_step_progress)

declare reader_task.simps [simp del]

text \<open>The bytes the writer puts on a pipe that takes every write, and the frames it leaves.\<close>

fun writer_task :: "OutFrame list \<Rightarrow> bytes" where
  "writer_task [] = []"
| "writer_task (Frame h payload # fs) = MuxHeader_to_bytes h @ payload @ writer_task fs"
| "writer_task (Close # fs) = []"

section \<open>Streams\<close>

definition open_frame :: "u32 \<Rightarrow> bytes \<Rightarrow> OutFrame" where
  "open_frame sid payload = Frame \<lparr>mh_flag = Open, mh_stream_id = sid, mh_payload_len = 9\<rparr> payload"

definition data_frame :: "u32 \<Rightarrow> bytes \<Rightarrow> OutFrame" where
  "data_frame sid payload =
    Frame \<lparr>mh_flag = Data, mh_stream_id = sid, mh_payload_len = word_of_nat (length payload)\<rparr> payload"

definition fin_frame :: "u32 \<Rightarrow> OutFrame" where
  "fin_frame sid = Frame \<lparr>mh_flag = Fin, mh_stream_id = sid, mh_payload_len = 0\<rparr> []"

definition send_finish ::
  "TcpMuxSendStream \<Rightarrow> Inner \<Rightarrow> (TransportError, unit) result \<times> TcpMuxSendStream \<times> Inner" where
  "send_finish ss m =
    (if ss_finished ss then (Inr (), ss, m)
     else let m = (case ss_pending_open ss of
                     None \<Rightarrow> m
                   | Some buf \<Rightarrow>
                      (case writer_send (open_frame (ss_stream_id ss) (take 9 (buf @ replicate 9 0))) m of
                         None \<Rightarrow> m | Some m' \<Rightarrow> m'));
              ss = ss\<lparr>ss_finished := True, ss_pending_open := None\<rparr>
       in case writer_send (fin_frame (ss_stream_id ss)) m of
            None \<Rightarrow> (Inl UnexpectedEof, ss, m)
          | Some m' \<Rightarrow> (Inr (), ss, m'))"

definition write_data ::
  "nat \<Rightarrow> bytes \<Rightarrow> TcpMuxSendStream \<Rightarrow> Inner \<Rightarrow> (IoError, nat) result \<times> TcpMuxSendStream \<times> Inner" where
  "write_data cursor rest ss m =
    (if rest = [] then (Inr cursor, ss, m)
     else case writer_send (data_frame (ss_stream_id ss) rest) m of
       None \<Rightarrow> (Inl (BrokenPipe ''mux writer gone''), ss, m)
     | Some m' \<Rightarrow> (Inr (cursor + length rest), ss, m'))"

definition poll_write ::
  "bytes \<Rightarrow> TcpMuxSendStream \<Rightarrow> Inner \<Rightarrow> (IoError, nat) result \<times> TcpMuxSendStream \<times> Inner" where
  "poll_write buf ss m =
    (if ss_finished ss \<or> closed m then (Inl (BrokenPipe ''mux stream closed''), ss, m)
     else case ss_pending_open ss of
       None \<Rightarrow> write_data 0 buf ss m
     | Some pending \<Rightarrow>
        (let need = 9 - length pending;
             k = min need (length buf);
             pending = pending @ take k buf
         in if length pending = 9
            then let ss = ss\<lparr>ss_pending_open := None\<rparr>
              in (case writer_send (open_frame (ss_stream_id ss) pending) m of
                    None \<Rightarrow> (Inl (BrokenPipe ''mux writer gone''), ss, m)
                  | Some m' \<Rightarrow> write_data k (drop k buf) ss m')
            else (Inr k, ss\<lparr>ss_pending_open := Some pending\<rparr>, m)))"

definition poll_shutdown :: "TcpMuxSendStream \<Rightarrow> Inner \<Rightarrow> TcpMuxSendStream \<times> Inner" where
  "poll_shutdown ss m = snd (send_finish ss m)"

definition recv_drop :: "TcpMuxRecvStream \<Rightarrow> Inner \<Rightarrow> Inner" where
  "recv_drop rv m =
    m\<lparr>streams := (streams m)(rv_stream_id rv := None), rx_live := rx_live m - {rv_data_rx rv}\<rparr>"

definition sender_gone :: "ChanRef \<Rightarrow> Inner \<Rightarrow> bool" where
  "sender_gone c m \<longleftrightarrow> c \<notin> ran (streams m)"

definition mux_poll_read :: "nat \<Rightarrow> Inner \<times> TcpMuxRecvStream \<Rightarrow> bytes Poll \<times> Inner \<times> TcpMuxRecvStream" where
  "mux_poll_read n s =
    (case s of (m, rv) \<Rightarrow>
      if rv_leftover rv \<noteq> []
      then let k = min (length (rv_leftover rv)) n
        in (Ready (take k (rv_leftover rv)), m, rv\<lparr>rv_leftover := drop k (rv_leftover rv)\<rparr>)
      else if rv_eof rv then (Ready [], m, rv)
      else case queues m (rv_data_rx rv) of
        chunk # q \<Rightarrow>
          (let k = min (length chunk) n;
               m = m\<lparr>queues := (queues m)(rv_data_rx rv := q)\<rparr>
           in (Ready (take k chunk), m, if k < length chunk then rv\<lparr>rv_leftover := drop k chunk\<rparr> else rv))
      | [] \<Rightarrow>
          if sender_gone (rv_data_rx rv) m then (Ready [], m, rv\<lparr>rv_eof := True\<rparr>)
          else (Pending, m, rv))"

section \<open>The pipe carries the frames\<close>

type_synonym mux_frame = "MuxHeader \<times> bytes"

definition mux_frame_ok :: "mux_frame \<Rightarrow> bool" where
  "mux_frame_ok f \<longleftrightarrow> mux_header_ok (fst f) \<and> length (snd f) = unat (mh_payload_len (fst f))"

definition mux_frame_bytes :: "mux_frame \<Rightarrow> bytes" where
  "mux_frame_bytes f = MuxHeader_to_bytes (fst f) @ snd f"

definition mux_frame_split :: "bytes \<Rightarrow> (mux_frame \<times> bytes) option" where
  "mux_frame_split bs =
    (case MuxHeader_decode bs of
       Inl e \<Rightarrow> None
     | Inr h \<Rightarrow>
        (let n = unat (mh_payload_len h); rest = drop MUX_HEADER_SIZE bs
         in if length rest < n then None else Some ((h, take n rest), drop n rest)))"

lemma MuxHeader_decode_append: "MuxHeader_decode (MuxHeader_to_bytes h @ rest) = MuxHeader_decode (MuxHeader_to_bytes h)"
  by (simp add: MuxHeader_decode_def MuxHeader_to_bytes_def MUX_HEADER_SIZE_def)

interpretation mux_codec: prefix_codec mux_frame_bytes mux_frame_split mux_frame_ok
proof
  show "mux_frame_ok f \<Longrightarrow> mux_frame_split (mux_frame_bytes f @ rest) = Some (f, rest)" for f rest
    by (simp add: mux_frame_ok_def mux_frame_split_def mux_frame_bytes_def MuxHeader_decode_to_bytes)
  show "mux_frame_split bs = Some (f, rest) \<Longrightarrow> length rest < length bs" for bs f rest
    by (auto simp: mux_frame_split_def Let_def MuxHeader_decode_def MUX_HEADER_SIZE_def
        split: sum.splits if_splits)
qed

definition dispatch :: "mux_frame \<Rightarrow> bytes \<Rightarrow> Inner \<Rightarrow> ReaderStep" where
  "dispatch f rest m =
    (case mh_flag (fst f) of
       Open \<Rightarrow> dispatch_open (mh_stream_id (fst f)) (snd f) rest m
     | Data \<Rightarrow> if MAX_MUX_PAYLOAD < mh_payload_len (fst f) then reader_exit m
               else dispatch_data (mh_stream_id (fst f)) (snd f) rest m
     | Fin \<Rightarrow> dispatch_fin (mh_stream_id (fst f)) rest m)"

lemma reader_step_frame:
  assumes "mux_frame_ok f"
  shows "reader_step eof (mux_frame_bytes f @ rest) m = dispatch f rest m"
proof -
  have "MuxHeader_decode (MuxHeader_to_bytes (fst f)) = Inr (fst f)"
    using assms MuxHeader_decode_to_bytes [of "fst f" "[]"] by (simp add: mux_frame_ok_def)
  then show ?thesis
    using assms
    by (auto simp: reader_step_def dispatch_def mux_frame_bytes_def mux_frame_ok_def mux_header_ok_def
        Let_def split: MuxFlag.split)
qed

fun frames_of :: "OutFrame list \<Rightarrow> mux_frame list" where
  "frames_of [] = []"
| "frames_of (Frame h p # fs) = (h, p) # frames_of fs"
| "frames_of (Close # fs) = []"

lemma writer_task_frames: "writer_task fs = concat (map mux_frame_bytes (frames_of fs))"
  by (induction fs rule: frames_of.induct) (simp_all add: mux_frame_bytes_def)

section \<open>A receive stream is a byte source\<close>

definition recv_unread :: "Inner \<times> TcpMuxRecvStream \<Rightarrow> bytes" where
  "recv_unread s = rv_leftover (snd s) @ concat (queues (fst s) (rv_data_rx (snd s)))"

definition recv_ended :: "Inner \<times> TcpMuxRecvStream \<Rightarrow> bool" where
  "recv_ended s = sender_gone (rv_data_rx (snd s)) (fst s)"

definition recv_ok :: "Inner \<times> TcpMuxRecvStream \<Rightarrow> bool" where
  "recv_ok s \<longleftrightarrow> [] \<notin> set (queues (fst s) (rv_data_rx (snd s))) \<and>
     (rv_eof (snd s) \<longrightarrow> recv_ended s \<and> queues (fst s) (rv_data_rx (snd s)) = [])"

lemma mux_poll_read_ready:
  assumes "mux_poll_read n (m, rv) = (Ready b, m', rv')"
  shows "recv_unread (m, rv) = b @ recv_unread (m', rv') \<and> length b \<le> n \<and>
    rv_data_rx rv' = rv_data_rx rv \<and> rv_stream_id rv' = rv_stream_id rv \<and>
    (\<exists>q. m' = m\<lparr>queues := (queues m)(rv_data_rx rv := q)\<rparr>)"
proof -
  have self: "\<exists>q. m = m\<lparr>queues := (queues m)(rv_data_rx rv := q)\<rparr>"
    by (rule exI [of _ "queues m (rv_data_rx rv)"]) simp
  show ?thesis
    using assms self
    by (auto simp: mux_poll_read_def recv_unread_def Let_def min_def split: if_splits list.splits)
qed

lemma mux_poll_read_ended:
  assumes "mux_poll_read n (m, rv) = (Ready b, m', rv')"
  shows "recv_ended (m', rv') = recv_ended (m, rv)"
  using mux_poll_read_ready [OF assms] by (auto simp: recv_ended_def sender_gone_def)

lemma mux_poll_read_ok:
  assumes "mux_poll_read n (m, rv) = (Ready b, m', rv')" "recv_ok (m, rv)"
  shows "recv_ok (m', rv')"
  using assms
  by (auto simp: mux_poll_read_def recv_ok_def recv_ended_def sender_gone_def Let_def
      split: if_splits list.splits)

lemma mux_poll_read_none:
  assumes "mux_poll_read n (m, rv) = (p, m', rv')" "recv_ok (m, rv)" "0 < n" "p = Ready [] \<or> p = Pending"
  shows "recv_unread (m, rv) = [] \<and> recv_ended (m, rv) = (p = Ready [])"
  using assms
  by (auto simp: mux_poll_read_def recv_ok_def recv_unread_def recv_ended_def Let_def min_def
      split: if_splits list.splits)

interpretation mux_source: replayed_source recv_ok recv_unread recv_ended mux_poll_read
proof
  fix s s' :: "Inner \<times> TcpMuxRecvStream" and n b
  obtain m rv m' rv' where s: "s = (m, rv)" "s' = (m', rv')" by (cases s, cases s')
  show "recv_ok s \<Longrightarrow> mux_poll_read n s = (Ready b, s') \<Longrightarrow>
      recv_unread s = b @ recv_unread s' \<and> length b \<le> n \<and> recv_ok s' \<and> recv_ended s' = recv_ended s"
    unfolding s by (blast dest: mux_poll_read_ready mux_poll_read_ended mux_poll_read_ok)
  show "recv_ok s \<Longrightarrow> 0 < n \<Longrightarrow> mux_poll_read n s = (Ready [], s') \<Longrightarrow> recv_unread s = [] \<and> recv_ended s"
    unfolding s using mux_poll_read_none by blast
  show "recv_ok s \<Longrightarrow> 0 < n \<Longrightarrow> mux_poll_read n s = (Pending, s') \<Longrightarrow> recv_unread s = [] \<and> \<not> recv_ended s"
    unfolding s using mux_poll_read_none by blast
qed

section \<open>Delivery\<close>

text \<open>
  The bytes that the frames still in the pipe contribute to the channel of stream
  \<^verbatim>\<open>sid\<close>: its DATA payloads up to its FIN, or to an OPEN that reuses the id.
\<close>

fun inbound :: "u32 \<Rightarrow> mux_frame list \<Rightarrow> bytes" where
  "inbound sid [] = []"
| "inbound sid ((h, p) # fs) =
    (if mh_stream_id h \<noteq> sid then inbound sid fs
     else if mh_flag h = Data then p @ inbound sid fs
     else [])"

text \<open>
  One atomic step around a receive stream \<^verbatim>\<open>rv\<close>: the reader task handles a frame, the
  owner of \<^verbatim>\<open>rv\<close> reads, or other streams of the connection are opened, accepted, read,
  written or dropped. \<^verbatim>\<open>got\<close> collects what the owner has read.
\<close>

inductive link_step ::
  "u32 \<Rightarrow> bytes \<times> Inner \<times> TcpMuxRecvStream \<times> bytes \<Rightarrow> bytes \<times> Inner \<times> TcpMuxRecvStream \<times> bytes \<Rightarrow> bool"
  for sid where
  link_deliver: "reader_step eof inp m = Continue m' inp' \<Longrightarrow>
     link_step sid (inp, m, rv, got) (inp', m', rv, got)"
| link_read: "mux_poll_read n (m, rv) = (Ready b, m', rv') \<Longrightarrow>
     link_step sid (inp, m, rv, got) (inp, m', rv', got @ b)"
| link_open: "open_bi m = (r, m') \<Longrightarrow> fst (mint_stream_id m) \<noteq> sid \<Longrightarrow>
     link_step sid (inp, m, rv, got) (inp, m', rv, got)"
| link_accept: "accept_bi m = (r, m') \<Longrightarrow> link_step sid (inp, m, rv, got) (inp, m', rv, got)"
| link_other_read: "mux_poll_read n (m, rv2) = (r, m', rv2') \<Longrightarrow> rv_data_rx rv2 \<noteq> rv_data_rx rv \<Longrightarrow>
     link_step sid (inp, m, rv, got) (inp, m', rv, got)"
| link_other_drop: "rv_stream_id rv2 \<noteq> sid \<Longrightarrow> rv_data_rx rv2 \<noteq> rv_data_rx rv \<Longrightarrow>
     link_step sid (inp, m, rv, got) (inp, recv_drop rv2 m, rv, got)"
| link_write: "poll_write buf ss m = (r, ss', m') \<Longrightarrow> link_step sid (inp, m, rv, got) (inp, m', rv, got)"
| link_finish: "send_finish ss m = (rf, ss', m') \<Longrightarrow> link_step sid (inp, m, rv, got) (inp, m', rv, got)"

definition link_inv :: "u32 \<Rightarrow> bytes \<Rightarrow> bytes \<times> Inner \<times> TcpMuxRecvStream \<times> bytes \<Rightarrow> bool" where
  "link_inv sid whole st \<longleftrightarrow>
    (case st of (inp, m, rv, got) \<Rightarrow>
      rv_data_rx rv < next_chan m \<and> rv_data_rx rv \<in> rx_live m \<and>
      (\<forall>s. s \<noteq> sid \<longrightarrow> streams m s \<noteq> Some (rv_data_rx rv)) \<and>
      (rv_eof rv \<longrightarrow> recv_unread (m, rv) = [] \<and> streams m sid \<noteq> Some (rv_data_rx rv)) \<and>
      (\<exists>fs. inp = concat (map mux_frame_bytes fs) \<and> (\<forall>f \<in> set fs. mux_frame_ok f) \<and>
        got @ recv_unread (m, rv) @ (if streams m sid = Some (rv_data_rx rv) then inbound sid fs else []) = whole))"

text \<open>Changes that leave the channel of \<^verbatim>\<open>rv\<close> and its route alone.\<close>

definition same_link :: "u32 \<Rightarrow> ChanRef \<Rightarrow> Inner \<Rightarrow> Inner \<Rightarrow> bool" where
  "same_link sid c m m' \<longleftrightarrow>
     queues m' c = queues m c \<and> next_chan m \<le> next_chan m' \<and> (c \<in> rx_live m \<longrightarrow> c \<in> rx_live m') \<and>
     streams m' sid = streams m sid \<and>
     (\<forall>s. streams m' s = Some c \<longrightarrow> streams m s = Some c)"

lemma link_inv_same_link:
  assumes "link_inv sid whole (inp, m, rv, got)" "same_link sid (rv_data_rx rv) m m'"
  shows "link_inv sid whole (inp, m', rv, got)"
  using assms by (auto simp: link_inv_def same_link_def recv_unread_def)

lemma writer_send_same_link: "writer_send out m = Some m' \<Longrightarrow> same_link sid c m m'"
  by (auto simp: writer_send_def same_link_def split: if_splits)

lemma same_link_refl: "same_link sid c m m"
  by (simp add: same_link_def)

lemma same_link_trans: "same_link sid c m m' \<Longrightarrow> same_link sid c m' m'' \<Longrightarrow> same_link sid c m m''"
  by (auto simp: same_link_def)

lemma poll_write_same_link: "poll_write buf ss m = (r, ss', m') \<Longrightarrow> same_link sid c m m'"
  by (auto simp: poll_write_def write_data_def Let_def
      intro: same_link_refl writer_send_same_link same_link_trans split: if_splits option.splits)

lemma send_finish_same_link: "send_finish ss m = (r, ss', m') \<Longrightarrow> same_link sid c m m'"
  by (auto simp: send_finish_def Let_def
      intro: same_link_refl writer_send_same_link same_link_trans split: if_splits option.splits)

lemma open_bi_same_link:
  "open_bi m = (r, m') \<Longrightarrow> fst (mint_stream_id m) \<noteq> sid \<Longrightarrow> c < next_chan m \<Longrightarrow> same_link sid c m m'"
  by (auto simp: open_bi_def mint_stream_id_def new_channel_def same_link_def split: if_splits option.splits)

lemma accept_bi_same_link: "accept_bi m = (r, m') \<Longrightarrow> same_link sid c m m'"
  by (auto simp: accept_bi_def same_link_def Let_def split: list.splits)

lemma other_read_same_link:
  "mux_poll_read n (m, rv2) = (r, m', rv2') \<Longrightarrow> rv_data_rx rv2 \<noteq> c \<Longrightarrow> same_link sid c m m'"
  by (auto simp: mux_poll_read_def same_link_def Let_def split: if_splits list.splits)

lemma other_drop_same_link:
  "rv_stream_id rv2 \<noteq> sid \<Longrightarrow> rv_data_rx rv2 \<noteq> c \<Longrightarrow> same_link sid c m (recv_drop rv2 m)"
  by (auto simp: recv_drop_def same_link_def)

lemma dispatch_Continue:
  assumes "dispatch (h, p) rest m = Continue m' inp'"
  shows "inp' = rest \<and>
    (mh_flag h = Open \<and> m' = (snd (new_channel m))
        \<lparr>streams := (streams m)(mh_stream_id h \<mapsto> next_chan m),
         accept_q := accept_q m @
           [\<lparr>as_stream_id = mh_stream_id h, as_open_payload = p, as_data_rx = next_chan m\<rparr>]\<rparr> \<or>
     mh_flag h = Data \<and> m' = m \<and> (\<forall>c. streams m (mh_stream_id h) = Some c \<longrightarrow> c \<notin> rx_live m) \<or>
     mh_flag h = Data \<and> (\<exists>c. streams m (mh_stream_id h) = Some c \<and>
        m' = m\<lparr>queues := (queues m)(c := queues m c @ [p])\<rparr>) \<or>
     mh_flag h = Fin \<and> m' = m\<lparr>streams := (streams m)(mh_stream_id h := None)\<rparr>)"
  using assms
  by (auto simp: dispatch_def dispatch_open_def dispatch_data_def dispatch_fin_def reader_exit_def
      new_channel_def Let_def split: MuxFlag.splits if_splits option.splits)

lemma link_inv_deliver:
  assumes inv: "link_inv sid whole (inp, m, rv, got)" and rd: "reader_step eof inp m = Continue m' inp'"
  shows "link_inv sid whole (inp', m', rv, got)"
proof -
  let ?c = "rv_data_rx rv"
  obtain fs where fs: "inp = concat (map mux_frame_bytes fs)" "\<forall>f \<in> set fs. mux_frame_ok f"
    and whole: "got @ recv_unread (m, rv) @ (if streams m sid = Some ?c then inbound sid fs else []) = whole"
    and c: "?c < next_chan m" "?c \<in> rx_live m" "\<forall>s. s \<noteq> sid \<longrightarrow> streams m s \<noteq> Some ?c"
      "rv_eof rv \<longrightarrow> recv_unread (m, rv) = [] \<and> streams m sid \<noteq> Some ?c"
    using inv by (auto simp: link_inv_def)
  obtain h p fs' where f: "fs = (h, p) # fs'"
    using rd fs(1) by (cases fs) (auto simp: reader_step_def short_read_def reader_exit_def MUX_HEADER_SIZE_def split: if_splits)
  have "dispatch (h, p) (concat (map mux_frame_bytes fs')) m = Continue m' inp'"
    using rd fs f reader_step_frame [of "(h, p)"] by simp
  note d = dispatch_Continue [OF this]
  have ok': "inp' = concat (map mux_frame_bytes fs')" "\<forall>f \<in> set fs'. mux_frame_ok f" using d fs f by auto
  have "got @ recv_unread (m', rv) @ (if streams m' sid = Some ?c then inbound sid fs' else []) = whole \<and>
     ?c < next_chan m' \<and> ?c \<in> rx_live m' \<and> (\<forall>s. s \<noteq> sid \<longrightarrow> streams m' s \<noteq> Some ?c) \<and>
     (rv_eof rv \<longrightarrow> recv_unread (m', rv) = [] \<and> streams m' sid \<noteq> Some ?c)"
  proof (cases "mh_flag h")
    case Open
    with d have m': "streams m' = (streams m)(mh_stream_id h \<mapsto> next_chan m)"
      "queues m' = (queues m)(next_chan m := [])" "next_chan m' = Suc (next_chan m)"
      "rx_live m' = insert (next_chan m) (rx_live m)"
      by (simp_all add: new_channel_def)
    show ?thesis
      using c whole Open by (cases "mh_stream_id h = sid"; cases "streams m sid = Some ?c") (simp_all add: f recv_unread_def m')
  next
    case Fin
    with d have m': "m' = m\<lparr>streams := (streams m)(mh_stream_id h := None)\<rparr>" by simp
    show ?thesis
      using c whole Fin by (cases "mh_stream_id h = sid"; cases "streams m sid = Some ?c") (simp_all add: f recv_unread_def m')
  next
    case Data
    then consider (drop) "m' = m" "\<forall>c. streams m (mh_stream_id h) = Some c \<longrightarrow> c \<notin> rx_live m"
      | (push) c2 where "streams m (mh_stream_id h) = Some c2" "m' = m\<lparr>queues := (queues m)(c2 := queues m c2 @ [p])\<rparr>"
      using d by auto
    then show ?thesis
    proof cases
      case drop
      then show ?thesis
        using c whole Data by (cases "mh_stream_id h = sid"; cases "streams m sid = Some ?c") (simp_all add: f)
    next
      case push
      show ?thesis
      proof (cases "c2 = ?c")
        case True
        then have "mh_stream_id h = sid" using push(1) c(3) by blast
        then show ?thesis using push c whole Data True by (simp add: f recv_unread_def)
      next
        case False
        then show ?thesis
          using push c whole Data by (cases "mh_stream_id h = sid"; cases "streams m sid = Some ?c") (simp_all add: f recv_unread_def)
      qed
    qed
  qed
  with ok' show ?thesis unfolding link_inv_def by auto
qed

lemma mux_poll_read_eof:
  assumes "mux_poll_read n (m, rv) = (Ready b, m', rv')" "\<not> rv_eof rv" "rv_eof rv'"
  shows "recv_unread (m', rv') = [] \<and> sender_gone (rv_data_rx rv) m'"
  using assms
  by (auto simp: mux_poll_read_def recv_unread_def Let_def split: if_splits list.splits)

lemma link_inv_read:
  assumes inv: "link_inv sid whole (inp, m, rv, got)" and rd: "mux_poll_read n (m, rv) = (Ready b, m', rv')"
  shows "link_inv sid whole (inp, m', rv', got @ b)"
proof -
  have m': "recv_unread (m, rv) = b @ recv_unread (m', rv')" "rv_data_rx rv' = rv_data_rx rv"
    "streams m' = streams m" "next_chan m' = next_chan m" "rx_live m' = rx_live m"
    using mux_poll_read_ready [OF rd] by auto
  have eof: "rv_eof rv' \<longrightarrow> recv_unread (m', rv') = [] \<and> streams m' sid \<noteq> Some (rv_data_rx rv')"
  proof (cases "rv_eof rv")
    case True
    then show ?thesis using inv m' by (auto simp: link_inv_def)
  next
    case False
    then show ?thesis using mux_poll_read_eof [OF rd] m'(2) by (auto simp: sender_gone_def ran_def)
  qed
  obtain fs where fs: "inp = concat (map mux_frame_bytes fs)" "\<forall>f \<in> set fs. mux_frame_ok f"
    "got @ recv_unread (m, rv) @ (if streams m sid = Some (rv_data_rx rv) then inbound sid fs else []) = whole"
    using inv by (auto simp: link_inv_def)
  have "(got @ b) @ recv_unread (m', rv') @
      (if streams m' sid = Some (rv_data_rx rv') then inbound sid fs else []) = whole"
    using fs(3) by (simp only: m' append_assoc)
  with fs(1,2) eof inv show ?thesis
    unfolding link_inv_def prod.case m'(2-5) by blast
qed

lemma link_inv_step:
  assumes "link_step sid s t" "link_inv sid whole s"
  shows "link_inv sid whole t"
  using assms
proof (induction rule: link_step.induct)
  case (link_deliver eof inp m m' inp' rv got)
  then show ?case by (blast intro: link_inv_deliver)
next
  case (link_read n m rv b m' rv' inp got)
  then show ?case by (blast intro: link_inv_read)
next
  case (link_open m r m' inp rv got)
  then show ?case
    by (intro link_inv_same_link [OF link_open.prems] open_bi_same_link) (auto simp: link_inv_def)
qed (blast intro: link_inv_same_link accept_bi_same_link other_read_same_link other_drop_same_link
      poll_write_same_link send_finish_same_link)+

interpretation link_sys: invariant_system "link_inv sid whole" "link_step sid" "link_inv sid whole" for sid whole
  by unfold_locales (auto intro: link_inv_step)

section \<open>What a sender puts in the pipe\<close>

text \<open>
  A run of a connection around one send stream: the owner writes a buffer, or some
  other stream of the connection enqueues a frame.
\<close>

datatype SendEvent = Write bytes | Other OutFrame

fun send_run :: "SendEvent list \<Rightarrow> TcpMuxSendStream \<times> Inner \<Rightarrow> TcpMuxSendStream \<times> Inner" where
  "send_run [] s = s"
| "send_run (Write buf # evs) s = send_run evs (snd (poll_write buf (fst s) (snd s)))"
| "send_run (Other f # evs) s = send_run evs (fst s, (snd s)\<lparr>writer_q := writer_q (snd s) @ [f]\<rparr>)"

fun written :: "SendEvent list \<Rightarrow> bytes" where
  "written [] = []"
| "written (Write buf # evs) = buf @ written evs"
| "written (Other f # evs) = written evs"

fun foreign :: "u32 \<Rightarrow> OutFrame \<Rightarrow> bool" where
  "foreign sid (Frame h p) \<longleftrightarrow> mh_stream_id h \<noteq> sid \<and> mux_frame_ok (h, p)"
| "foreign sid Close \<longleftrightarrow> False"

definition events_ok :: "u32 \<Rightarrow> SendEvent list \<Rightarrow> bool" where
  "events_ok sid evs \<longleftrightarrow>
     (\<forall>e \<in> set evs. case e of Write buf \<Rightarrow> length buf < 2 ^ 32 | Other f \<Rightarrow> foreign sid f)"

text \<open>Frames after the OPEN of \<^verbatim>\<open>sid\<close>: its own DATA frames among foreign frames.\<close>

fun own_data :: "u32 \<Rightarrow> OutFrame list \<Rightarrow> bytes option" where
  "own_data sid [] = Some []"
| "own_data sid (f # fs) =
    (if foreign sid f then own_data sid fs
     else case f of
       Frame h p \<Rightarrow> if mh_flag h = Data \<and> mh_stream_id h = sid \<and> mux_frame_ok (h, p)
                    then map_option (\<lambda>bs. p @ bs) (own_data sid fs) else None
     | Close \<Rightarrow> None)"

lemma own_data_append:
  "own_data sid (fs @ gs) =
    (case own_data sid fs of None \<Rightarrow> None | Some bs \<Rightarrow> map_option (\<lambda>bs'. bs @ bs') (own_data sid gs))"
  by (cases "own_data sid gs"; induction fs) (auto split: OutFrame.split option.split)

lemma own_data_data_frame:
  "length p < 2 ^ 32 \<Longrightarrow> own_data sid [data_frame sid p] = Some p"
  by (simp add: data_frame_def mux_frame_ok_def mux_header_ok_def unat_of_nat)

lemma own_data_foreign: "foreign sid f \<Longrightarrow> own_data sid [f] = Some []"
  by simp

definition sender_inv :: "u32 \<Rightarrow> OutFrame list \<Rightarrow> bytes \<Rightarrow> TcpMuxSendStream \<times> Inner \<Rightarrow> bool" where
  "sender_inv sid q0 sent s \<longleftrightarrow>
     ss_stream_id (fst s) = sid \<and> \<not> ss_finished (fst s) \<and> writer_up (snd s) \<and> \<not> closed (snd s) \<and>
     (case ss_pending_open (fst s) of
        Some pend \<Rightarrow> pend = sent \<and> length pend < 9 \<and>
          (\<exists>pre. writer_q (snd s) = q0 @ pre \<and> (\<forall>f \<in> set pre. foreign sid f))
      | None \<Rightarrow>
          (\<exists>pre hdr post bs. writer_q (snd s) = q0 @ pre @ open_frame sid hdr # post \<and>
             (\<forall>f \<in> set pre. foreign sid f) \<and> length hdr = 9 \<and> own_data sid post = Some bs \<and> sent = hdr @ bs))"


lemma sender_inv_opened:
  assumes "ss_stream_id ss = sid" "\<not> ss_finished ss" "writer_up m" "\<not> closed m" "ss_pending_open ss = None"
    and "writer_q m = q0 @ pre @ open_frame sid hdr # post" "\<forall>f \<in> set pre. foreign sid f" "length hdr = 9"
    and "own_data sid post = Some bs" "sent = hdr @ bs"
  shows "sender_inv sid q0 sent (ss, m)"
  using assms by (auto simp: sender_inv_def)

lemma write_data_ok:
  assumes "writer_up m"
  shows "write_data k rest ss m =
    (Inr (k + length rest), ss,
     m\<lparr>writer_q := writer_q m @ (if rest = [] then [] else [data_frame (ss_stream_id ss) rest])\<rparr>)"
  using assms by (simp add: write_data_def writer_send_def)

lemma own_data_rest:
  "length rest < 2 ^ 32 \<Longrightarrow> own_data sid (if rest = [] then [] else [data_frame sid rest]) = Some rest"
  using own_data_data_frame [of rest sid] by simp

lemma sender_inv_write_pending:
  assumes inv: "sender_inv sid q0 sent (ss, m)" and pend: "ss_pending_open ss = Some p" and len: "length buf < 2 ^ 32"
  shows "sender_inv sid q0 (sent @ buf) (snd (poll_write buf ss m)) \<and> fst (poll_write buf ss m) = Inr (length buf)"
proof -
  obtain pre where pre: "writer_q m = q0 @ pre" "\<forall>f \<in> set pre. foreign sid f" "p = sent" "length p < 9"
    and ss: "ss_stream_id ss = sid" "\<not> ss_finished ss" "writer_up m" "\<not> closed m"
    using inv pend by (auto simp: sender_inv_def)
  let ?k = "min (9 - length p) (length buf)"
  show ?thesis
  proof (cases "length (p @ take ?k buf) = 9")
    case True
    define a rest where ar: "a = take ?k buf" "rest = drop ?k buf"
    have buf: "buf = a @ rest" "length a = ?k" "length rest < 2 ^ 32" using len by (auto simp: ar)
    have la: "length (p @ a) = 9" using True by (simp only: ar)
    let ?m = "m\<lparr>writer_q := writer_q m @ [open_frame sid (p @ a)]\<rparr>"
    have w: "poll_write buf ss m = write_data ?k rest (ss\<lparr>ss_pending_open := None\<rparr>) ?m"
      using True ss pend by (simp add: poll_write_def writer_send_def Let_def ar)
    have "sender_inv sid q0 (sent @ buf)
        (ss\<lparr>ss_pending_open := None\<rparr>,
         ?m\<lparr>writer_q := writer_q ?m @ (if rest = [] then [] else [data_frame sid rest])\<rparr>)"
      by (rule sender_inv_opened [where pre = pre and hdr = "p @ a" and bs = rest, OF _ _ _ _ _ _ _ _ own_data_rest])
        (use ss pre la buf(3) in \<open>simp_all add: buf(1)\<close>)
    moreover have "?k + length rest = length buf" using buf(1,2) by (metis length_append)
    ultimately show ?thesis unfolding w using ss by (cases "rest = []") (simp_all add: write_data_ok)
  next
    case False
    then have "length (p @ buf) < 9" "?k = length buf" using pre(4) by (auto simp: min_def split: if_splits)
    then show ?thesis
      using ss pend pre False by (simp add: poll_write_def Let_def sender_inv_def)
  qed
qed

lemma sender_inv_write_open:
  assumes inv: "sender_inv sid q0 sent (ss, m)" and pend: "ss_pending_open ss = None" and len: "length buf < 2 ^ 32"
  shows "sender_inv sid q0 (sent @ buf) (snd (poll_write buf ss m)) \<and> fst (poll_write buf ss m) = Inr (length buf)"
proof -
  obtain pre hdr post bs where q: "writer_q m = q0 @ pre @ open_frame sid hdr # post" "\<forall>f \<in> set pre. foreign sid f"
      "length hdr = 9" "own_data sid post = Some bs" "sent = hdr @ bs"
    and ss: "ss_stream_id ss = sid" "\<not> ss_finished ss" "writer_up m" "\<not> closed m"
    using inv pend by (auto simp: sender_inv_def)
  have w: "poll_write buf ss m = write_data 0 buf ss m" using ss pend by (simp add: poll_write_def)
  show ?thesis unfolding w write_data_ok [OF ss(3)]
    using ss pend q own_data_rest [OF len, of sid]
    by (auto simp: own_data_append intro!: sender_inv_opened [where pre = pre and hdr = hdr])
qed

lemma sender_inv_write:
  assumes "sender_inv sid q0 sent (ss, m)" "length buf < 2 ^ 32"
  shows "sender_inv sid q0 (sent @ buf) (snd (poll_write buf ss m)) \<and> fst (poll_write buf ss m) = Inr (length buf)"
  using assms sender_inv_write_pending sender_inv_write_open by (cases "ss_pending_open ss") blast+

lemma sender_inv_other:
  assumes "sender_inv sid q0 sent (ss, m)" "foreign sid f"
  shows "sender_inv sid q0 sent (ss, m\<lparr>writer_q := writer_q m @ [f]\<rparr>)"
proof (cases "ss_pending_open ss")
  case None
  then obtain pre hdr post bs where "writer_q m = q0 @ pre @ open_frame sid hdr # post" "\<forall>f \<in> set pre. foreign sid f"
      "length hdr = 9" "own_data sid post = Some bs" "sent = hdr @ bs"
    using assms(1) by (auto simp: sender_inv_def)
  with None assms show ?thesis
    by (intro sender_inv_opened [where pre = pre and hdr = hdr and post = "post @ [f]" and bs = bs])
      (auto simp: own_data_append sender_inv_def)
next
  case (Some p)
  with assms show ?thesis by (force simp: sender_inv_def)
qed

lemma sender_inv_run:
  "sender_inv sid q0 sent s \<Longrightarrow> events_ok sid evs \<Longrightarrow> sender_inv sid q0 (sent @ written evs) (send_run evs s)"
proof (induction evs arbitrary: sent s)
  case (Cons e evs)
  have ev: "events_ok sid evs" using Cons.prems(2) by (simp add: events_ok_def)
  show ?case
  proof (cases e)
    case (Write buf)
    then have "sender_inv sid q0 (sent @ buf) (snd (poll_write buf (fst s) (snd s)))"
      using Cons.prems sender_inv_write [of sid q0 sent "fst s" "snd s"] by (simp add: events_ok_def)
    from Cons.IH [OF this ev] show ?thesis by (simp add: Write)
  next
    case (Other f)
    then have "sender_inv sid q0 sent (fst s, (snd s)\<lparr>writer_q := writer_q (snd s) @ [f]\<rparr>)"
      using Cons.prems sender_inv_other [of sid q0 sent "fst s" "snd s"] by (simp add: events_ok_def)
    from Cons.IH [OF this ev] show ?thesis by (simp add: Other)
  qed
qed simp


lemma foreign_frames:
  "\<forall>f \<in> set fs. foreign sid f \<Longrightarrow> inbound sid (frames_of fs @ gs) = inbound sid gs \<and> (\<forall>f \<in> set (frames_of fs). mux_frame_ok f)"
  by (induction fs rule: frames_of.induct) auto

lemma frames_of_append_data:
  "own_data sid fs = Some bs \<Longrightarrow> frames_of (fs @ gs) = frames_of fs @ frames_of gs"
  by (induction fs arbitrary: bs rule: frames_of.induct) (auto split: if_splits)

lemma own_data_inbound:
  "own_data sid fs = Some bs \<Longrightarrow>
     inbound sid (frames_of (fs @ [fin_frame sid])) = bs \<and> (\<forall>f \<in> set (frames_of (fs @ [fin_frame sid])). mux_frame_ok f)"
proof (induction fs arbitrary: bs rule: frames_of.induct)
  case 1
  then show ?case by (simp add: fin_frame_def mux_frame_ok_def mux_header_ok_def)
next
  case (2 h p fs)
  then show ?case by (auto split: if_splits)
next
  case (3 fs)
  then show ?case by simp
qed

text \<open>Channel references handed out so far are below the next one.\<close>

definition chans_ok :: "Inner \<Rightarrow> bool" where
  "chans_ok m \<longleftrightarrow> (\<forall>s c. streams m s = Some c \<longrightarrow> c < next_chan m)"

lemma link_inv_accepted:
  assumes "chans_ok m1" "length hdr = 9" "own_data sid post = Some bs"
    and "reader_step eof (writer_task (open_frame sid hdr # post @ [fin_frame sid])) m1 = Continue m2 inp2"
  shows "link_inv sid (hdr @ bs) (inp2, m2, mk_recv sid (next_chan m1) hdr, [])"
proof -
  let ?h = "\<lparr>mh_flag = Open, mh_stream_id = sid, mh_payload_len = 9\<rparr> :: MuxHeader"
  have ok: "mux_frame_ok (?h, hdr)" using assms(2) by (simp add: mux_frame_ok_def mux_header_ok_def)
  have bytes: "writer_task (open_frame sid hdr # post @ [fin_frame sid]) =
      mux_frame_bytes (?h, hdr) @ concat (map mux_frame_bytes (frames_of (post @ [fin_frame sid])))"
    by (simp add: open_frame_def mux_frame_bytes_def writer_task_frames)
  have "dispatch (?h, hdr) (concat (map mux_frame_bytes (frames_of (post @ [fin_frame sid])))) m1 = Continue m2 inp2"
    using assms(4) by (simp add: bytes reader_step_frame [OF ok])
  note d = dispatch_Continue [OF this]
  then have m2: "streams m2 = (streams m1)(sid \<mapsto> next_chan m1)" "queues m2 = (queues m1)(next_chan m1 := [])"
    "next_chan m2 = Suc (next_chan m1)" "next_chan m1 \<in> rx_live m2"
    by (simp_all add: new_channel_def)
  have "streams m1 s \<noteq> Some (next_chan m1)" for s using assms(1) by (auto simp: chans_ok_def)
  moreover have "inp2 = concat (map mux_frame_bytes (frames_of (post @ [fin_frame sid])))" using d by simp
  ultimately show ?thesis
    using own_data_inbound [OF assms(3)]
    by (auto simp: link_inv_def mk_recv_def recv_unread_def m2 intro!: exI [of _ "frames_of (post @ [fin_frame sid])"])
qed

lemma link_inv_result:
  assumes "link_inv sid whole (inp, m, rv, got)"
  shows "prefix got whole \<and> (rv_eof rv \<longrightarrow> got = whole) \<and> (inp = [] \<and> recv_unread (m, rv) = [] \<longrightarrow> got = whole)"
proof -
  obtain fs where fs: "inp = concat (map mux_frame_bytes fs)"
    "got @ recv_unread (m, rv) @ (if streams m sid = Some (rv_data_rx rv) then inbound sid fs else []) = whole"
    "rv_eof rv \<longrightarrow> recv_unread (m, rv) = [] \<and> streams m sid \<noteq> Some (rv_data_rx rv)"
    using assms by (auto simp: link_inv_def)
  have "inp = [] \<Longrightarrow> fs = []"
    using fs(1) by (cases fs) (auto simp: mux_frame_bytes_def MuxHeader_to_bytes_def)
  with fs show ?thesis by (auto simp: prefix_def)
qed

subsection \<open>Draining\<close>

lemma read_pops:
  "rv_leftover rv \<noteq> [] \<Longrightarrow>
     mux_poll_read (length (rv_leftover rv)) (m, rv) = (Ready (rv_leftover rv), m, rv\<lparr>rv_leftover := []\<rparr>)"
  "rv_leftover rv = [] \<Longrightarrow> \<not> rv_eof rv \<Longrightarrow> queues m (rv_data_rx rv) = chunk # q \<Longrightarrow>
     mux_poll_read (length chunk) (m, rv) = (Ready chunk, m\<lparr>queues := (queues m)(rv_data_rx rv := q)\<rparr>, rv)"
  by (simp_all add: mux_poll_read_def Let_def)

lemma drain_queue:
  assumes "queues m (rv_data_rx rv) = q" "rv_leftover rv = []" "\<not> rv_eof rv"
  shows "\<exists>m'. (link_step sid)\<^sup>*\<^sup>* (inp, m, rv, got) (inp, m', rv, got @ concat q) \<and>
    queues m' (rv_data_rx rv) = [] \<and> streams m' = streams m"
  using assms
proof (induction q arbitrary: m got)
  case Nil
  then show ?case by auto
next
  case (Cons chunk q)
  let ?m = "m\<lparr>queues := (queues m)(rv_data_rx rv := q)\<rparr>"
  have "link_step sid (inp, m, rv, got) (inp, ?m, rv, got @ chunk)"
    by (rule link_read [OF read_pops(2)]) (use Cons.prems in auto)
  moreover obtain m' where "(link_step sid)\<^sup>*\<^sup>* (inp, ?m, rv, got @ chunk) (inp, m', rv, (got @ chunk) @ concat q)"
      "queues m' (rv_data_rx rv) = []" "streams m' = streams ?m"
    using Cons.IH [of ?m "got @ chunk"] Cons.prems by auto
  ultimately show ?case by (auto intro: converse_rtranclp_into_rtranclp)
qed

lemma drain_stream:
  assumes "\<not> rv_eof rv"
  shows "\<exists>m' rv' got'. (link_step sid)\<^sup>*\<^sup>* (inp, m, rv, got) (inp, m', rv', got') \<and>
    \<not> rv_eof rv' \<and> rv_leftover rv' = [] \<and> queues m' (rv_data_rx rv') = [] \<and>
    streams m' = streams m \<and> rv_data_rx rv' = rv_data_rx rv"
proof -
  let ?rv = "rv\<lparr>rv_leftover := []\<rparr>"
  have first: "(link_step sid)\<^sup>*\<^sup>* (inp, m, rv, got) (inp, m, ?rv, got @ rv_leftover rv)"
  proof (cases "rv_leftover rv = []")
    case True
    then have eq: "?rv = rv" by simp
    show ?thesis by (simp only: eq True append_Nil2 rtranclp.rtrancl_refl)
  next
    case False
    then show ?thesis using link_read [OF read_pops(1) [OF False]] by blast
  qed
  obtain m' where "(link_step sid)\<^sup>*\<^sup>* (inp, m, ?rv, got @ rv_leftover rv)
      (inp, m', ?rv, (got @ rv_leftover rv) @ concat (queues m (rv_data_rx rv)))" "queues m' (rv_data_rx rv) = []"
      "streams m' = streams m"
    using drain_queue [of m ?rv "queues m (rv_data_rx rv)" sid inp "got @ rv_leftover rv"] assms by auto
  then show ?thesis using first assms
    by (intro exI [of _ m'] exI [of _ ?rv] exI [of _ "(got @ rv_leftover rv) @ concat (queues m (rv_data_rx rv))"])
      (auto intro: rtranclp_trans)
qed

text \<open>A frame the reader can always handle for a drained stream.\<close>

definition deliverable :: "u32 \<Rightarrow> mux_frame \<Rightarrow> bool" where
  "deliverable sid f \<longleftrightarrow> mux_frame_ok f \<and> mh_stream_id (fst f) = sid \<and>
     (mh_flag (fst f) = Fin \<or> mh_flag (fst f) = Data \<and> mh_payload_len (fst f) \<le> MAX_MUX_PAYLOAD)"

lemma dispatch_deliverable:
  assumes "deliverable sid f" "\<forall>c. streams m sid = Some c \<longrightarrow> queues m c = []"
  shows "\<exists>m'. dispatch f rest m = Continue m' rest"
  using assms
  by (auto simp: deliverable_def dispatch_def dispatch_data_def dispatch_fin_def STREAM_INBOUND_CAPACITY_def
      split: option.split)

lemma drain_link:
  assumes "inp = concat (map mux_frame_bytes fs)" "\<forall>f \<in> set fs. deliverable sid f" "\<not> rv_eof rv"
    and "\<forall>s. streams m sid = Some s \<longrightarrow> s = rv_data_rx rv"
  shows "\<exists>m' rv' got'. (link_step sid)\<^sup>*\<^sup>* (inp, m, rv, got) ([], m', rv', got') \<and> recv_unread (m', rv') = []"
  using assms
proof (induction fs arbitrary: inp m rv got)
  case Nil
  then show ?case using drain_stream [of rv sid inp m got] by (force simp: recv_unread_def)
next
  case (Cons f fs)
  obtain m1 rv1 got1 where s1: "(link_step sid)\<^sup>*\<^sup>* (inp, m, rv, got) (inp, m1, rv1, got1)" "\<not> rv_eof rv1"
      "queues m1 (rv_data_rx rv1) = []" "streams m1 = streams m" "rv_data_rx rv1 = rv_data_rx rv"
    using drain_stream [OF Cons.prems(3)] by blast
  have f: "deliverable sid f" "mux_frame_ok f" using Cons.prems(2) by (auto simp: deliverable_def)
  let ?rest = "concat (map mux_frame_bytes fs)"
  obtain m2 where m2: "dispatch f ?rest m1 = Continue m2 ?rest"
    using dispatch_deliverable [OF f(1), of m1] s1(3-5) Cons.prems(4) by auto
  then have "link_step sid (inp, m1, rv1, got1) (?rest, m2, rv1, got1)"
    using Cons.prems(1) by (intro link_deliver [of False]) (simp add: reader_step_frame [OF f(2)])
  moreover have "\<forall>s. streams m2 sid = Some s \<longrightarrow> s = rv_data_rx rv1"
    using dispatch_Continue [of "fst f" "snd f" ?rest m1 m2 ?rest] m2 f(1) s1(4,5) Cons.prems(4) by (auto simp: deliverable_def)
  ultimately show ?case
    using Cons.IH [OF refl _ s1(2)] Cons.prems(2) s1(1)
    by (meson list.set_intros(2) rtranclp.rtrancl_into_rtrancl rtranclp_trans)
qed

section \<open>Properties\<close>






text \<open>
  stream ids. The server's ids are odd and never the Control id; the client's are
  even; so the two sides never mint the same id, also after the counter wraps.
\<close>

theorem minted_ids_disjoint:
  "is_server_opened (fst (mint_stream_id (((snd \<circ> mint_stream_id) ^^ i) (mux_new True)))) \<and>
   even (fst (mint_stream_id (((snd \<circ> mint_stream_id) ^^ j) (mux_new False)))) \<and>
   fst (mint_stream_id (((snd \<circ> mint_stream_id) ^^ i) (mux_new True))) \<noteq>
     fst (mint_stream_id (((snd \<circ> mint_stream_id) ^^ j) (mux_new False)))"
proof -
  have nth: "fst (mint_stream_id (((snd \<circ> mint_stream_id) ^^ k) m)) = next_stream_id m + 2 * word_of_nat k" for k m
    by (induction k) (auto simp: mint_stream_id_def algebra_simps)
  have start: "next_stream_id (mux_new b) = (if b then 1 else 2)" for b
    by (simp add: mux_new_def Let_def)
  have odd: "odd (1 + 2 * w)" and even: "even (2 + 2 * w)" for w :: u32
    by simp_all
  have "1 + 2 * (word_of_nat i :: u32) \<noteq> 2 + 2 * word_of_nat j"
    using odd [of "word_of_nat i"] even [of "word_of_nat j"] by metis
  moreover have "1 + 2 * (word_of_nat i :: u32) \<noteq> 0"
    using odd [of "word_of_nat i"] by (metis dvd_0_right)
  ultimately show ?thesis
    using odd [of "word_of_nat i"] even [of "word_of_nat j"]
    by (simp add: nth start is_server_opened_def CONTROL_STREAM_ID_def even_iff_mod_2_eq_zero)
qed

text \<open>
  a Control frame written by \<^verbatim>\<open>write_frame\<close> and buffered anywhere between the
  leftover and the queue of a mux stream is read back by \<^verbatim>\<open>read_frame\<close>, which leaves
  exactly the following bytes unread.
\<close>

theorem mux_read_frame:
  assumes "recv_ok (m, rv)" "encode_frame ser v [] = Inr (n, f)" "ser v = Inr p" "de p = Inr v"
    and "recv_unread (m, rv) = f @ rest"
  shows "\<exists>s'. read_frame mux_poll_read de (m, rv) = (Ready (Inr v), s') \<and> recv_unread s' = rest"
proof -
  have "decode_frame de (recv_unread (m, rv)) = Inr (v, length f)"
    using assms(2-5) decode_frame_of_payload [of p de rest] by (auto simp: encode_frame_eq split: if_splits)
  from mux_source.read_frame_complete [OF assms(1) this] show ?thesis using assms(5) by auto
qed

theorem mux_read_frame_witness:
  "\<exists>s'. read_frame mux_poll_read Inr
      ((mux_new True)\<lparr>queues := (\<lambda>_. [])(0 := [[2, 0xAA], [0xBB, 9]])\<rparr>, mk_recv 0 0 []) =
        (Ready (Inr [0xAA, 0xBB]), s') \<and> recv_unread s' = [9]"
proof (rule mux_read_frame [where ser = Inr and n = 3 and f = "[2, 0xAA, 0xBB]"])
  show "encode_frame Inr [0xAA, 0xBB] [] = Inr (3, [2, 0xAA, 0xBB])"
    by (simp add: encode_frame_eq frame_of_payload_def write_varint_u32_last MAX_FRAME_SIZE_def)
qed (simp_all add: recv_ok_def recv_unread_def mk_recv_def)

text \<open>
  an oversized write breaks the connection. A single \<^verbatim>\<open>poll_write\<close> of more than
  256 KiB is accepted in full and enqueued as one DATA frame, on which the peer's
  reader task exits.
\<close>

theorem oversized_write_kills_peer_reader:
  assumes "ss_pending_open ss = None" "\<not> ss_finished ss" "writer_up m" "\<not> closed m"
    and "unat MAX_MUX_PAYLOAD < length buf" "length buf < 2 ^ 32"
  shows "\<exists>f. poll_write buf ss m = (Inr (length buf), ss, m\<lparr>writer_q := writer_q m @ [f]\<rparr>) \<and>
    (\<forall>eof rest m'. reader_step eof (writer_task [f] @ rest) m' = Exit (m'\<lparr>closed := True\<rparr>))"
proof -
  let ?f = "data_frame (ss_stream_id ss) buf"
  let ?h = "\<lparr>mh_flag = Data, mh_stream_id = ss_stream_id ss, mh_payload_len = word_of_nat (length buf)\<rparr> :: MuxHeader"
  have len: "unat (word_of_nat (length buf) :: u32) = length buf" using assms(6) by (simp add: unat_of_nat)
  have ok: "mux_frame_ok (?h, buf)" by (simp add: mux_frame_ok_def mux_header_ok_def len)
  have "poll_write buf ss m = (Inr (length buf), ss, m\<lparr>writer_q := writer_q m @ [?f]\<rparr>)"
    using assms by (auto simp: poll_write_def write_data_ok)
  moreover have "reader_step eof (writer_task [?f] @ rest) m' = Exit (m'\<lparr>closed := True\<rparr>)" for eof rest m'
    using reader_step_frame [OF ok, of eof rest m'] assms(5)
    by (simp add: data_frame_def mux_frame_bytes_def dispatch_def reader_exit_def word_less_nat_alt len)
  ultimately show ?thesis by blast
qed

theorem oversized_write_kills_peer_reader_witness:
  "\<exists>f. poll_write (replicate 300000 0) (mk_send 1 None) (mux_new True) =
     (Inr (length (replicate 300000 (0 :: u8))), mk_send 1 None,
      (mux_new True)\<lparr>writer_q := writer_q (mux_new True) @ [f]\<rparr>)"
  using oversized_write_kills_peer_reader [of "mk_send 1 None" "mux_new True" "replicate 300000 0"]
  by (auto simp: mk_send_def mux_new_def Let_def MAX_MUX_PAYLOAD_def)

text \<open>
  when the reader task exits, the inbound senders stay registered, so a stream
  whose FIN has not arrived keeps returning \<^verbatim>\<open>Pending\<close> and never reports the end.
\<close>

theorem reader_exit_leaves_streams_pending:
  assumes "reader_step eof inp m = Exit m'" "streams m (rv_stream_id rv) = Some (rv_data_rx rv)"
    and "recv_unread (m, rv) = []" "recv_ok (m, rv)"
  shows "closed m' \<and> mux_poll_read n (m', rv) = (Pending, m', rv)"
proof -
  have m': "m' = m\<lparr>closed := True\<rparr>"
    using assms(1) by (auto simp: reader_step_def short_read_def reader_exit_def dispatch_open_def
        dispatch_data_def dispatch_fin_def Let_def split: if_splits sum.splits MuxFlag.splits option.splits prod.splits)
  have "\<not> recv_ended (m, rv)" using assms(2) by (auto simp: recv_ended_def sender_gone_def ran_def)
  moreover have "queues m (rv_data_rx rv) = []"
    using assms(3,4) by (cases "queues m (rv_data_rx rv)") (auto simp: recv_unread_def recv_ok_def)
  ultimately show ?thesis
    using assms(3,4) by (auto simp: m' mux_poll_read_def recv_ok_def recv_ended_def recv_unread_def sender_gone_def)
qed

theorem reader_exit_leaves_streams_pending_witness:
  "mux_poll_read 10 ((mux_new True)\<lparr>closed := True\<rparr>, mk_recv 0 0 []) =
     (Pending, (mux_new True)\<lparr>closed := True\<rparr>, mk_recv 0 0 [])"
proof -
  have "reader_step True [] (mux_new True) = Exit ((mux_new True)\<lparr>closed := True\<rparr>)"
    by (simp add: reader_step_def MUX_HEADER_SIZE_def short_read_def reader_exit_def)
  from reader_exit_leaves_streams_pending [OF this, of "mk_recv 0 0 []" 10] show ?thesis
    by (simp add: mux_new_def mk_recv_def CONTROL_STREAM_ID_def recv_unread_def recv_ok_def Let_def)
qed

text \<open>
  an OPEN frame whose id is already in use replaces the stream's sender: the
  stream that held the id is ended and later DATA goes to the new one.
\<close>

theorem open_reuse_ends_stream:
  assumes "mux_frame_ok (h, p)" "mh_flag h = Open" "mh_stream_id h \<noteq> CONTROL_STREAM_ID"
    and "streams m (mh_stream_id h) = Some (rv_data_rx rv)" "chans_ok m"
    and "\<forall>s. s \<noteq> mh_stream_id h \<longrightarrow> streams m s \<noteq> Some (rv_data_rx rv)"
  shows "\<exists>m'. reader_step eof (mux_frame_bytes (h, p) @ rest) m = Continue m' rest \<and>
    recv_ended (m', rv) \<and> \<not> recv_ended (m, rv)"
proof -
  let ?m = "(snd (new_channel m))\<lparr>streams := (streams m)(mh_stream_id h \<mapsto> next_chan m),
      accept_q := accept_q m @ [\<lparr>as_stream_id = mh_stream_id h, as_open_payload = p, as_data_rx = next_chan m\<rparr>]\<rparr>"
  have "rv_data_rx rv \<noteq> next_chan m" using assms(4,5) unfolding chans_ok_def by (metis less_irrefl)
  then have "recv_ended (?m, rv)"
    using assms(6) by (auto simp: recv_ended_def sender_gone_def ran_def split: if_splits)
  moreover have "\<not> recv_ended (m, rv)" using assms(4) by (auto simp: recv_ended_def sender_gone_def ran_def)
  moreover have "reader_step eof (mux_frame_bytes (h, p) @ rest) m = Continue ?m rest"
    using assms(2,3) by (simp add: reader_step_frame [OF assms(1)] dispatch_def dispatch_open_def new_channel_def)
  ultimately show ?thesis by blast
qed

theorem open_reuse_ends_stream_witness:
  "\<exists>m'. reader_step False (mux_frame_bytes (\<lparr>mh_flag = Open, mh_stream_id = 2, mh_payload_len = 9\<rparr>, replicate 9 0) @ [])
      ((mux_new True)\<lparr>streams := [2 \<mapsto> 1], next_chan := 2\<rparr>) = Continue m' [] \<and>
     recv_ended (m', mk_recv 2 1 []) \<and>
     \<not> recv_ended ((mux_new True)\<lparr>streams := [2 \<mapsto> 1], next_chan := 2\<rparr>, mk_recv 2 1 [])"
  by (rule open_reuse_ends_stream)
    (simp_all add: mux_frame_ok_def mux_header_ok_def CONTROL_STREAM_ID_def mk_recv_def chans_ok_def)

end
