(* ===== verification/Rust_Str.thy ===== *)
theory Rust_Str
  imports Krot_Prelude
begin

text \<open>
  The methods of Rust's \<^verbatim>\<open>str\<close> and of its integer parsers that the sources call, on
  strings of UTF-8 bytes: \<^verbatim>\<open>trim\<close>, \<^verbatim>\<open>split\<close>, \<^verbatim>\<open>split_once\<close>, \<^verbatim>\<open>rsplit_once\<close>,
  \<^verbatim>\<open>split_whitespace\<close>, \<^verbatim>\<open>lines\<close>, the ASCII case functions, \<^verbatim>\<open>parse\<close> of an unsigned
  integer and its \<^verbatim>\<open>Display\<close>.
\<close>

section \<open>White space\<close>

text \<open>The UTF-8 encodings of the code points with the property White\_Space.\<close>

definition ws_seqs :: "string list" where
  "ws_seqs =
    map (\<lambda>bs. map char_of bs)
      ([[9], [10], [11], [12], [13], [32], [0xC2, 0x85], [0xC2, 0xA0], [0xE1, 0x9A, 0x80]] @
       map (\<lambda>b. [0xE2, 0x80, b]) [0x80 ..< 0x8B] @
       [[0xE2, 0x80, 0xA8], [0xE2, 0x80, 0xA9], [0xE2, 0x80, 0xAF], [0xE2, 0x81, 0x9F], [0xE3, 0x80, 0x80 :: nat]])"

definition ws_len :: "string list \<Rightarrow> string \<Rightarrow> nat" where
  "ws_len seqs s = (case find (\<lambda>w. w \<noteq> [] \<and> take (length w) s = w) seqs of None \<Rightarrow> 0 | Some w \<Rightarrow> length w)"

lemma ws_len_le: "ws_len seqs s \<le> length s"
proof (cases "find (\<lambda>w. w \<noteq> [] \<and> take (length w) s = w) seqs")
  case (Some w)
  then have "take (length w) s = w" using find_Some_iff' by fastforce
  then show ?thesis using Some by (metis (no_types, lifting) ws_len_def length_take min.cobounded1 option.simps(5))
qed (simp add: ws_len_def)

function strip_seqs :: "string list \<Rightarrow> string \<Rightarrow> string" where
  "strip_seqs seqs s = (if ws_len seqs s = 0 then s else strip_seqs seqs (drop (ws_len seqs s) s))"
  by pat_completeness auto
termination
proof (relation "measure (\<lambda>(seqs, s). length s)", simp)
  fix seqs :: "string list" and s :: string
  assume "ws_len seqs s \<noteq> 0"
  then show "((seqs, drop (ws_len seqs s) s), seqs, s) \<in> measure (\<lambda>(seqs, s). length s)"
    using ws_len_le [of seqs s] by (cases s) auto
qed

declare strip_seqs.simps [simp del]

definition trim_start :: "string \<Rightarrow> string" where
  "trim_start s = strip_seqs ws_seqs s"

definition trim_end :: "string \<Rightarrow> string" where
  "trim_end s = rev (strip_seqs (map rev ws_seqs) (rev s))"

definition trim :: "string \<Rightarrow> string" where
  "trim s = trim_end (trim_start s)"

function split_ws_aux :: "string \<Rightarrow> string \<Rightarrow> string list" where
  "split_ws_aux cur s =
    (if s = [] then (if cur = [] then [] else [cur])
     else if ws_len ws_seqs s = 0 then split_ws_aux (cur @ [hd s]) (tl s)
     else (if cur = [] then [] else [cur]) @ split_ws_aux [] (drop (ws_len ws_seqs s) s))"
  by pat_completeness auto
termination
proof (relation "measure (\<lambda>(cur, s). length s)", goal_cases)
  case (3 cur s)
  then show ?case using ws_len_le [of ws_seqs s] by (cases s) auto
qed auto

declare split_ws_aux.simps [simp del]

definition split_whitespace :: "string \<Rightarrow> string list" where
  "split_whitespace s = split_ws_aux [] s"

section \<open>Splitting\<close>

fun split_on :: "char \<Rightarrow> string \<Rightarrow> string list" where
  "split_on c [] = [[]]"
| "split_on c (x # xs) =
    (if x = c then [] # split_on c xs
     else case split_on c xs of [] \<Rightarrow> [[x]] | y # ys \<Rightarrow> (x # y) # ys)"

fun join :: "string \<Rightarrow> string list \<Rightarrow> string" where
  "join sep [] = []"
| "join sep [x] = x"
| "join sep (x # y # ys) = x @ sep @ join sep (y # ys)"

fun split_once :: "char \<Rightarrow> string \<Rightarrow> (string \<times> string) option" where
  "split_once c [] = None"
| "split_once c (x # xs) =
    (if x = c then Some ([], xs)
     else case split_once c xs of None \<Rightarrow> None | Some (a, b) \<Rightarrow> Some (x # a, b))"

definition rsplit_once :: "char \<Rightarrow> string \<Rightarrow> (string \<times> string) option" where
  "rsplit_once c s =
    (case split_once c (rev s) of None \<Rightarrow> None | Some (a, b) \<Rightarrow> Some (rev b, rev a))"

definition strip_cr :: "string \<Rightarrow> string" where
  "strip_cr s = (if s \<noteq> [] \<and> last s = CHR 0x0D then butlast s else s)"

definition str_lines :: "string \<Rightarrow> string list" where
  "str_lines s =
    (let ps = split_on CHR 0x0A s
     in map strip_cr (butlast ps) @ (if last ps = [] then [] else [last ps]))"

definition starts_with :: "string \<Rightarrow> string \<Rightarrow> bool" where
  "starts_with s p \<longleftrightarrow> take (length p) s = p"

definition ends_with :: "string \<Rightarrow> string \<Rightarrow> bool" where
  "ends_with s p \<longleftrightarrow> length p \<le> length s \<and> drop (length s - length p) s = p"

definition strip_suffix :: "string \<Rightarrow> string \<Rightarrow> string option" where
  "strip_suffix s p = (if ends_with s p then Some (take (length s - length p) s) else None)"

definition strip_prefix :: "string \<Rightarrow> string \<Rightarrow> string option" where
  "strip_prefix s p = (if starts_with s p then Some (drop (length p) s) else None)"

section \<open>ASCII case\<close>

definition to_ascii_lower :: "char \<Rightarrow> char" where
  "to_ascii_lower c = (if is_ascii_uppercase c then char_of (of_char c + 32 :: nat) else c)"

definition to_ascii_lowercase :: "string \<Rightarrow> string" where
  "to_ascii_lowercase s = map to_ascii_lower s"

definition eq_ignore_ascii_case :: "string \<Rightarrow> string \<Rightarrow> bool" where
  "eq_ignore_ascii_case a b \<longleftrightarrow> to_ascii_lowercase a = to_ascii_lowercase b"

section \<open>Unsigned integers\<close>

definition digit_val :: "char \<Rightarrow> nat" where
  "digit_val c = of_char c - 48"

definition digits_val :: "string \<Rightarrow> nat" where
  "digits_val s = foldl (\<lambda>a c. 10 * a + digit_val c) 0 s"

text \<open>\<^verbatim>\<open>parse\<close> of a \<^verbatim>\<open>w\<close>-bit unsigned integer: an optional plus sign, then digits.\<close>

definition parse_uint :: "nat \<Rightarrow> string \<Rightarrow> nat option" where
  "parse_uint w s =
    (let ds = (case s of c # cs \<Rightarrow> if c = CHR ''+'' then cs else s | [] \<Rightarrow> s)
     in if ds = [] \<or> \<not> list_all is_ascii_digit ds then None
        else if digits_val ds < 2 ^ w then Some (digits_val ds) else None)"

fun show_nat :: "nat \<Rightarrow> string" where
  "show_nat n = (if n < 10 then [char_of (48 + n)] else show_nat (n div 10) @ [char_of (48 + n mod 10)])"

declare show_nat.simps [simp del]

section \<open>Facts\<close>

lemma split_on_nonempty [simp]: "split_on c s \<noteq> []"
  by (induction s) (auto split: list.split)

lemma split_on_no_sep: "c \<notin> set s \<Longrightarrow> split_on c s = [s]"
  by (induction s) auto

lemma split_on_append:
  "c \<notin> set a \<Longrightarrow> split_on c (a @ c # b) = a # split_on c b"
  by (induction a) auto

lemma join_split_on: "join [c] (split_on c s) = s"
proof (induction s)
  case (Cons x xs)
  obtain y ys where "split_on c xs = y # ys" by (cases "split_on c xs") auto
  with Cons show ?case by (cases ys) auto
qed simp

lemma split_on_pieces: "p \<in> set (split_on c s) \<Longrightarrow> c \<notin> set p"
  by (induction s arbitrary: p) (auto split: list.splits if_splits)

lemma split_once_Some: "split_once c s = Some (a, b) \<longleftrightarrow> s = a @ c # b \<and> c \<notin> set a"
proof (induction s arbitrary: a)
  case (Cons x xs)
  show ?case
  proof (cases a)
    case Nil
    then show ?thesis by (auto split: option.split)
  next
    case (Cons y ys)
    then show ?thesis using Cons.IH [of ys] by (auto split: option.split)
  qed
qed simp

lemma split_once_None: "split_once c s = None \<longleftrightarrow> c \<notin> set s"
  by (induction s) (auto split: option.splits)

lemma rsplit_once_Some: "rsplit_once c s = Some (a, b) \<longleftrightarrow> s = a @ c # b \<and> c \<notin> set b"
proof -
  have "rsplit_once c s = Some (a, b) \<longleftrightarrow> split_once c (rev s) = Some (rev b, rev a)"
    by (auto simp: rsplit_once_def split: option.splits)
  also have "\<dots> \<longleftrightarrow> rev s = rev b @ c # rev a \<and> c \<notin> set b" by (simp add: split_once_Some)
  also have "\<dots> \<longleftrightarrow> s = a @ c # b \<and> c \<notin> set b" by (metis append.assoc append_Cons append_Nil rev.simps(2) rev_append rev_rev_ident)
  finally show ?thesis .
qed

lemma digit_char: "n < 10 \<Longrightarrow> is_ascii_digit (char_of (48 + n)) \<and> digit_val (char_of (48 + n)) = n"
  by (simp add: is_ascii_digit_def digit_val_def less_eq_char_def)

lemma digits_val_snoc: "digits_val (s @ [c]) = 10 * digits_val s + digit_val c"
  by (simp add: digits_val_def)

lemma show_nat_digits: "list_all is_ascii_digit (show_nat n) \<and> show_nat n \<noteq> []"
proof (induction n rule: show_nat.induct)
  case (1 n)
  then show ?case
    using digit_char [of "n mod 10"] digit_char [of n]
    by (subst (1 2) show_nat.simps) (auto simp: list_all_append)
qed

lemma digits_val_show_nat [simp]: "digits_val (show_nat n) = n"
proof (induction n rule: show_nat.induct)
  case (1 n)
  then show ?case
    using digit_char [of "n mod 10"] digit_char [of n]
    by (subst show_nat.simps) (auto simp: digits_val_snoc digits_val_def)
qed

lemma plus_not_digit: "\<not> is_ascii_digit CHR ''+''"
  by (simp add: is_ascii_digit_def less_eq_char_def)

lemma parse_show_nat: "n < 2 ^ w \<Longrightarrow> parse_uint w (show_nat n) = Some n"
  using show_nat_digits [of n] plus_not_digit digits_val_show_nat [of n]
  by (cases "show_nat n") (auto simp: parse_uint_def Let_def)

lemma parse_uint_bound: "parse_uint w s = Some n \<Longrightarrow> n < 2 ^ w"
  by (auto simp: parse_uint_def Let_def split: if_splits)

definition graphic :: "char \<Rightarrow> bool" where
  "graphic c \<longleftrightarrow> 33 \<le> (of_char c :: nat) \<and> (of_char c :: nat) \<le> 126"

lemma ws_seqs_ends: "\<forall>w \<in> set ws_seqs. w \<noteq> [] \<and> \<not> graphic (hd w) \<and> \<not> graphic (last w)"
  by (simp add: ws_seqs_def graphic_def upt_rec)

lemma ws_len_0:
  assumes "s = [] \<or> hd s \<notin> hd ` set seqs"
  shows "ws_len seqs s = 0"
proof (cases "find (\<lambda>w. w \<noteq> [] \<and> take (length w) s = w) seqs")
  case (Some w)
  then have w: "w \<in> set seqs" "w \<noteq> []" "take (length w) s = w" using find_Some_iff' by fastforce+
  have "hd w = hd s" using w(2,3) by (metis hd_take length_greater_0_conv)
  moreover have "s \<noteq> []" using w(2,3) by auto
  ultimately have "ws_len seqs s = 0" if "hd s \<notin> hd ` set seqs" using that w(1) by (metis imageI)
  with assms \<open>s \<noteq> []\<close> show ?thesis by simp
qed (simp add: ws_len_def)

lemma trim_graphic:
  assumes "s \<noteq> []" "graphic (hd s)" "graphic (last s)"
  shows "trim s = s"
proof -
  have "hd s \<notin> hd ` set ws_seqs" "hd (rev s) \<notin> hd ` set (map rev ws_seqs)"
    using assms ws_seqs_ends by (auto simp: hd_rev image_iff)
  then have "ws_len ws_seqs s = 0" "ws_len (map rev ws_seqs) (rev s) = 0"
    by (auto intro: ws_len_0)
  then show ?thesis by (simp add: trim_def trim_start_def trim_end_def strip_seqs.simps)
qed

lemma trim_Nil: "trim [] = []"
  by (simp add: trim_def trim_start_def trim_end_def strip_seqs.simps ws_len_0)

lemma digit_graphic: "is_ascii_digit c \<Longrightarrow> graphic c"
  by (simp add: is_ascii_digit_def graphic_def less_eq_char_def)

lemma ws_len_graphic: "graphic c \<Longrightarrow> ws_len ws_seqs (c # s) = 0"
  using ws_seqs_ends by (intro ws_len_0) auto

lemma ws_len_space: "ws_len ws_seqs (CHR '' '' # s) = 1"
proof -
  have "char_of (n :: nat) = CHR '' '' \<longleftrightarrow> n mod 256 = 32" for n
    by (auto simp: char_of_eq_iff take_bit_eq_mod)
  then show ?thesis by (simp add: ws_len_def ws_seqs_def eq_commute [of "CHR '' ''"])
qed

lemma split_ws_end: "split_ws_aux cur [] = (if cur = [] then [] else [cur])"
  by (simp add: split_ws_aux.simps)

lemma split_ws_graphic: "graphic c \<Longrightarrow> split_ws_aux cur (c # s) = split_ws_aux (cur @ [c]) s"
  by (subst split_ws_aux.simps) (simp add: ws_len_graphic)

lemma split_ws_space:
  "split_ws_aux cur (CHR '' '' # s) = (if cur = [] then [] else [cur]) @ split_ws_aux [] s"
  by (subst split_ws_aux.simps) (simp add: ws_len_space)

lemma split_ws_word: "list_all graphic w \<Longrightarrow> split_ws_aux cur (w @ s) = split_ws_aux (cur @ w) s"
  by (induction w arbitrary: cur) (simp_all add: split_ws_graphic)

text \<open>What evaluates the string operations on concrete arguments.\<close>

lemmas str_eval = split_whitespace_def split_ws_end split_ws_graphic split_ws_space trim_graphic trim_Nil
  graphic_def str_lines_def strip_cr_def starts_with_def ends_with_def

lemma ws_len_rev_space: "ws_len (map rev ws_seqs) (CHR '' '' # s) = 1"
proof -
  have "char_of (n :: nat) = CHR '' '' \<longleftrightarrow> n mod 256 = 32" for n
    by (auto simp: char_of_eq_iff take_bit_eq_mod)
  then show ?thesis by (simp add: ws_len_def ws_seqs_def eq_commute [of "CHR '' ''"] upt_rec)
qed

lemma trim_space_end:
  assumes "s \<noteq> []" "graphic (hd s)" "graphic (last s)"
  shows "trim (s @ '' '') = s"
proof -
  have "hd s \<notin> hd ` set ws_seqs" "hd (rev s) \<notin> hd ` set (map rev ws_seqs)"
    using assms ws_seqs_ends by (auto simp: hd_rev image_iff)
  then have "ws_len ws_seqs (s @ '' '') = 0" "ws_len (map rev ws_seqs) (rev s) = 0"
    using assms(1) by (auto intro!: ws_len_0)
  then show ?thesis
    by (simp add: trim_def trim_start_def trim_end_def strip_seqs.simps [of ws_seqs]
        strip_seqs.simps [of "map rev ws_seqs" "CHR '' '' # rev s"] strip_seqs.simps [of "map rev ws_seqs" "rev s"]
        ws_len_rev_space)
qed

end
