(* ===== verification/Rate.thy ===== *)
theory Rate
  imports Proto_Wire Rust_Str
begin

text \<open>
  Per-identity rate limiting, \<^verbatim>\<open>krot-server/src/rate.rs\<close>: the \<^verbatim>\<open>bw=\<close> and \<^verbatim>\<open>quota=\<close>
  grammar, the bandwidth split across workers, the period quota and the metered
  byte shovel, with \<^verbatim>\<open>format_rate\<close> of \<^verbatim>\<open>admin_api.rs\<close>. The \<^verbatim>\<open>governor\<close> buckets are kept
  as their configured rates. Counters are 64-bit words, instants are milliseconds.
\<close>

section \<open>Rates\<close>

datatype Period = Second | Minute | Hour | Day | Week | Month

fun period_secs :: "Period \<Rightarrow> u64" where
  "period_secs Second = 1"
| "period_secs Minute = 60"
| "period_secs Hour = 60 * 60"
| "period_secs Day = 24 * 60 * 60"
| "period_secs Week = 7 * 24 * 60 * 60"
| "period_secs Month = 30 * 24 * 60 * 60"

record RatePer =
  rp_bytes :: u64
  rp_period :: Period

definition div_ceil :: "u64 \<Rightarrow> u64 \<Rightarrow> u64" where
  "div_ceil a b = (if a mod b = 0 then a div b else a div b + 1)"

definition as_bytes_per_second :: "RatePer \<Rightarrow> u64" where
  "as_bytes_per_second r = div_ceil (rp_bytes r) (max (period_secs (rp_period r)) 1)"

definition parse_period :: "string \<Rightarrow> Period option" where
  "parse_period p =
    (if p \<in> {''s'', ''sec'', ''second''} then Some Second
     else if p \<in> {''m'', ''min'', ''minute''} then Some Minute
     else if p \<in> {''h'', ''hr'', ''hour''} then Some Hour
     else if p \<in> {''d'', ''day''} then Some Day
     else if p \<in> {''w'', ''week''} then Some Week
     else if p \<in> {''mo'', ''month''} then Some Month
     else None)"

definition unit_mul :: "string \<Rightarrow> nat option" where
  "unit_mul u =
    (if u \<in> {'''', ''B''} then Some 1
     else if u \<in> {''KB'', ''kB''} then Some 1000
     else if u = ''KiB'' then Some 1024
     else if u = ''MB'' then Some 1000000
     else if u = ''MiB'' then Some (1024 * 1024)
     else if u = ''GB'' then Some 1000000000
     else if u = ''GiB'' then Some (1024 * 1024 * 1024)
     else if u = ''TB'' then Some 1000000000000
     else if u = ''TiB'' then Some (1024 ^ 4)
     else None)"

definition parse_bytes :: "string \<Rightarrow> u64 option" where
  "parse_bytes s =
    (let num = takeWhile is_ascii_digit s; u = dropWhile is_ascii_digit s
     in case parse_uint 64 num of
          None \<Rightarrow> None
        | Some n \<Rightarrow>
           (case unit_mul (trim u) of
              None \<Rightarrow> None
            | Some mul \<Rightarrow> if n * mul < 2 ^ 64 then Some (word_of_nat (n * mul)) else None))"

definition parse_rate_per :: "string \<Rightarrow> RatePer option" where
  "parse_rate_per s =
    (case rsplit_once CHR ''/'' s of
       None \<Rightarrow> None
     | Some (amount, period) \<Rightarrow>
        (case parse_period (trim period) of
           None \<Rightarrow> None
         | Some p \<Rightarrow>
            (case parse_bytes (trim amount) of
               None \<Rightarrow> None
             | Some b \<Rightarrow> Some \<lparr>rp_bytes = b, rp_period = p\<rparr>)))"

fun period_suffix :: "Period \<Rightarrow> string" where
  "period_suffix Second = ''s''"
| "period_suffix Minute = ''m''"
| "period_suffix Hour = ''h''"
| "period_suffix Day = ''day''"
| "period_suffix Week = ''week''"
| "period_suffix Month = ''month''"

definition format_rate :: "RatePer \<Rightarrow> string" where
  "format_rate r = show_nat (unat (rp_bytes r)) @ ''B/'' @ period_suffix (rp_period r)"

section \<open>Limits of an identity\<close>

datatype Charge = ChargeOk | QuotaExceeded u32

record RateLimitState =
  rl_bw :: "u32 list option"
  rl_quota_cap :: "u64 option"
  rl_quota_period :: Period
  rl_quota_used :: u64
  rl_quota_reset_at :: nat
  rl_ctrl_tx :: "ServerFrame list option"
  rl_metric_exceeded :: "u64 option"

definition period_ms :: "Period \<Rightarrow> nat" where
  "period_ms p = unat (period_secs p) * 1000"

definition bw_buckets :: "RatePer \<Rightarrow> nat \<Rightarrow> u32 list option" where
  "bw_buckets r partitions =
    (let total_bps = min (as_bytes_per_second r) 0xFFFFFFFF;
         per_core_bps = max (total_bps div word_of_nat partitions) 1;
         bps = (ucast per_core_bps :: u32)
     in if bps = 0 then None else Some (replicate partitions bps))"

definition from_entry_with_metrics ::
  "nat \<Rightarrow> RatePer option \<Rightarrow> RatePer option \<Rightarrow> nat \<Rightarrow> u64 option \<Rightarrow> RateLimitState" where
  "from_entry_with_metrics now bw quota bw_partitions metrics =
    (let partitions = max bw_partitions 1;
         period = (case quota of Some q \<Rightarrow> rp_period q | None \<Rightarrow> Month)
     in \<lparr>rl_bw = (case bw of None \<Rightarrow> None | Some r \<Rightarrow> bw_buckets r partitions),
         rl_quota_cap = map_option rp_bytes quota,
         rl_quota_period = period,
         rl_quota_used = 0,
         rl_quota_reset_at = now + period_ms period,
         rl_ctrl_tx = None,
         rl_metric_exceeded = metrics\<rparr>)"

definition from_entry :: "nat \<Rightarrow> RatePer option \<Rightarrow> RatePer option \<Rightarrow> nat \<Rightarrow> RateLimitState" where
  "from_entry now bw quota bw_partitions = from_entry_with_metrics now bw quota bw_partitions None"

definition attach_ctrl :: "RateLimitState \<Rightarrow> RateLimitState" where
  "attach_ctrl rl = rl\<lparr>rl_ctrl_tx := Some []\<rparr>"

definition detach_ctrl :: "RateLimitState \<Rightarrow> RateLimitState" where
  "detach_ctrl rl = rl\<lparr>rl_ctrl_tx := None\<rparr>"

text \<open>The bucket and the number of tokens that a worker awaits before forwarding.\<close>

definition throttle :: "nat \<Rightarrow> u32 \<Rightarrow> RateLimitState \<Rightarrow> (nat \<times> u32) option" where
  "throttle worker n rl =
    (case rl_bw rl of
       None \<Rightarrow> None
     | Some buckets \<Rightarrow> if n = 0 then None else Some (worker mod length buckets, n))"

definition retry_after_ms :: "nat \<Rightarrow> RateLimitState \<Rightarrow> u32" where
  "retry_after_ms now rl =
    (let d = rl_quota_reset_at rl - now in if d < 2 ^ 32 then word_of_nat d else - 1)"

text \<open>\<^verbatim>\<open>now\<close> and \<^verbatim>\<open>now'\<close> are the two clock readings; the sum wraps as in a release build.\<close>

definition roll_quota :: "nat \<Rightarrow> RateLimitState \<Rightarrow> RateLimitState" where
  "roll_quota now rl =
    (if rl_quota_reset_at rl \<le> now
     then rl\<lparr>rl_quota_used := 0, rl_quota_reset_at := now + period_ms (rl_quota_period rl)\<rparr>
     else rl)"

definition charge :: "nat \<Rightarrow> nat \<Rightarrow> TunnelId \<Rightarrow> u64 \<Rightarrow> RateLimitState \<Rightarrow> Charge \<times> RateLimitState" where
  "charge now now' tunnel_id n rl =
    (case rl_quota_cap rl of
       None \<Rightarrow> (ChargeOk, rl)
     | Some cap \<Rightarrow>
        (let rl = roll_quota now rl;
             prev = rl_quota_used rl;
             rl = rl\<lparr>rl_quota_used := prev + n\<rparr>
         in if cap < prev + n
            then let retry = retry_after_ms now' rl;
                     rl = rl\<lparr>rl_ctrl_tx := map_option (\<lambda>q. q @ [RateLimit (Some tunnel_id) retry]) (rl_ctrl_tx rl),
                             rl_metric_exceeded := map_option (\<lambda>c. c + 1) (rl_metric_exceeded rl)\<rparr>
              in (QuotaExceeded retry, rl)
            else (ChargeOk, rl)))"

definition quota_used_snapshot :: "RateLimitState \<Rightarrow> u64" where
  "quota_used_snapshot rl = rl_quota_used rl"

section \<open>The metered shovel\<close>

text \<open>
  One direction of \<^verbatim>\<open>run_metered\<close>. An event is the outcome of the awaited read: a
  chunk of 1 to 16384 bytes with the clock readings of its charge and whether the
  write of it succeeds, the end of the stream, a read error, the first-byte deadline, or the other direction having seen
  its first bytes.
\<close>

datatype ShovelEvent = Chunk bytes nat nat bool | ReadEof | ReadError | Deadline | PeerBytes

datatype ShovelResult = Running | Done | TimedOut | QuotaStop | Failed

record Shovel =
  sh_first :: bool
  sh_seen_any :: bool
  sh_out :: bytes
  sh_shutdown :: bool
  sh_total :: u64
  sh_result :: ShovelResult

definition shovel_start :: Shovel where
  "shovel_start = \<lparr>sh_first = True, sh_seen_any = False, sh_out = [], sh_shutdown = False,
     sh_total = 0, sh_result = Running\<rparr>"

fun shovel_step :: "TunnelId \<Rightarrow> ShovelEvent \<Rightarrow> Shovel \<times> RateLimitState \<Rightarrow> Shovel \<times> RateLimitState" where
  "shovel_step tid PeerBytes (sh, rl) = (sh\<lparr>sh_seen_any := True\<rparr>, rl)"
| "shovel_step tid Deadline (sh, rl) =
    (if sh_result sh \<noteq> Running then (sh, rl)
     else if sh_first sh \<and> \<not> sh_seen_any sh then (sh\<lparr>sh_result := TimedOut\<rparr>, rl)
     else (sh, rl))"
| "shovel_step tid ReadError (sh, rl) =
    (if sh_result sh \<noteq> Running then (sh, rl) else (sh\<lparr>sh_result := Failed\<rparr>, rl))"
| "shovel_step tid ReadEof (sh, rl) =
    (if sh_result sh \<noteq> Running then (sh, rl)
     else (sh\<lparr>sh_first := False, sh_shutdown := True, sh_result := Done\<rparr>, rl))"
| "shovel_step tid (Chunk buf now now' write_ok) (sh, rl) =
    (if sh_result sh \<noteq> Running then (sh, rl)
     else let sh = sh\<lparr>sh_first := False, sh_seen_any := True\<rparr>;
              (c, rl) = charge now now' tid (word_of_nat (length buf)) rl
       in case c of
            ChargeOk \<Rightarrow>
              if \<not> write_ok then (sh\<lparr>sh_result := Failed\<rparr>, rl)
              else (sh\<lparr>sh_out := sh_out sh @ buf, sh_total := sh_total sh + word_of_nat (length buf)\<rparr>, rl)
          | QuotaExceeded retry \<Rightarrow> (sh\<lparr>sh_shutdown := True, sh_result := QuotaStop\<rparr>, rl))"

fun shovel_run :: "TunnelId \<Rightarrow> ShovelEvent list \<Rightarrow> Shovel \<times> RateLimitState \<Rightarrow> Shovel \<times> RateLimitState" where
  "shovel_run tid [] s = s"
| "shovel_run tid (e # es) s = shovel_run tid es (shovel_step tid e s)"

section \<open>The rate grammar\<close>

lemma parse_bytes_plain:
  "n < 2 ^ 64 \<Longrightarrow> parse_bytes (show_nat n @ ''B'') = Some (word_of_nat n)"
proof -
  have d: "list_all is_ascii_digit (show_nat n)" using show_nat_digits by blast
  have "\<not> is_ascii_digit CHR ''B''" by (simp add: is_ascii_digit_def less_eq_char_def)
  then have "takeWhile is_ascii_digit (show_nat n @ ''B'') = show_nat n"
    "dropWhile is_ascii_digit (show_nat n @ ''B'') = ''B''"
    using d by (simp_all add: list_all_iff takeWhile_append2 dropWhile_append2)
  moreover have "trim ''B'' = ''B''" by (rule trim_graphic) (simp_all add: graphic_def)
  ultimately show "n < 2 ^ 64 \<Longrightarrow> parse_bytes (show_nat n @ ''B'') = Some (word_of_nat n)"
    by (simp add: parse_bytes_def parse_show_nat unit_mul_def)
qed

lemma parse_period_suffix: "parse_period (trim (period_suffix p)) = Some p"
proof -
  have "trim (period_suffix p) = period_suffix p"
    by (rule trim_graphic; cases p) (simp_all add: graphic_def)
  then show ?thesis by (cases p) (simp_all add: parse_period_def)
qed

section \<open>Quota windows\<close>

text \<open>The bytes granted by a sequence of charges, each with its clock readings.\<close>

type_synonym charge_req = "nat \<times> nat \<times> TunnelId \<times> u64"

fun granted :: "charge_req list \<Rightarrow> RateLimitState \<Rightarrow> nat" where
  "granted [] rl = 0"
| "granted ((now, now', tid, n) # cs) rl =
    (case charge now now' tid n rl of
       (ChargeOk, rl') \<Rightarrow> unat n + granted cs rl'
     | (QuotaExceeded r, rl') \<Rightarrow> granted cs rl')"

fun requested :: "charge_req list \<Rightarrow> nat" where
  "requested [] = 0"
| "requested ((now, now', tid, n) # cs) = unat n + requested cs"

lemma charge_fields:
  assumes "charge now now' tid n rl = (c, rl')" "rl_quota_cap rl = Some cap" "now < rl_quota_reset_at rl"
  shows "rl_quota_cap rl' = Some cap" "rl_quota_reset_at rl' = rl_quota_reset_at rl"
    "rl_quota_used rl' = rl_quota_used rl + n" "c = ChargeOk \<longleftrightarrow> rl_quota_used rl + n \<le> cap"
  using assms by (auto simp: charge_def roll_quota_def Let_def split: if_splits)

lemma unat_add_u64: "unat a + unat b < 2 ^ 64 \<Longrightarrow> unat (a + b :: u64) = unat a + unat b"
  by (simp add: unat_plus_simple [THEN iffD1] no_plus_overflow_unat_size word_size olen_add_eqv)

lemma granted_le:
  "rl_quota_cap rl = Some cap \<Longrightarrow> \<forall>(now, now', tid, n) \<in> set cs. now < rl_quota_reset_at rl \<Longrightarrow>
    unat (rl_quota_used rl) + requested cs < 2 ^ 64 \<Longrightarrow>
    granted cs rl \<le> unat cap - unat (rl_quota_used rl)"
proof (induction cs arbitrary: rl)
  case (Cons c cs)
  obtain now now' tid n where c: "c = (now, now', tid, n)" by (cases c)
  obtain res rl' where ch: "charge now now' tid n rl = (res, rl')" by fastforce
  have "now < rl_quota_reset_at rl" using Cons.prems(2) by (simp add: c)
  note f = charge_fields [OF ch Cons.prems(1) this]
  have used: "unat (rl_quota_used rl') = unat (rl_quota_used rl) + unat n"
    using Cons.prems(3) by (simp add: f c unat_add_u64)
  have IH: "granted cs rl' \<le> unat cap - unat (rl_quota_used rl')"
    using Cons.prems by (intro Cons.IH) (auto simp: f(1,2) used c)
  show ?case
  proof (cases res)
    case ChargeOk
    then have "unat (rl_quota_used rl) + unat n \<le> unat cap"
      using f(3,4) used by (simp add: word_le_nat_alt)
    with IH used ch ChargeOk show ?thesis by (simp add: c)
  next
    case (QuotaExceeded r)
    with IH used ch show ?thesis by (simp add: c)
  qed
qed simp

fun event_bytes :: "ShovelEvent list \<Rightarrow> bytes" where
  "event_bytes [] = []"
| "event_bytes (Chunk buf now now' w # es) = buf @ event_bytes es"
| "event_bytes (e # es) = event_bytes es"

fun in_window :: "nat \<Rightarrow> ShovelEvent \<Rightarrow> bool" where
  "in_window reset (Chunk buf now now' w) \<longleftrightarrow> now < reset"
| "in_window reset e \<longleftrightarrow> True"

lemma shovel_run_stopped:
  "sh_result sh \<noteq> Running \<Longrightarrow> sh_out (fst (shovel_run tid es (sh, rl))) = sh_out sh \<and>
    sh_result (fst (shovel_run tid es (sh, rl))) = sh_result sh \<and>
    sh_total (fst (shovel_run tid es (sh, rl))) = sh_total sh"
proof (induction es arbitrary: sh)
  case (Cons e es)
  then show ?case by (cases e) auto
qed simp

lemma shovel_run_bound:
  "rl_quota_cap rl = Some cap \<Longrightarrow> \<forall>e \<in> set es. in_window (rl_quota_reset_at rl) e \<Longrightarrow>
    unat (rl_quota_used rl) + length (event_bytes es) < 2 ^ 64 \<Longrightarrow>
    \<exists>out. sh_out (fst (shovel_run tid es (sh, rl))) = sh_out sh @ out \<and> prefix out (event_bytes es) \<and>
      length out \<le> unat cap - unat (rl_quota_used rl) \<and>
      sh_total (fst (shovel_run tid es (sh, rl))) = sh_total sh + word_of_nat (length out)"
proof (induction es arbitrary: sh rl)
  case (Cons e es)
  show ?case
  proof (cases "sh_result sh = Running")
    case False
    then show ?thesis using shovel_run_stopped [OF False, of tid "e # es" rl] by auto
  next
    case running: True
    show ?thesis
    proof (cases "\<exists>buf now now' w. e = Chunk buf now now' w")
      case False
      then obtain sh1 where step: "shovel_step tid e (sh, rl) = (sh1, rl)" "sh_out sh1 = sh_out sh"
          "sh_total sh1 = sh_total sh" and eb: "event_bytes (e # es) = event_bytes es"
        using running by (cases e; cases "sh_first sh \<and> \<not> sh_seen_any sh") auto
      then show ?thesis using Cons.IH [of rl sh1] Cons.prems unfolding shovel_run.simps step(1) eb by simp
    next
      case True
      then obtain buf now now' w where Chunk: "e = Chunk buf now now' w" by blast
      let ?n = "word_of_nat (length buf) :: u64"
      obtain res rl' where ch: "charge now now' tid ?n rl = (res, rl')" by fastforce
      have n: "unat ?n = length buf" using Cons.prems(3) by (simp add: Chunk unat_of_nat)
      have "now < rl_quota_reset_at rl" using Cons.prems(2) by (simp add: Chunk)
      note f = charge_fields [OF ch Cons.prems(1) this]
      have used: "unat (rl_quota_used rl') = unat (rl_quota_used rl) + length buf"
        using Cons.prems(3) by (simp add: f Chunk unat_add_u64 n)
      show ?thesis
      proof (cases "res = ChargeOk \<and> w")
        case True
        let ?sh = "sh\<lparr>sh_first := False, sh_seen_any := True, sh_out := sh_out sh @ buf, sh_total := sh_total sh + ?n\<rparr>"
        have step: "shovel_step tid e (sh, rl) = (?sh, rl')"
          using running True ch by (simp add: Chunk)
        have le: "unat (rl_quota_used rl) + length buf \<le> unat cap"
          using True f(3,4) used by (simp add: word_le_nat_alt)
        obtain out where "sh_out (fst (shovel_run tid es (?sh, rl'))) = sh_out ?sh @ out" "prefix out (event_bytes es)"
          "length out \<le> unat cap - unat (rl_quota_used rl')"
          "sh_total (fst (shovel_run tid es (?sh, rl'))) = sh_total ?sh + word_of_nat (length out)"
          using Cons.IH [of rl' ?sh] Cons.prems by (auto simp: f(1,2) used Chunk)
        then show ?thesis using le used unfolding shovel_run.simps step
          by (intro exI [of _ "buf @ out"]) (simp add: Chunk)
      next
        case False
        then obtain sh1 where step: "shovel_step tid e (sh, rl) = (sh1, rl')" "sh_result sh1 \<noteq> Running"
            "sh_out sh1 = sh_out sh" "sh_total sh1 = sh_total sh"
          using running ch by (cases res) (auto simp: Chunk)
        then show ?thesis using shovel_run_stopped [OF step(2), of tid es rl']
          unfolding shovel_run.simps step(1) by auto
      qed
    qed
  qed
qed simp

lemma unat_div_ceil:
  assumes "0 < unat c"
  shows "unat (div_ceil a c) = unat a div unat c + (if unat a mod unat c = 0 then 0 else 1)"
proof (cases "a mod c = 0")
  case True
  then have "unat a mod unat c = 0" using unat_mod [of a c] by simp
  with True show ?thesis by (simp add: div_ceil_def unat_div)
next
  case False
  then have m: "unat a mod unat c \<noteq> 0" using unat_mod [of a c] by (metis unsigned_0 unsigned_word_eqI)
  then have "unat c \<noteq> 1" by auto
  with assms have "2 \<le> unat c" by linarith
  then have "unat a div unat c \<le> unat a div 2" by (simp add: div_le_mono2)
  moreover have "unat a < 2 ^ 64" using unsigned_less [of a] by simp
  ultimately have "unat (a div c + 1) = unat a div unat c + 1" by (subst unat_add_u64) (auto simp: unat_div)
  with False m show ?thesis by (simp add: div_ceil_def)
qed

lemma period_secs_pos: "0 < unat (period_secs p)"
  by (cases p) simp_all

lemma max_period_secs: "max (period_secs p) 1 = period_secs p"
  by (cases p) (simp_all add: max_def word_le_nat_alt)

section \<open>Properties\<close>

text \<open>
  every rate printed by \<^verbatim>\<open>format_rate\<close> for the admin API parses back to the same
  bytes and period.
\<close>

theorem parse_format_rate: "parse_rate_per (format_rate r) = Some r"
proof -
  let ?d = "show_nat (unat (rp_bytes r))"
  have "CHR ''/'' \<notin> set (period_suffix (rp_period r))" by (cases "rp_period r") simp_all
  then have rs: "rsplit_once CHR ''/'' (format_rate r) = Some (?d @ ''B'', period_suffix (rp_period r))"
    by (simp add: rsplit_once_Some format_rate_def)
  have "trim (?d @ ''B'') = ?d @ ''B''"
  proof (rule trim_graphic)
    show "graphic (hd (?d @ ''B''))"
      using show_nat_digits [of "unat (rp_bytes r)"] digit_graphic by (cases ?d) auto
  qed (simp_all add: graphic_def)
  moreover have "unat (rp_bytes r) < 2 ^ 64" using unsigned_less [of "rp_bytes r"] by simp
  ultimately show ?thesis
    by (simp add: parse_rate_per_def rs parse_period_suffix parse_bytes_plain)
qed


text \<open>
  the period quota holds. Whatever charges arrive within one quota window, the
  bytes that \<^verbatim>\<open>charge\<close> grants add up to at most the cap less what was already used,
  as long as the 64-bit counter does not wrap.
\<close>

theorem quota_never_exceeded:
  assumes "rl_quota_cap rl = Some cap" "\<forall>(now, now', tid, n) \<in> set cs. now < rl_quota_reset_at rl"
    and "unat (rl_quota_used rl) + requested cs < 2 ^ 64"
  shows "granted cs rl \<le> unat cap - unat (rl_quota_used rl)"
  using assms by (rule granted_le)

theorem quota_never_exceeded_witness:
  "granted [(5, 5, 1, 600), (6, 6, 1, 600), (7, 7, 1, 300)]
     (from_entry 0 None (Some \<lparr>rp_bytes = 1000, rp_period = Second\<rparr>) 1) \<le> unat (1000 :: u64) - unat (0 :: u64)"
  using quota_never_exceeded [of "from_entry 0 None (Some \<lparr>rp_bytes = 1000, rp_period = Second\<rparr>) 1" 1000
      "[(5, 5, 1, 600), (6, 6, 1, 600), (7, 7, 1, 300)]"]
  by (simp add: from_entry_def from_entry_with_metrics_def period_ms_def)

text \<open>
  the metered shovel forwards, in order, a prefix of what it reads, never more than
  the quota left in the window, and its byte count is the number of bytes forwarded.
\<close>

theorem shovel_forwards_within_quota:
  assumes "rl_quota_cap rl = Some cap" "\<forall>e \<in> set es. in_window (rl_quota_reset_at rl) e"
    and "unat (rl_quota_used rl) + length (event_bytes es) < 2 ^ 64"
    and "shovel_run tid es (shovel_start, rl) = (sh, rl')"
  shows "prefix (sh_out sh) (event_bytes es) \<and> length (sh_out sh) \<le> unat cap - unat (rl_quota_used rl) \<and>
    unat (sh_total sh) = length (sh_out sh)"
proof -
  obtain out where out: "sh_out sh = out" "prefix out (event_bytes es)" "length out \<le> unat cap - unat (rl_quota_used rl)"
    "sh_total sh = word_of_nat (length out)"
    using shovel_run_bound [OF assms(1-3), of tid shovel_start] assms(4) by (auto simp: shovel_start_def)
  have "length out < 2 ^ 64" using out(2) assms(3) prefix_length_le by fastforce
  with out show ?thesis by (simp add: unat_of_nat)
qed

theorem shovel_forwards_within_quota_witness:
  "length (sh_out (fst (shovel_run 1 [Chunk [1, 2, 3] 5 5 True, Chunk [4, 5, 6] 6 6 True]
     (shovel_start, from_entry 0 None (Some \<lparr>rp_bytes = 4, rp_period = Second\<rparr>) 1)))) \<le> 4"
  using shovel_forwards_within_quota [of "from_entry 0 None (Some \<lparr>rp_bytes = 4, rp_period = Second\<rparr>) 1" 4
      "[Chunk [1, 2, 3] 5 5 True, Chunk [4, 5, 6] 6 6 True]" 1, OF _ _ _ surjective_pairing]
  by (simp add: from_entry_def from_entry_with_metrics_def period_ms_def)

text \<open>
  the bandwidth split. With no more workers than bytes per second, the worker
  buckets together never exceed the declared rate; with more workers than that, each
  bucket still gets one byte per second, so together they exceed it.
\<close>

theorem bandwidth_split:
  assumes "0 < partitions" "partitions < 2 ^ 32"
  shows "\<exists>b. bw_buckets r partitions = Some (replicate partitions b) \<and>
    (let tb = unat (min (as_bytes_per_second r) 0xFFFFFFFF)
     in if partitions \<le> tb then partitions * unat b \<le> tb else partitions * unat b = partitions)"
proof -
  let ?tb = "min (as_bytes_per_second r) 0xFFFFFFFF :: u64"
  let ?q = "unat ?tb div partitions"
  have tb: "unat ?tb < 2 ^ 32" by (simp add: min_def word_le_nat_alt)
  have p: "unat (word_of_nat partitions :: u64) = partitions" using assms(2) by (simp add: unat_of_nat)
  have per: "unat (max (?tb div word_of_nat partitions) 1) = max ?q 1"
    by (simp add: max_def word_le_nat_alt unat_div p)
  have "?q < 2 ^ 32" using tb div_le_dividend [of "unat ?tb" partitions] by (rule le_less_trans [rotated])
  then have lt: "max ?q 1 < 2 ^ 32" by simp
  let ?b = "ucast (max (?tb div word_of_nat partitions) 1) :: u32"
  have b: "unat ?b = max ?q 1" using lt by (simp add: unsigned_ucast_eq take_bit_eq_mod per)
  then have "?b \<noteq> 0" by (metis max.cobounded2 not_one_le_zero unsigned_0)
  then have "bw_buckets r partitions = Some (replicate partitions ?b)" by (simp add: bw_buckets_def Let_def)
  moreover have "partitions * max ?q 1 \<le> unat ?tb" if "partitions \<le> unat ?tb"
  proof -
    have "1 \<le> ?q" using that assms(1) by (simp add: div_greater_zero_iff Suc_le_eq)
    then show ?thesis by (simp add: max_def)
  qed
  moreover have "max ?q 1 = 1" if "\<not> partitions \<le> unat ?tb"
    using that by (simp add: div_less)
  ultimately show ?thesis by (intro exI [of _ ?b]) (simp add: b Let_def)
qed

theorem bandwidth_split_witness:
  "\<exists>b. bw_buckets \<lparr>rp_bytes = 1000, rp_period = Second\<rparr> 3 = Some (replicate 3 b) \<and> 3 * unat b \<le> 1000"
  using bandwidth_split [of 3 "\<lparr>rp_bytes = 1000, rp_period = Second\<rparr>"]
  by (auto simp: as_bytes_per_second_def div_ceil_def)

text \<open>
  \<^verbatim>\<open>as_bytes_per_second\<close> is the least whole number of bytes per second that covers
  the declared amount over the period, so a rate that is not a whole number of bytes
  per second is enforced above what was declared.
\<close>

theorem as_bytes_per_second_rounds_up:
  "rp_bytes r \<noteq> 0 \<Longrightarrow>
    unat (rp_bytes r) \<le> unat (as_bytes_per_second r) * unat (period_secs (rp_period r)) \<and>
    (unat (as_bytes_per_second r) - 1) * unat (period_secs (rp_period r)) < unat (rp_bytes r) \<and>
    (unat (rp_bytes r) mod unat (period_secs (rp_period r)) \<noteq> 0 \<longrightarrow>
      unat (rp_bytes r) < unat (as_bytes_per_second r) * unat (period_secs (rp_period r)))"
proof -
  assume nz: "rp_bytes r \<noteq> 0"
  let ?b = "unat (rp_bytes r)" and ?s = "unat (period_secs (rp_period r))"
  have s: "0 < ?s" "max (period_secs (rp_period r)) 1 = period_secs (rp_period r)"
    by (simp_all add: period_secs_pos max_period_secs)
  have bps: "unat (as_bytes_per_second r) = ?b div ?s + (if ?b mod ?s = 0 then 0 else 1)"
    using unat_div_ceil [OF s(1), of "rp_bytes r"] by (simp add: as_bytes_per_second_def s(2))
  have b: "?b div ?s * ?s + ?b mod ?s = ?b" by (rule div_mult_mod_eq)
  have pos: "0 < ?b" using nz by (simp add: unat_gt_0)
  have mlt: "?b mod ?s < ?s" using s(1) by (rule mod_less_divisor)
  show ?thesis
  proof (cases "?b mod ?s = 0")
    case True
    then have e: "?b = ?b div ?s * ?s" using b by linarith
    then have "?b div ?s \<noteq> 0" using pos by (metis mult_0 less_irrefl)
    then have "(?b div ?s - 1) * ?s < ?b div ?s * ?s" using s(1) by (intro mult_strict_right_mono) linarith+
    with e True show ?thesis by (simp add: bps)
  next
    case False
    have "unat (as_bytes_per_second r) * ?s = ?b div ?s * ?s + ?s" using False by (simp add: bps)
    moreover have "(unat (as_bytes_per_second r) - 1) * ?s = ?b div ?s * ?s" using False by (simp add: bps)
    ultimately show ?thesis using b mlt False by linarith
  qed
qed

theorem as_bytes_per_second_rounds_up_witness:
  "unat (5 :: u64) < unat (as_bytes_per_second \<lparr>rp_bytes = 5, rp_period = Minute\<rparr>) * 60"
  using as_bytes_per_second_rounds_up [of "\<lparr>rp_bytes = 5, rp_period = Minute\<rparr>"] by simp

end
