(* ===== verification/Keys.thy ===== *)
theory Keys
  imports Rate "HOL-Library.AList"
begin

text \<open>
  The trust data of the server: the \<^verbatim>\<open>authorized_keys\<close> parser and registry of
  \<^verbatim>\<open>krot-server/src/keys.rs\<close>, the static peer list of \<^verbatim>\<open>peers.rs\<close> and the cross-relay
  collision check of \<^verbatim>\<open>peer_lookup.rs\<close>. Base64 decoding and the peer lookup are
  parameters. The file is its contents, \<^verbatim>\<open>None\<close> when it does not exist; a file
  operation that can fail takes its outcome as an argument. The revocation channel
  is the list of the keys broadcast so far.
\<close>

section \<open>Entries\<close>

record AuthorizedEntry =
  ae_allow_any_subdomain :: bool
  ae_allowed_subdomains :: "string list"
  ae_max_conns :: "nat option"
  ae_allowed_ports :: "u16 list option"
  ae_bw :: "RatePer option"
  ae_quota :: "RatePer option"
  ae_federation :: "string list"
  ae_comment :: "string option"

definition default_entry :: AuthorizedEntry where
  "default_entry = \<lparr>ae_allow_any_subdomain = False, ae_allowed_subdomains = [], ae_max_conns = None,
     ae_allowed_ports = None, ae_bw = None, ae_quota = None, ae_federation = [], ae_comment = None\<rparr>"

definition authorization_equal :: "AuthorizedEntry \<Rightarrow> AuthorizedEntry \<Rightarrow> bool" where
  "authorization_equal a b \<longleftrightarrow>
     ae_allow_any_subdomain a = ae_allow_any_subdomain b \<and>
     ae_allowed_subdomains a = ae_allowed_subdomains b \<and>
     ae_max_conns a = ae_max_conns b \<and>
     ae_allowed_ports a = ae_allowed_ports b \<and>
     ae_bw a = ae_bw b \<and>
     ae_quota a = ae_quota b \<and>
     ae_federation a = ae_federation b"

datatype KeysError = BadLine nat string | CannotParse string | KeysText string | KeysIo

section \<open>Parsing\<close>

definition parse_port_part :: "string \<Rightarrow> u16 list option" where
  "parse_port_part part =
    (let part = trim part
     in case split_once CHR ''-'' part of
          Some (lo, hi) \<Rightarrow>
            (case parse_uint 16 (trim lo) of
               None \<Rightarrow> None
             | Some l \<Rightarrow>
                (case parse_uint 16 (trim hi) of
                   None \<Rightarrow> None
                 | Some h \<Rightarrow> if h < l then None else Some (map word_of_nat [l ..< Suc h])))
        | None \<Rightarrow>
            (case parse_uint 16 part of None \<Rightarrow> None | Some p \<Rightarrow> Some [word_of_nat p]))"

fun parse_port_parts :: "string list \<Rightarrow> u16 list option" where
  "parse_port_parts [] = Some []"
| "parse_port_parts (part # parts) =
    (case parse_port_part part of
       None \<Rightarrow> None
     | Some ps \<Rightarrow> (case parse_port_parts parts of None \<Rightarrow> None | Some qs \<Rightarrow> Some (ps @ qs)))"

definition parse_ports :: "string \<Rightarrow> u16 list option" where
  "parse_ports s =
    (case parse_port_parts (split_on CHR '','' s) of
       None \<Rightarrow> None
     | Some out \<Rightarrow> if out = [] then None else Some out)"

definition known_options :: "string list" where
  "known_options = [''subdomain'', ''conns'', ''bw'', ''quota'', ''ports'', ''federation'']"

definition continue_value :: "string \<Rightarrow> (string \<times> string) list \<Rightarrow> (string \<times> string) list" where
  "continue_value tok pairs =
    (if pairs = [] then []
     else butlast pairs @ [(fst (last pairs), snd (last pairs) @ '','' @ tok)])"

definition add_fragment :: "(string \<times> string) list \<Rightarrow> string \<Rightarrow> (string \<times> string) list" where
  "add_fragment pairs tok =
    (case split_once CHR ''='' tok of
       Some (k, v) \<Rightarrow> if k \<in> set known_options then pairs @ [(k, v)] else continue_value tok pairs
     | None \<Rightarrow> continue_value tok pairs)"

definition apply_option :: "AuthorizedEntry \<Rightarrow> string \<times> string \<Rightarrow> AuthorizedEntry" where
  "apply_option entry kv =
    (case kv of (k, v) \<Rightarrow>
      if k = ''subdomain''
      then (if v = ''*'' then entry\<lparr>ae_allow_any_subdomain := True\<rparr>
            else entry\<lparr>ae_allowed_subdomains := split_on CHR '','' v\<rparr>)
      else if k = ''conns'' then entry\<lparr>ae_max_conns := parse_uint 32 v\<rparr>
      else if k = ''bw'' then entry\<lparr>ae_bw := parse_rate_per v\<rparr>
      else if k = ''quota'' then entry\<lparr>ae_quota := parse_rate_per v\<rparr>
      else if k = ''ports'' then entry\<lparr>ae_allowed_ports := parse_ports v\<rparr>
      else if k = ''federation''
      then entry\<lparr>ae_federation := filter (\<lambda>s. s \<noteq> []) (map trim (split_on CHR '','' v))\<rparr>
      else entry)"

definition parse_options :: "string list \<Rightarrow> AuthorizedEntry" where
  "parse_options toks =
    foldl apply_option default_entry (foldl add_fragment [] (split_on CHR '','' (join '','' toks)))"

definition line_comment :: "string \<Rightarrow> string option" where
  "line_comment line =
    (case split_once CHR ''#'' line of
       None \<Rightarrow> None
     | Some (a, b) \<Rightarrow> if trim b = [] then None else Some (trim b))"

definition parse_line :: "(string \<Rightarrow> bytes option) \<Rightarrow> string \<Rightarrow> (PubKey \<times> AuthorizedEntry) option" where
  "parse_line b64_decode line =
    (case split_whitespace (trim (hd (split_on CHR ''#'' line))) of
       algo # b64 # toks \<Rightarrow>
         if algo \<noteq> ''ed25519'' then None
         else (case b64_decode b64 of
                 None \<Rightarrow> None
               | Some raw \<Rightarrow>
                   if length raw \<noteq> 32 then None
                   else Some (raw, (parse_options toks)\<lparr>ae_comment := line_comment line\<rparr>))
     | _ \<Rightarrow> None)"

definition skip_line :: "string \<Rightarrow> bool" where
  "skip_line trimmed \<longleftrightarrow> trimmed = [] \<or> starts_with trimmed ''#''"

fun parse_lines ::
  "(string \<Rightarrow> bytes option) \<Rightarrow> nat \<Rightarrow> string list \<Rightarrow> (PubKey \<times> AuthorizedEntry) list
    \<Rightarrow> (KeysError, (PubKey \<times> AuthorizedEntry) list) result" where
  "parse_lines b64 idx [] out = Inr out"
| "parse_lines b64 idx (line # ls) out =
    (if skip_line (trim line) then parse_lines b64 (idx + 1) ls out
     else case parse_line b64 (trim line) of
       None \<Rightarrow> Inl (BadLine (idx + 1) line)
     | Some (pk, entry) \<Rightarrow> parse_lines b64 (idx + 1) ls (AList.update pk entry out))"

definition parse_keys_text ::
  "(string \<Rightarrow> bytes option) \<Rightarrow> string \<Rightarrow> (KeysError, (PubKey \<times> AuthorizedEntry) list) result" where
  "parse_keys_text b64 text = parse_lines b64 0 (str_lines text) []"

section \<open>The key registry\<close>

record KeyRegistry =
  kr_file :: "string option"
  kr_entries :: "(PubKey \<times> AuthorizedEntry) list"
  kr_revoked :: "PubKey list"

definition parse_file ::
  "(string \<Rightarrow> bytes option) \<Rightarrow> string option \<Rightarrow> (KeysError, (PubKey \<times> AuthorizedEntry) list) result" where
  "parse_file b64 file = (case file of None \<Rightarrow> Inl KeysIo | Some text \<Rightarrow> parse_keys_text b64 text)"

text \<open>
  A file that is looked for may be missing (\<^verbatim>\<open>None\<close>), unreadable (\<^verbatim>\<open>Some None\<close>) or have a text.
  A missing key file is created empty.
\<close>

definition keys_open ::
  "(string \<Rightarrow> bytes option) \<Rightarrow> bool \<Rightarrow> string option option \<Rightarrow> (KeysError, KeyRegistry) result" where
  "keys_open b64 create_ok path =
    (if path = None \<and> \<not> create_ok then Inl KeysIo
     else let file = (case path of None \<Rightarrow> Some [] | Some f \<Rightarrow> f)
       in case parse_file b64 file of
          Inl e \<Rightarrow> Inl e
        | Inr es \<Rightarrow> Inr \<lparr>kr_file = file, kr_entries = es, kr_revoked = []\<rparr>)"

definition keys_contains :: "PubKey \<Rightarrow> KeyRegistry \<Rightarrow> bool" where
  "keys_contains pk kr \<longleftrightarrow> map_of (kr_entries kr) pk \<noteq> None"

definition keys_get :: "PubKey \<Rightarrow> KeyRegistry \<Rightarrow> AuthorizedEntry option" where
  "keys_get pk kr = map_of (kr_entries kr) pk"

definition keys_snapshot :: "KeyRegistry \<Rightarrow> (PubKey \<times> AuthorizedEntry) list" where
  "keys_snapshot kr = kr_entries kr"

definition keys_reload :: "(string \<Rightarrow> bytes option) \<Rightarrow> KeyRegistry \<Rightarrow> (KeysError, unit) result \<times> KeyRegistry" where
  "keys_reload b64 kr =
    (case parse_file b64 (kr_file kr) of
       Inl e \<Rightarrow> (Inl e, kr)
     | Inr new \<Rightarrow>
        (let removed = filter (\<lambda>k. map_of new k = None) (map fst (kr_entries kr));
             modified = map fst (filter (\<lambda>(k, n). case map_of (kr_entries kr) k of
                                                   None \<Rightarrow> False
                                                 | Some old \<Rightarrow> \<not> authorization_equal old n) new)
         in (Inr (), kr\<lparr>kr_entries := new, kr_revoked := kr_revoked kr @ removed @ modified\<rparr>)))"

definition keep_line :: "(string \<Rightarrow> bytes option) \<Rightarrow> PubKey \<Rightarrow> string \<Rightarrow> bool" where
  "keep_line b64 target line \<longleftrightarrow>
     skip_line (trim line) \<or>
     (case parse_line b64 (trim line) of Some (pk, e) \<Rightarrow> pk \<noteq> target | None \<Rightarrow> True)"

definition unlines :: "string list \<Rightarrow> string" where
  "unlines ls = concat (map (\<lambda>l. l @ [CHR 0x0A]) ls)"

definition remove_pubkey ::
  "(string \<Rightarrow> bytes option) \<Rightarrow> bool \<Rightarrow> PubKey \<Rightarrow> KeyRegistry \<Rightarrow> (KeysError, bool) result \<times> KeyRegistry" where
  "remove_pubkey b64 write_ok target kr =
    (let contents = (case kr_file kr of None \<Rightarrow> [] | Some t \<Rightarrow> t);
         ls = str_lines contents;
         kept = filter (keep_line b64 target) ls;
         removed = (\<exists>l \<in> set ls. \<not> keep_line b64 target l)
     in if \<not> removed then (Inr False, kr)
        else if \<not> write_ok then (Inl KeysIo, kr)
        else case keys_reload b64 (kr\<lparr>kr_file := Some (unlines kept)\<rparr>) of
          (Inl e, kr') \<Rightarrow> (Inl e, kr')
        | (Inr u, kr') \<Rightarrow> (Inr True, kr'))"

definition append_line ::
  "(string \<Rightarrow> bytes option) \<Rightarrow> bool \<Rightarrow> string \<Rightarrow> KeyRegistry \<Rightarrow> (KeysError, string) result \<times> KeyRegistry" where
  "append_line b64 write_ok line kr =
    (case parse_line b64 line of
       None \<Rightarrow> (Inl (CannotParse line), kr)
     | Some (pk, entry) \<Rightarrow>
        (let contents = (case kr_file kr of None \<Rightarrow> [] | Some t \<Rightarrow> t);
             new = (if contents \<noteq> [] \<and> last contents \<noteq> CHR 0x0A then contents @ [CHR 0x0A] else contents) @ line;
             new = (if line \<noteq> [] \<and> last line = CHR 0x0A then new else new @ [CHR 0x0A])
         in if \<not> write_ok then (Inl KeysIo, kr)
            else (Inr (trim_end line),
                  kr\<lparr>kr_file := Some new, kr_entries := AList.update pk entry (kr_entries kr)\<rparr>)))"

section \<open>Peers\<close>

definition parse_peers :: "string \<Rightarrow> string list" where
  "parse_peers text =
    foldl (\<lambda>out line. let t = trim line in if skip_line t \<or> t \<in> set out then out else out @ [t])
      [] (str_lines text)"

definition peers_parse_file :: "string option \<Rightarrow> (KeysError, string list) result" where
  "peers_parse_file file = (case file of None \<Rightarrow> Inl KeysIo | Some text \<Rightarrow> Inr (parse_peers text))"

definition peers_reload :: "string option option \<Rightarrow> string list \<Rightarrow> (KeysError, unit) result \<times> string list" where
  "peers_reload path current =
    (case path of
       None \<Rightarrow> (Inr (), [])
     | Some file \<Rightarrow>
        (case peers_parse_file file of
           Inl e \<Rightarrow> (Inl e, current)
         | Inr new \<Rightarrow> (Inr (), if current \<noteq> new then new else current)))"

definition peers_open :: "string option option \<Rightarrow> (KeysError, string list) result" where
  "peers_open path = (case path of None \<Rightarrow> Inr [] | Some file \<Rightarrow> peers_parse_file file)"

datatype PeerLookupOutcome = NotFound | Found PubKey | Unavailable

datatype CollisionCheck = Clear "string list" | Conflict string

definition noop_find_owner :: "string \<Rightarrow> string \<Rightarrow> PeerLookupOutcome" where
  "noop_find_owner peer label = NotFound"

fun check_collision_from ::
  "(string \<Rightarrow> string \<Rightarrow> PeerLookupOutcome) \<Rightarrow> string list \<Rightarrow> string \<Rightarrow> PubKey \<Rightarrow> string list \<Rightarrow> CollisionCheck" where
  "check_collision_from find_owner [] label self matched = Clear matched"
| "check_collision_from find_owner (peer # peers) label self matched =
    (case find_owner peer label of
       Found owner \<Rightarrow>
         if owner = self then check_collision_from find_owner peers label self (matched @ [peer])
         else Conflict peer
     | NotFound \<Rightarrow> check_collision_from find_owner peers label self matched
     | Unavailable \<Rightarrow> check_collision_from find_owner peers label self matched)"

definition check_collision ::
  "(string \<Rightarrow> string \<Rightarrow> PeerLookupOutcome) \<Rightarrow> string list \<Rightarrow> string \<Rightarrow> PubKey \<Rightarrow> CollisionCheck" where
  "check_collision find_owner peers label self = check_collision_from find_owner peers label self []"

section \<open>Facts\<close>

lemma str_lines_unlines:
  assumes "\<forall>l \<in> set ls. CHR 0x0A \<notin> set l \<and> CHR 0x0D \<notin> set l"
  shows "str_lines (unlines ls) = ls"
proof -
  have sp: "split_on CHR 0x0A (unlines ls) = ls @ [[]]"
    using assms by (induction ls) (simp_all add: unlines_def split_on_append)
  have "map strip_cr ls = ls"
    using assms by (intro map_idI) (metis last_in_set strip_cr_def)
  then show ?thesis by (simp add: str_lines_def sp)
qed

lemma str_lines_pieces:
  assumes "CHR 0x0D \<notin> set text" "l \<in> set (str_lines text)"
  shows "CHR 0x0A \<notin> set l \<and> CHR 0x0D \<notin> set l"
proof -
  have sub: "p \<in> set (split_on c s) \<Longrightarrow> set p \<subseteq> set s" for p c s
    by (induction s arbitrary: p) (force split: list.splits if_splits)+
  have cr: "strip_cr p = p" if "p \<in> set (split_on CHR 0x0A text)" for p
    using sub [OF that] assms(1) by (metis last_in_set strip_cr_def subsetD)
  have "set (butlast (split_on CHR 0x0A text)) \<subseteq> set (split_on CHR 0x0A text)"
    by (auto dest: in_set_butlastD)
  then have "l \<in> set (split_on CHR 0x0A text)"
    using assms(2) cr by (auto simp: str_lines_def Let_def split: if_splits)
  then show ?thesis using split_on_pieces sub assms(1) by blast
qed

text \<open>Equal entries except for \<^verbatim>\<open>t\<close>, which the second list lacks.\<close>

definition without :: "PubKey \<Rightarrow> (PubKey \<times> AuthorizedEntry) list \<Rightarrow> (PubKey \<times> AuthorizedEntry) list \<Rightarrow> bool" where
  "without t es es' \<longleftrightarrow> map_of es' t = None \<and> (\<forall>pk. pk \<noteq> t \<longrightarrow> map_of es' pk = map_of es pk)"

lemma without_update:
  "without t out out' \<Longrightarrow> pk \<noteq> t \<Longrightarrow> without t (AList.update pk e out) (AList.update pk e out')"
  "without t out out' \<Longrightarrow> without t (AList.update t e out) out'"
  by (simp_all add: without_def AList.update_conv')

lemma parse_lines_filter:
  "parse_lines b64 i ls out = Inr es \<Longrightarrow> without t out out' \<Longrightarrow>
    \<exists>es'. parse_lines b64 j (filter (keep_line b64 t) ls) out' = Inr es' \<and> without t es es'"
proof (induction ls arbitrary: i j out out')
  case (Cons line ls)
  show ?case
  proof (cases "skip_line (trim line)")
    case True
    then show ?thesis using Cons.IH [of "i + 1" out out' "j + 1"] Cons.prems by (simp add: keep_line_def)
  next
    case False
    then obtain pk e where p: "parse_line b64 (trim line) = Some (pk, e)"
      using Cons.prems(1) by (auto split: option.splits)
    have rest: "parse_lines b64 (i + 1) ls (AList.update pk e out) = Inr es"
      using Cons.prems(1) False p by simp
    show ?thesis
    proof (cases "pk = t")
      case True
      then have "\<not> keep_line b64 t line" using False p by (simp add: keep_line_def)
      then show ?thesis using Cons.IH [OF rest, of out' j] Cons.prems(2) True by (simp add: without_update)
    next
      case neq: False
      then have "keep_line b64 t line" using p by (simp add: keep_line_def)
      then show ?thesis
        using Cons.IH [OF rest without_update(1) [OF Cons.prems(2) neq], of "j + 1"] False p by simp
    qed
  qed
qed simp

lemma parse_lines_distinct:
  "parse_lines b64 i ls out = Inr es \<Longrightarrow> distinct (map fst out) \<Longrightarrow> distinct (map fst es)"
  by (induction ls arbitrary: i out) (auto simp: AList.distinct_update split: if_splits option.splits)

lemma parse_file_distinct: "parse_file b64 file = Inr es \<Longrightarrow> distinct (map fst es)"
  by (auto simp: parse_file_def parse_keys_text_def split: option.splits dest: parse_lines_distinct)

lemma mem_removed:
  "pk \<in> set (filter (\<lambda>k. map_of new k = None) (map fst es)) \<longleftrightarrow>
    (\<exists>old. map_of es pk = Some old) \<and> map_of new pk = None"
  by (auto simp: map_of_eq_None_iff [symmetric] dom_map_of_conv_image_fst [symmetric] dom_def)

lemma mem_modified:
  assumes "distinct (map fst new)"
  shows "pk \<in> set (map fst (filter (\<lambda>(k, n). case map_of es k of None \<Rightarrow> False
           | Some old \<Rightarrow> \<not> authorization_equal old n) new)) \<longleftrightarrow>
    (\<exists>old n. map_of es pk = Some old \<and> map_of new pk = Some n \<and> \<not> authorization_equal old n)"
proof -
  have "pk \<in> set (map fst (filter P new)) \<longleftrightarrow> (\<exists>n. map_of new pk = Some n \<and> P (pk, n))" for P
    using assms by (force simp: image_iff)
  then show ?thesis by (auto split: option.splits)
qed

lemma parse_lines_target:
  "parse_lines b64 i ls out = Inr es \<Longrightarrow>
    map_of es t \<noteq> None \<longleftrightarrow> map_of out t \<noteq> None \<or> (\<exists>l \<in> set ls. \<not> keep_line b64 t l)"
proof (induction ls arbitrary: i out)
  case (Cons line ls)
  show ?case
  proof (cases "skip_line (trim line)")
    case True
    then show ?thesis using Cons.IH [of "i + 1" out] Cons.prems by (simp add: keep_line_def)
  next
    case False
    then obtain pk e where p: "parse_line b64 (trim line) = Some (pk, e)"
      using Cons.prems by (auto split: option.splits)
    then show ?thesis
      using Cons.IH [of "i + 1" "AList.update pk e out"] Cons.prems False
      by (auto simp: keep_line_def AList.update_conv')
  qed
qed simp

lemma parse_lines_snoc:
  "parse_lines b64 i ls out = Inr es \<Longrightarrow> \<not> skip_line (trim line) \<Longrightarrow> parse_line b64 (trim line) = Some (pk, e) \<Longrightarrow>
    parse_lines b64 i (ls @ [line]) out = Inr (AList.update pk e es)"
  by (induction ls arbitrary: i out) (auto split: if_splits option.splits)

lemma split_on_last_sep:
  "split_on c (a @ c # b) = split_on c a @ split_on c b"
  by (induction a) (auto split: list.split)

lemma split_on_subset: "p \<in> set (split_on c s) \<Longrightarrow> set p \<subseteq> set s"
  by (induction s arbitrary: p) (force split: list.splits if_splits)+

lemma split_on_snoc:
  "x \<noteq> c \<Longrightarrow> split_on c (t @ [x]) = butlast (split_on c t) @ [last (split_on c t) @ [x]]"
  by (induction t) (auto split: list.split)

lemma last_split_nonempty:
  assumes "s \<noteq> []" "last s \<noteq> c"
  shows "last (split_on c s) \<noteq> []"
  using assms split_on_snoc [of "last s" c "butlast s"] by simp

lemma strip_cr_last_split:
  assumes "CHR 0x0D \<notin> set text"
  shows "strip_cr (last (split_on CHR 0x0A text)) = last (split_on CHR 0x0A text)"
  using split_on_subset [of "last (split_on CHR 0x0A text)" "CHR 0x0A" "text"] assms
  by (auto simp: strip_cr_def dest: last_in_set)

lemma str_lines_snoc:
  assumes "CHR 0x0D \<notin> set text" "CHR 0x0A \<notin> set line" "CHR 0x0D \<notin> set line"
  shows "str_lines ((if text \<noteq> [] \<and> last text \<noteq> CHR 0x0A then text @ [CHR 0x0A] else text) @ line @ [CHR 0x0A]) =
    str_lines text @ [line]"
proof -
  have cr: "strip_cr line = line" using assms(3) by (metis last_in_set strip_cr_def)
  have line: "split_on CHR 0x0A (line @ [CHR 0x0A]) = [line, []]"
    using assms(2) by (simp add: split_on_append)
  show ?thesis
  proof (cases "text = []")
    case True
    then show ?thesis using cr by (simp add: str_lines_def line)
  next
    case False
    show ?thesis
    proof (cases "last text = CHR 0x0A")
      case True
      then obtain t where t: "text = t @ [CHR 0x0A]" using False by (metis append_butlast_last_id)
      have "split_on CHR 0x0A text = split_on CHR 0x0A t @ [[]]" by (simp add: t split_on_last_sep)
      moreover have "split_on CHR 0x0A (text @ line @ [CHR 0x0A]) = split_on CHR 0x0A t @ [line, []]"
        using line by (simp add: t split_on_last_sep)
      ultimately show ?thesis using True False cr by (simp add: str_lines_def butlast_append)
    next
      case nl: False
      have sp: "split_on CHR 0x0A (text @ CHR 0x0A # line @ [CHR 0x0A]) = split_on CHR 0x0A text @ [line, []]"
        using assms(2) by (simp add: split_on_last_sep split_on_no_sep)
      have ne: "last (split_on CHR 0x0A text) \<noteq> []"
        using False nl by (rule last_split_nonempty)
      have lcr: "strip_cr (last (split_on CHR 0x0A text)) = last (split_on CHR 0x0A text)"
        using assms(1) by (rule strip_cr_last_split)
      have "map strip_cr (split_on CHR 0x0A text) =
          map strip_cr (butlast (split_on CHR 0x0A text)) @ [strip_cr (last (split_on CHR 0x0A text))]"
        by (metis append_butlast_last_id list.simps(8,9) map_append split_on_nonempty)
      then show ?thesis
        using False nl ne cr lcr by (simp add: str_lines_def sp butlast_append Let_def)
    qed
  qed
qed

section \<open>Properties\<close>

text \<open>
  a successful reload installs exactly the parsed file and broadcasts a revocation
  for exactly the keys that were authorized before and are now absent or carry different
  authorization data; a key whose entry differs only in its comment is not revoked. A
  reload that fails to parse changes nothing.
\<close>

theorem reload_revokes_exactly:
  "case keys_reload b64 kr of
     (Inl e, kr') \<Rightarrow> kr' = kr \<and> parse_file b64 (kr_file kr) = Inl e
   | (Inr u, kr') \<Rightarrow> parse_file b64 (kr_file kr) = Inr (kr_entries kr') \<and> kr_file kr' = kr_file kr \<and>
       (\<exists>revoked. kr_revoked kr' = kr_revoked kr @ revoked \<and>
         (\<forall>pk. pk \<in> set revoked \<longleftrightarrow>
            (\<exists>old. keys_get pk kr = Some old \<and>
               (case keys_get pk kr' of None \<Rightarrow> True | Some new \<Rightarrow> \<not> authorization_equal old new))))"
proof (cases "parse_file b64 (kr_file kr)")
  case (Inl e)
  then show ?thesis by (simp add: keys_reload_def)
next
  case (Inr new)
  let ?rem = "filter (\<lambda>k. map_of new k = None) (map fst (kr_entries kr))"
  let ?mod = "map fst (filter (\<lambda>(k, n). case map_of (kr_entries kr) k of None \<Rightarrow> False
                | Some old \<Rightarrow> \<not> authorization_equal old n) new)"
  have kr': "keys_reload b64 kr = (Inr (), kr\<lparr>kr_entries := new, kr_revoked := kr_revoked kr @ ?rem @ ?mod\<rparr>)"
    using Inr by (simp add: keys_reload_def Let_def)
  have "pk \<in> set (?rem @ ?mod) \<longleftrightarrow>
      (\<exists>old. map_of (kr_entries kr) pk = Some old \<and>
         (case map_of new pk of None \<Rightarrow> True | Some n \<Rightarrow> \<not> authorization_equal old n))" for pk
    using mem_removed [of pk new "kr_entries kr"]
      mem_modified [OF parse_file_distinct [OF Inr], of pk "kr_entries kr"]
    by (cases "map_of new pk") auto
  then show ?thesis unfolding kr' by (auto simp: Inr keys_get_def)
qed

lemma remove_pubkey_spec:
  assumes on_disk: "kr_file kr = Some text" "CHR 0x0D \<notin> set text" "parse_file b64 (kr_file kr) = Inr es"
    and run: "remove_pubkey b64 True target kr = (r, kr')"
  shows "r = Inr (map_of es target \<noteq> None) \<and>
    (map_of es target \<noteq> None \<longrightarrow>
       keys_get target kr' = None \<and> (\<forall>pk. pk \<noteq> target \<longrightarrow> keys_get pk kr' = map_of es pk) \<and>
       parse_file b64 (kr_file kr') = Inr (kr_entries kr') \<and>
       (keys_get target kr \<noteq> None \<longrightarrow> target \<in> set (kr_revoked kr'))) \<and>
    (map_of es target = None \<longrightarrow> kr' = kr)"
proof -
  let ?ls = "str_lines text"
  let ?kept = "filter (keep_line b64 target) ?ls"
  have es: "parse_lines b64 0 ?ls [] = Inr es" using on_disk(1,3) by (simp add: parse_file_def parse_keys_text_def)
  have listed: "map_of es target \<noteq> None \<longleftrightarrow> (\<exists>l \<in> set ?ls. \<not> keep_line b64 target l)"
    using parse_lines_target [OF es] by simp
  obtain es' where es': "parse_lines b64 0 ?kept [] = Inr es'" and w: "without target es es'"
    using parse_lines_filter [OF es, of target "[]" 0] by (auto simp: without_def)
  have "str_lines (unlines ?kept) = ?kept"
    using str_lines_pieces [OF on_disk(2)] by (intro str_lines_unlines) auto
  then have p: "parse_file b64 (Some (unlines ?kept)) = Inr es'"
    using es' by (simp add: parse_file_def parse_keys_text_def)
  show ?thesis
  proof (cases "map_of es target = None")
    case True
    then have "\<not> (\<exists>l \<in> set ?ls. \<not> keep_line b64 target l)" using listed by simp
    then show ?thesis using run on_disk(1) True by (simp add: remove_pubkey_def)
  next
    case False
    then have ex: "(\<forall>l \<in> set ?ls. keep_line b64 target l) = False" using listed by blast
    obtain k where ok: "keys_reload b64 (kr\<lparr>kr_file := Some (unlines ?kept)\<rparr>) = (Inr (), k)"
      using p by (simp add: keys_reload_def Let_def)
    then have "remove_pubkey b64 True target kr = (Inr True, k)"
      using on_disk(1) ex by (simp add: remove_pubkey_def Let_def)
    then have r: "r = Inr True" "kr' = snd (keys_reload b64 (kr\<lparr>kr_file := Some (unlines ?kept)\<rparr>))"
      using run ok by simp_all
    have "kr_entries kr' = es'" "kr_file kr' = Some (unlines ?kept)"
      "\<forall>pk. map_of (kr_entries kr) pk \<noteq> None \<longrightarrow> map_of es' pk = None \<longrightarrow> pk \<in> set (kr_revoked kr')"
      using p by (auto simp: r(2) keys_reload_def Let_def intro: image_eqI [OF _ map_of_SomeD])
    then show ?thesis using w False p r(1) by (auto simp: keys_get_def without_def)
  qed
qed

text \<open>
  C35: \<^verbatim>\<open>remove_pubkey\<close> on a well-formed file reports whether the key was listed; when it
  was, the key is gone from the file and from memory, every other entry is what the file
  said, and a session of a key that was authorized is told of the revocation.
\<close>

theorem remove_pubkey_correct:
  assumes on_disk: "kr_file kr = Some text" "CHR 0x0D \<notin> set text" "parse_file b64 (kr_file kr) = Inr es"
    and run: "remove_pubkey b64 True target kr = (r, kr')"
  shows "r = Inr (map_of es target \<noteq> None) \<and>
    (map_of es target \<noteq> None \<longrightarrow>
       keys_get target kr' = None \<and> (\<forall>pk. pk \<noteq> target \<longrightarrow> keys_get pk kr' = map_of es pk) \<and>
       parse_file b64 (kr_file kr') = Inr (kr_entries kr') \<and>
       (keys_get target kr \<noteq> None \<longrightarrow> target \<in> set (kr_revoked kr'))) \<and>
    (map_of es target = None \<longrightarrow> kr' = kr)"
  using assms by (rule remove_pubkey_spec)

definition demo_b64 :: "string \<Rightarrow> bytes option" where
  "demo_b64 s = Some (replicate 32 (of_nat (length s)))"

definition demo_keys :: KeyRegistry where
  "demo_keys = \<lparr>kr_file = Some (''ed25519 A'' @ [CHR 0x0A] @ ''ed25519 BB conns=2'' @ [CHR 0x0A]),
     kr_entries = [(replicate 32 1, default_entry)], kr_revoked = []\<rparr>"

lemma demo_keys_parse:
  "parse_file demo_b64 (kr_file demo_keys) =
      Inr [(replicate 32 1, default_entry), (replicate 32 2, default_entry\<lparr>ae_max_conns := Some 2\<rparr>)]"
  "kr_file demo_keys = Some (''ed25519 A'' @ [CHR 0x0A] @ ''ed25519 BB conns=2'' @ [CHR 0x0A])"
proof -
  have l: "parse_line demo_b64 ''ed25519 A'' = Some (replicate 32 1, default_entry)"
    "parse_line demo_b64 ''ed25519 BB conns=2'' = Some (replicate 32 2, default_entry\<lparr>ae_max_conns := Some 2\<rparr>)"
    by (simp_all add: parse_line_def demo_b64_def line_comment_def parse_options_def add_fragment_def
        apply_option_def known_options_def continue_value_def default_entry_def parse_uint_def digits_val_def
        digit_val_def is_ascii_digit_def less_eq_char_def str_eval)
  show "parse_file demo_b64 (kr_file demo_keys) =
      Inr [(replicate 32 1, default_entry), (replicate 32 2, default_entry\<lparr>ae_max_conns := Some 2\<rparr>)]"
    by (simp add: parse_file_def parse_keys_text_def demo_keys_def str_eval l skip_line_def)
qed (simp add: demo_keys_def)

theorem remove_pubkey_correct_witness:
  "keys_get (replicate 32 1) (snd (remove_pubkey demo_b64 True (replicate 32 1) demo_keys)) = None \<and>
   replicate 32 1 \<in> set (kr_revoked (snd (remove_pubkey demo_b64 True (replicate 32 1) demo_keys)))"
  using remove_pubkey_correct [OF demo_keys_parse(2) _ demo_keys_parse(1) surjective_pairing, of "replicate 32 1"]
  by (simp add: keys_get_def demo_keys_def)

lemma parse_line_not_skipped:
  "parse_line b64 line = Some (pk, e) \<Longrightarrow> \<not> skip_line line"
  by (cases line) (auto simp: skip_line_def starts_with_def parse_line_def str_eval split: list.splits)

text \<open>
  appending a well-formed line (trimmed, one line) keeps memory and disk in step:
  the rewritten file parses to the entries held in memory, the new key has the entry its
  line declares, no other key changes and nothing is revoked.
\<close>

theorem append_line_in_step:
  assumes on_disk: "kr_file kr = Some text" "CHR 0x0D \<notin> set text" "parse_file b64 (kr_file kr) = Inr es"
    and in_step: "map_of es = map_of (kr_entries kr)"
    and line: "CHR 0x0A \<notin> set line" "CHR 0x0D \<notin> set line" "trim line = line"
    and parsed: "parse_line b64 line = Some (pk, e)"
  shows "\<exists>kr' es'. append_line b64 True line kr = (Inr (trim_end line), kr') \<and>
    parse_file b64 (kr_file kr') = Inr es' \<and> map_of es' = map_of (kr_entries kr') \<and>
    map_of (kr_entries kr') = (map_of (kr_entries kr))(pk \<mapsto> e) \<and> kr_revoked kr' = kr_revoked kr"
proof -
  have last: "\<not> (line \<noteq> [] \<and> last line = CHR 0x0A)" using line(1) last_in_set by fastforce
  let ?new = "(if text \<noteq> [] \<and> last text \<noteq> CHR 0x0A then text @ [CHR 0x0A] else text) @ line @ [CHR 0x0A]"
  have app: "append_line b64 True line kr =
      (Inr (trim_end line), kr\<lparr>kr_file := Some ?new, kr_entries := AList.update pk e (kr_entries kr)\<rparr>)"
    using parsed on_disk(1) last by (auto simp: append_line_def Let_def)
  have "parse_lines b64 0 (str_lines text @ [line]) [] = Inr (AList.update pk e es)"
    using parse_lines_snoc [of b64 0 "str_lines text" "[]" es line pk e] on_disk(1,3) line(3) parsed
      parse_line_not_skipped [OF parsed]
    by (simp add: parse_file_def parse_keys_text_def)
  then have "parse_file b64 (Some ?new) = Inr (AList.update pk e es)"
    using str_lines_snoc [OF on_disk(2) line(1,2)] by (simp add: parse_file_def parse_keys_text_def)
  then show ?thesis unfolding app using in_step by (simp add: AList.update_conv')
qed

theorem append_line_in_step_witness:
  "\<exists>kr' es'. append_line demo_b64 True ''ed25519 CCC''
       \<lparr>kr_file = Some [], kr_entries = [], kr_revoked = []\<rparr> = (Inr (trim_end ''ed25519 CCC''), kr') \<and>
     parse_file demo_b64 (kr_file kr') = Inr es' \<and> map_of es' = map_of (kr_entries kr') \<and>
     map_of (kr_entries kr') = [replicate 32 3 \<mapsto> default_entry] \<and> kr_revoked kr' = []"
proof -
  have l: "parse_line demo_b64 ''ed25519 CCC'' = Some (replicate 32 3, default_entry)"
    by (simp add: parse_line_def demo_b64_def line_comment_def parse_options_def add_fragment_def
        continue_value_def default_entry_def str_eval)
  have p: "parse_file demo_b64 (kr_file \<lparr>kr_file = Some [], kr_entries = [], kr_revoked = []\<rparr>) = Inr []"
    by (simp add: parse_file_def parse_keys_text_def str_eval)
  show ?thesis
    using append_line_in_step [of "\<lparr>kr_file = Some [], kr_entries = [], kr_revoked = []\<rparr>" "[]" demo_b64 "[]"
        "''ed25519 CCC''", OF _ _ p _ _ _ _ l]
    by (simp add: str_eval)
qed

lemma check_collision_from_spec:
  "check_collision_from find_owner peers label self m =
    (case find (\<lambda>p. \<exists>o'. find_owner p label = Found o' \<and> o' \<noteq> self) peers of
       Some p \<Rightarrow> Conflict p
     | None \<Rightarrow> Clear (m @ filter (\<lambda>p. find_owner p label = Found self) peers))"
  by (induction peers arbitrary: m) (auto split: PeerLookupOutcome.split option.split)

lemma check_collision_eq:
  "check_collision find_owner peers label self =
    (case find (\<lambda>p. \<exists>o'. find_owner p label = Found o' \<and> o' \<noteq> self) peers of
       Some p \<Rightarrow> Conflict p
     | None \<Rightarrow> Clear (filter (\<lambda>p. find_owner p label = Found self) peers))"
  by (simp add: check_collision_def check_collision_from_spec split: option.split)

text \<open>
  \<^verbatim>\<open>check_collision\<close> reports a conflict with the first configured peer that knows the
  label under another key, and otherwise the peers that know it under this key, in
  configuration order; unreachable peers never block a registration.
\<close>

theorem check_collision_spec:
  "check_collision find_owner peers label self =
    (case find (\<lambda>p. \<exists>o'. find_owner p label = Found o' \<and> o' \<noteq> self) peers of
       Some p \<Rightarrow> Conflict p
     | None \<Rightarrow> Clear (filter (\<lambda>p. find_owner p label = Found self) peers))"
  by (rule check_collision_eq)

text \<open>
  an option the parser does not know is not ignored: it is appended to the value of
  the option before it, so after \<^verbatim>\<open>bw=50MB/s\<close> the bandwidth cap no longer parses
  and the key is unlimited.
\<close>

theorem unknown_option_spoils_previous:
  assumes "CHR '','' \<notin> set v" "CHR '','' \<notin> set tok"
    "case split_once CHR ''='' tok of None \<Rightarrow> True | Some (k, w) \<Rightarrow> k \<notin> set known_options"
  shows "ae_bw (parse_options [''bw='' @ v, tok]) = parse_rate_per (v @ '','' @ tok)"
proof -
  have sp: "split_on CHR '','' (''bw='' @ v @ '','' @ tok) = [''bw='' @ v, tok]"
    using assms(1,2) split_on_append [of "CHR '',''" "''bw='' @ v" tok] by (simp add: split_on_no_sep)
  have bw: "add_fragment [] (''bw='' @ v) = [(''bw'', v)]"
    by (simp add: add_fragment_def known_options_def)
  have unknown: "add_fragment [(''bw'', v)] tok = [(''bw'', v @ '','' @ tok)]"
    using assms(3) by (auto simp: add_fragment_def continue_value_def split: option.splits)
  show ?thesis
    unfolding parse_options_def using sp bw unknown by (simp add: apply_option_def default_entry_def)
qed

theorem unknown_option_spoils_previous_witness:
  "ae_bw (parse_options [''bw=50MB/s'', ''foo=1'']) = None \<and>
   ae_bw (parse_options [''bw=50MB/s'']) = Some \<lparr>rp_bytes = 50000000, rp_period = Second\<rparr>"
proof -
  have "parse_rate_per (''50MB/s'' @ '','' @ ''foo=1'') = None"
    "ae_bw (parse_options [''bw=50MB/s'']) = Some \<lparr>rp_bytes = 50000000, rp_period = Second\<rparr>"
    by (simp_all add: parse_options_def add_fragment_def known_options_def apply_option_def default_entry_def
        parse_rate_per_def rsplit_once_def parse_period_def parse_bytes_def unit_mul_def parse_uint_def
        digits_val_def digit_val_def is_ascii_digit_def less_eq_char_def str_eval)
  then show ?thesis
    using unknown_option_spoils_previous [of "''50MB/s''" "''foo=1''"] by (simp add: known_options_def)
qed

definition show_range :: "nat \<times> nat \<Rightarrow> string" where
  "show_range r = (if fst r = snd r then show_nat (fst r) else show_nat (fst r) @ ''-'' @ show_nat (snd r))"

lemma show_nat_chars:
  assumes "\<not> is_ascii_digit c"
  shows "c \<notin> set (show_nat n)"
  using show_nat_digits [of n] assms by (auto simp: list_all_iff)

lemma trim_show_nat: "trim (show_nat n) = show_nat n"
  using show_nat_digits [of n] by (intro trim_graphic) (auto simp: list_all_iff digit_graphic)

lemma parse_port_part_show:
  assumes "fst r \<le> snd r" "snd r < 2 ^ 16"
  shows "parse_port_part (show_range r) = Some (map word_of_nat [fst r ..< Suc (snd r)])"
proof -
  have d: "CHR ''-'' \<notin> set (show_nat n)" for n
    by (rule show_nat_chars) (simp add: is_ascii_digit_def less_eq_char_def)
  have g: "trim (show_nat m @ ''-'' @ show_nat n) = show_nat m @ ''-'' @ show_nat n" for m n
    using show_nat_digits [of m] show_nat_digits [of n]
    by (intro trim_graphic) (auto simp: list_all_iff digit_graphic graphic_def [of "CHR ''-''"])
  have so: "split_once CHR ''-'' (show_nat m) = None"
    "split_once CHR ''-'' (show_nat m @ ''-'' @ show_nat n) = Some (show_nat m, show_nat n)" for m n
    using d by (simp_all add: split_once_None split_once_Some)
  show ?thesis
    using assms trim_show_nat parse_show_nat [of _ 16] g so
    by (cases "fst r = snd r") (auto simp: parse_port_part_def show_range_def Let_def)
qed

lemma parse_port_parts_show:
  "list_all (\<lambda>r. fst r \<le> snd r \<and> snd r < 2 ^ 16) rs \<Longrightarrow>
    parse_port_parts (map show_range rs) = Some (concat (map (\<lambda>r. map word_of_nat [fst r ..< Suc (snd r)]) rs))"
  by (induction rs) (auto simp: parse_port_part_show)

lemma split_on_join:
  "ps \<noteq> [] \<Longrightarrow> list_all (\<lambda>p. c \<notin> set p) ps \<Longrightarrow> split_on c (join [c] ps) = ps"
  by (induction ps rule: induct_list012) (auto simp: split_on_no_sep split_on_append)

text \<open>
  the ports option reads back a written list of ports and inclusive ranges as
  exactly the ports they contain, in order.
\<close>

theorem parse_ports_roundtrip:
  assumes "rs \<noteq> []" "list_all (\<lambda>r. fst r \<le> snd r \<and> snd r < 2 ^ 16) rs"
  shows "parse_ports (join '','' (map show_range rs)) =
    Some (concat (map (\<lambda>r. map word_of_nat [fst r ..< Suc (snd r)]) rs))"
proof -
  have "CHR '','' \<notin> set (show_range r)" for r
    using show_nat_chars [of "CHR '',''"] by (simp add: show_range_def is_ascii_digit_def less_eq_char_def)
  then have "split_on CHR '','' (join '','' (map show_range rs)) = map show_range rs"
    using assms(1) by (intro split_on_join) (auto simp: list_all_iff)
  moreover have "concat (map (\<lambda>r. map word_of_nat [fst r ..< Suc (snd r)]) rs) \<noteq> ([] :: u16 list)"
    using assms by (cases rs) auto
  ultimately show ?thesis using parse_port_parts_show [OF assms(2)] by (simp add: parse_ports_def)
qed

theorem parse_ports_roundtrip_witness:
  "parse_ports (join '','' [show_range (80, 80), show_range (8000, 8002)]) = Some [80, 8000, 8001, 8002]"
  using parse_ports_roundtrip [of "[(80, 80), (8000, 8002)]"] by (simp add: upt_rec)

end
