(* ===== verification/Admin.thy ===== *)
theory Admin
  imports Keys Stream_IO "HOL-Library.DAList"
begin

text \<open>
  The error type of the server (\<^verbatim>\<open>krot-server/src/error.rs\<close>) and the bootstrap admin token
  of \<^verbatim>\<open>admin.rs\<close>: issue, single-use consumption and the comparison it rests on. BLAKE3,
  base32 and the random bytes are parameters; the clock is an argument, in milliseconds.
  The contracts \<^verbatim>\<open>byte_eq\<close> (a comparison that decides equality) and \<^verbatim>\<open>expiring_store\<close> (a
  table of tokens with expiry) are the interfaces that the admin API and the login pages
  of the client rely on.
\<close>

section \<open>Errors\<close>

datatype ServerError =
    SE_Io
  | SE_Transport TransportError
  | SE_Rustls string
  | SE_Rcgen string
  | SE_Keys KeysError
  | SE_AdminToken string
  | SE_Protocol string
  | SE_PortPoolExhausted

section \<open>Constant-time comparison\<close>

definition constant_time_eq_public :: "bytes \<Rightarrow> bytes \<Rightarrow> bool" where
  "constant_time_eq_public a b =
    (if length a \<noteq> length b then False
     else foldl (\<lambda>acc (x, y). or acc (xor x y)) 0 (zip a b) = 0)"

definition constant_time_eq :: "bytes \<Rightarrow> bytes \<Rightarrow> bool" where
  "constant_time_eq a b = constant_time_eq_public a b"

section \<open>The token store\<close>

record TokenState =
  ts_hash :: bytes
  ts_expires_at :: nat

record AdminTokenStore =
  at_state :: "TokenState option"
  at_hash_file :: "bytes option"

definition token_store_new :: "bytes option \<Rightarrow> AdminTokenStore" where
  "token_store_new hash_file = \<lparr>at_state = None, at_hash_file = hash_file\<rparr>"

definition token_issue ::
  "(bytes \<Rightarrow> string) \<Rightarrow> (string \<Rightarrow> bytes) \<Rightarrow> bool \<Rightarrow> nat \<Rightarrow> bytes \<Rightarrow> AdminTokenStore
    \<Rightarrow> (ServerError, string) result \<times> AdminTokenStore" where
  "token_issue base32 blake3 write_ok now raw s =
    (let token = base32 raw;
         hash = blake3 token
     in if \<not> write_ok then (Inl SE_Io, s)
        else (Inr token,
              s\<lparr>at_hash_file := Some hash,
                at_state := Some \<lparr>ts_hash = hash, ts_expires_at = now + ADMIN_TOKEN_TTL\<rparr>\<rparr>))"

definition token_consume ::
  "(string \<Rightarrow> bytes) \<Rightarrow> nat \<Rightarrow> string \<Rightarrow> AdminTokenStore \<Rightarrow> (ServerError, unit) result \<times> AdminTokenStore" where
  "token_consume blake3 now presented s =
    (case at_state s of
       None \<Rightarrow> (Inl (SE_AdminToken ''no admin token issued''), s)
     | Some st \<Rightarrow>
        if now \<ge> ts_expires_at st
        then (Inl (SE_AdminToken ''admin token expired''), s\<lparr>at_state := None, at_hash_file := None\<rparr>)
        else if \<not> constant_time_eq (blake3 presented) (ts_hash st)
        then (Inl (SE_AdminToken ''admin token mismatch''), s)
        else (Inr (), s\<lparr>at_state := None, at_hash_file := None\<rparr>))"

definition token_is_active :: "AdminTokenStore \<Rightarrow> bool" where
  "token_is_active s \<longleftrightarrow> at_state s \<noteq> None"

text \<open>A series of attempts, as times and presented tokens, and which of them succeed.\<close>

fun consume_all :: "(string \<Rightarrow> bytes) \<Rightarrow> (nat \<times> string) list \<Rightarrow> AdminTokenStore \<Rightarrow> bool list" where
  "consume_all blake3 [] s = []"
| "consume_all blake3 ((now, presented) # as) s =
    (let (r, s') = token_consume blake3 now presented s in (r = Inr ()) # consume_all blake3 as s')"

section \<open>The comparison contract\<close>

locale byte_eq =
  fixes eq :: "bytes \<Rightarrow> bytes \<Rightarrow> bool"
  assumes eq_iff: "eq a b \<longleftrightarrow> a = b"
begin

lemma any_eq: "foldl (\<lambda>hit known. hit \<or> eq candidate known) hit ks \<longleftrightarrow> hit \<or> candidate \<in> set ks"
  by (induction ks arbitrary: hit) (auto simp: eq_iff)

lemma eq_commute: "eq a b = eq b a"
  by (auto simp: eq_iff)

end

lemma foldl_or_xor_zero:
  fixes acc :: "'a :: len word"
  shows "length a = length b \<Longrightarrow> foldl (\<lambda>acc (x, y). or acc (xor x y)) acc (zip a b) = 0 \<longleftrightarrow> acc = 0 \<and> a = b"
proof (induction a b arbitrary: acc rule: list_induct2)
  case (Cons x xs y ys)
  have "or acc (xor x y) = 0 \<longleftrightarrow> acc = 0 \<and> x = y"
    by (auto simp: bit_eq_iff bit_or_iff bit_xor_iff)
  then show ?case using Cons by simp
qed simp

interpretation server_eq: byte_eq constant_time_eq
  by unfold_locales (auto simp: constant_time_eq_def constant_time_eq_public_def foldl_or_xor_zero)

section \<open>The token-table contract\<close>

datatype 'k store_op = Add nat 'k | Check nat 'k

fun store_run ::
  "(nat \<Rightarrow> 'k \<Rightarrow> 's \<Rightarrow> 's) \<Rightarrow> (nat \<Rightarrow> 'k \<Rightarrow> 's \<Rightarrow> bool \<times> 's) \<Rightarrow> 'k store_op list \<Rightarrow> 's \<Rightarrow> 's" where
  "store_run add check [] s = s"
| "store_run add check (Add now k # ops) s = store_run add check ops (add now k s)"
| "store_run add check (Check now k # ops) s = store_run add check ops (snd (check now k s))"

text \<open>Lookup in a table that kept only the entries not yet expired.\<close>

lemma map_of_filter_value:
  "distinct (map fst xs) \<Longrightarrow> map_of (filter (\<lambda>(_, e). P e) xs) k = Some e \<longleftrightarrow> map_of xs k = Some e \<and> P e"
proof (induction xs)
  case (Cons x xs)
  obtain a b where x: "x = (a, b)" by (cases x)
  have "map_of xs a = None" using Cons.prems x by (auto simp: map_of_eq_None_iff)
  then show ?case using Cons x by auto
qed simp

lemma lookup_live:
  "DAList.lookup (DAList.filter (\<lambda>(_, e). now < (e :: nat)) s) k = Some e \<longleftrightarrow> DAList.lookup s k = Some e \<and> now < e"
  by transfer (simp add: map_of_filter_value)

locale expiring_store =
  fixes expiry :: "'s \<Rightarrow> 'k \<Rightarrow> nat option"
    and blank :: 's
    and add :: "nat \<Rightarrow> 'k \<Rightarrow> 's \<Rightarrow> 's"
    and check :: "nat \<Rightarrow> 'k \<Rightarrow> 's \<Rightarrow> bool \<times> 's"
    and ttl :: nat
  assumes blank: "expiry blank k = None"
    and add_new: "expiry (add now k s) k = Some (now + ttl)"
    and add_other: "k' \<noteq> k \<Longrightarrow> expiry (add now k s) k' = Some e \<Longrightarrow> expiry s k' = Some e"
    and check_iff: "fst (check now k s) \<longleftrightarrow> (\<exists>e. expiry s k = Some e \<and> now < e)"
    and check_keeps: "expiry (snd (check now k s)) k' = Some e \<Longrightarrow>
      expiry s k' = Some e \<or> k' = k \<and> fst (check now k s) \<and> e = now + ttl"
begin

text \<open>A token that is not in the table is there later only if it was added.\<close>

lemma no_resurrection:
  "expiry s k = None \<Longrightarrow> expiry (store_run add check ops s) k = Some e \<Longrightarrow> \<exists>t. Add t k \<in> set ops"
proof (induction ops arbitrary: s)
  case (Cons op ops)
  show ?case
  proof (cases op)
    case (Add t k')
    show ?thesis
    proof (cases "expiry (add t k' s) k")
      case None
      then show ?thesis using Cons.IH [of "add t k' s"] Cons.prems Add by auto
    next
      case (Some e')
      then have "k' = k" using add_other [of k k' t s e'] Cons.prems(1) by auto
      then show ?thesis using Add by auto
    qed
  next
    case (Check t k')
    have "expiry (snd (check t k' s)) k = None"
    proof (cases "expiry (snd (check t k' s)) k")
      case (Some e')
      then show ?thesis using check_keeps [of t k' s k e'] check_iff [of t k' s] Cons.prems(1) by auto
    qed
    then show ?thesis using Cons.IH [of "snd (check t k' s)"] Cons.prems Check by auto
  qed
qed simp

text \<open>An expiry is that of the start, or the lifetime after an operation on the token.\<close>

lemma expiry_origin:
  "expiry (store_run add check ops s) k = Some e \<Longrightarrow>
    expiry s k = Some e \<or> (\<exists>t. (Add t k \<in> set ops \<or> Check t k \<in> set ops) \<and> e = t + ttl)"
proof (induction ops arbitrary: s)
  case (Cons op ops)
  show ?case
  proof (cases op)
    case (Add t k')
    then show ?thesis
      using Cons.IH [of "add t k' s"] Cons.prems add_new [of t k s] add_other [of k k' t s e]
      by (cases "k' = k") auto
  next
    case (Check t k')
    then show ?thesis
      using Cons.IH [of "snd (check t k' s)"] Cons.prems check_keeps [of t k' s k e] by auto
  qed
qed simp

lemma accepted_was_added:
  assumes "fst (check now k (store_run add check ops blank))"
  shows "(\<exists>t. Add t k \<in> set ops) \<and> (\<exists>t. (Add t k \<in> set ops \<or> Check t k \<in> set ops) \<and> now < t + ttl)"
proof -
  obtain e where e: "expiry (store_run add check ops blank) k = Some e" "now < e"
    using assms check_iff by blast
  then show ?thesis
    using no_resurrection [OF blank e(1)] expiry_origin [OF e(1)] blank [of k] by auto
qed

end

text \<open>A table whose checks never extend a lifetime.\<close>

locale fixed_expiry_store = expiring_store +
  assumes check_fixed: "expiry (snd (check now k s)) k' = Some e \<Longrightarrow> expiry s k' = Some e"
begin

lemma expiry_from_add:
  "expiry (store_run add check ops s) k = Some e \<Longrightarrow> expiry s k = Some e \<or> (\<exists>t. Add t k \<in> set ops \<and> e = t + ttl)"
proof (induction ops arbitrary: s)
  case (Cons op ops)
  show ?case
  proof (cases op)
    case (Add t k')
    then show ?thesis
      using Cons.IH [of "add t k' s"] Cons.prems add_new [of t k s] add_other [of k k' t s e]
      by (cases "k' = k") auto
  next
    case (Check t k')
    then show ?thesis using Cons.IH [of "snd (check t k' s)"] Cons.prems check_fixed [of t k' s k e] by auto
  qed
qed simp

lemma accepted_was_minted:
  assumes "fst (check now k (store_run add check ops blank))"
  shows "\<exists>t. Add t k \<in> set ops \<and> now < t + ttl"
proof -
  obtain e where e: "expiry (store_run add check ops blank) k = Some e" "now < e"
    using assms check_iff by blast
  then show ?thesis using expiry_from_add [OF e(1)] blank [of k] by auto
qed

end

text \<open>A table whose tokens can be taken out, and a run that takes tokens out in between.\<close>

datatype 'k revocable_op = Do "'k store_op" | Revoke 'k

fun revocable_run ::
  "(nat \<Rightarrow> 'k \<Rightarrow> 's \<Rightarrow> 's) \<Rightarrow> (nat \<Rightarrow> 'k \<Rightarrow> 's \<Rightarrow> bool \<times> 's) \<Rightarrow> ('k \<Rightarrow> 's \<Rightarrow> 's) \<Rightarrow> 'k revocable_op list \<Rightarrow> 's \<Rightarrow> 's" where
  "revocable_run add check revoke [] s = s"
| "revocable_run add check revoke (Do op # ops) s = revocable_run add check revoke ops (store_run add check [op] s)"
| "revocable_run add check revoke (Revoke k # ops) s = revocable_run add check revoke ops (revoke k s)"

lemma revocable_run_append:
  "revocable_run add check revoke (xs @ ys) s = revocable_run add check revoke ys (revocable_run add check revoke xs s)"
proof (induction xs arbitrary: s)
  case (Cons op xs)
  then show ?case by (cases op) auto
qed simp

locale revocable_store = expiring_store +
  fixes revoke :: "'b \<Rightarrow> 'a \<Rightarrow> 'a"
  assumes revoke_gone: "expiry (revoke k s) k = None"
    and revoke_other: "k' \<noteq> k \<Longrightarrow> expiry (revoke k s) k' = expiry s k'"
begin

text \<open>A token in the table was added, not taken out since, and lives from an operation on it since.\<close>

lemma expiry_since_add:
  "expiry (revocable_run add check revoke ops blank) k = Some e \<Longrightarrow>
    \<exists>a t b. ops = a @ Do (Add t k) # b \<and> Revoke k \<notin> set b \<and>
      (\<exists>t'. (t' = t \<or> Do (Add t' k) \<in> set b \<or> Do (Check t' k) \<in> set b) \<and> e = t' + ttl)"
proof (induction ops arbitrary: e rule: rev_induct)
  case Nil
  then show ?case by (simp add: blank)
next
  case (snoc op ops)
  let ?s = "revocable_run add check revoke ops blank"
  have grow: ?case if old: "expiry ?s k = Some e'" and op: "op \<noteq> Revoke k"
    and e: "e = e' \<or> (\<exists>t'. op = Do (Check t' k) \<and> e = t' + ttl)" for e'
  proof -
    obtain a t b t' where ih: "ops = a @ Do (Add t k) # b" "Revoke k \<notin> set b"
      "t' = t \<or> Do (Add t' k) \<in> set b \<or> Do (Check t' k) \<in> set b" "e' = t' + ttl"
      using snoc.IH [OF old] by blast
    show ?thesis by (rule exI [of _ a], rule exI [of _ t], rule exI [of _ "b @ [op]"]) (use ih op e in auto)
  qed
  show ?case
  proof (cases op)
    case (Revoke k')
    then have "k' \<noteq> k" "expiry ?s k = Some e"
      using snoc.prems revoke_gone revoke_other by (auto simp: revocable_run_append) (metis option.distinct(1))
    then show ?thesis using grow Revoke by simp
  next
    case (Do sop)
    show ?thesis
    proof (cases sop)
      case (Add t k')
      show ?thesis
      proof (cases "k' = k")
        case True
        then have "e = t + ttl" using snoc.prems Do Add add_new by (simp add: revocable_run_append)
        then show ?thesis using Do Add True by (intro exI [of _ ops] exI [of _ t] exI [of _ "[]"]) simp
      next
        case False
        then have "expiry ?s k = Some e" using snoc.prems Do Add add_other [of k k' t ?s e] by (simp add: revocable_run_append)
        then show ?thesis using grow Do by simp
      qed
    next
      case (Check t k')
      then have "expiry ?s k = Some e \<or> k = k' \<and> fst (check t k' ?s) \<and> e = t + ttl"
        using snoc.prems Do check_keeps [of t k' ?s k e] by (simp add: revocable_run_append)
      then show ?thesis
      proof
        assume "expiry ?s k = Some e"
        then show ?thesis using grow Do by simp
      next
        assume c: "k = k' \<and> fst (check t k' ?s) \<and> e = t + ttl"
        then obtain e' where "expiry ?s k = Some e'" using check_iff [of t k' ?s] by auto
        then show ?thesis using grow [of e'] Do Check c by simp
      qed
    qed
  qed
qed

lemma accepted_since_add:
  assumes "fst (check now k (revocable_run add check revoke ops blank))"
  shows "\<exists>a t b. ops = a @ Do (Add t k) # b \<and> Revoke k \<notin> set b \<and>
    (\<exists>t'. (t' = t \<or> Do (Add t' k) \<in> set b \<or> Do (Check t' k) \<in> set b) \<and> now < t' + ttl)"
proof -
  obtain e where "expiry (revocable_run add check revoke ops blank) k = Some e" "now < e"
    using assms check_iff [of now k "revocable_run add check revoke ops blank"] by blast
  then show ?thesis using expiry_since_add [of ops k e] by blast
qed

end

section \<open>Properties\<close>

lemma consume_none: "at_state s = None \<Longrightarrow> consume_all blake3 as s = replicate (length as) False"
proof (induction as arbitrary: s)
  case (Cons a as)
  then show ?case by (cases a) (simp add: token_consume_def Let_def)
qed simp

lemma consume_all_nth:
  assumes "at_state s = Some st" "i < length as"
  shows "consume_all blake3 as s ! i \<longleftrightarrow>
    fst (as ! i) < ts_expires_at st \<and> blake3 (snd (as ! i)) = ts_hash st \<and>
    (\<forall>j < i. fst (as ! j) < ts_expires_at st \<and> blake3 (snd (as ! j)) \<noteq> ts_hash st)"
  using assms
proof (induction as arbitrary: s i)
  case (Cons a as)
  obtain now p where a: "a = (now, p)" by (cases a)
  let ?hit = "blake3 p = ts_hash st"
  show ?case
  proof (cases "now < ts_expires_at st \<and> \<not> ?hit")
    case True
    then have c: "token_consume blake3 now p s = (Inl (SE_AdminToken ''admin token mismatch''), s)"
      using Cons.prems(1) by (simp add: token_consume_def server_eq.eq_iff)
    show ?thesis
    proof (cases i)
      case (Suc n)
      then have "(\<forall>j < i. P j) \<longleftrightarrow> P 0 \<and> (\<forall>j < n. P (Suc j))" for P
        by (metis less_Suc_eq_0_disj)
      then show ?thesis using Cons.IH [of s n] Cons.prems True Suc by (simp add: a c)
    qed (use True in \<open>simp add: a c\<close>)
  next
    case False
    then obtain s' r where c: "token_consume blake3 now p s = (r, s')" "at_state s' = None"
      "r = Inr () \<longleftrightarrow> now < ts_expires_at st \<and> ?hit"
      using Cons.prems(1) by (cases "now < ts_expires_at st") (auto simp: token_consume_def server_eq.eq_iff)
    then show ?thesis
      using False Cons.prems(2) by (cases i) (auto simp: a consume_none)
  qed
qed simp

text \<open>
  C28: an admin token works at most once and only in time. After a token is issued, the
  attempt that succeeds is the first one that presents a string with the token's hash,
  provided it and every attempt before it come before the token expires; every other
  attempt fails.
\<close>

theorem admin_token_single_use:
  assumes "token_issue base32 blake3 True t0 raw s = (Inr token, s')" "i < length as"
  shows "consume_all blake3 as s' ! i \<longleftrightarrow>
    fst (as ! i) < t0 + ADMIN_TOKEN_TTL \<and> blake3 (snd (as ! i)) = blake3 token \<and>
    (\<forall>j < i. fst (as ! j) < t0 + ADMIN_TOKEN_TTL \<and> blake3 (snd (as ! j)) \<noteq> blake3 token)"
  using assms consume_all_nth [of s' "\<lparr>ts_hash = blake3 token, ts_expires_at = t0 + ADMIN_TOKEN_TTL\<rparr>" i as]
  by (auto simp: token_issue_def Let_def)

theorem admin_token_single_use_witness:
  "consume_all (map (\<lambda>c. of_char c)) [(5, ''x''), (6, ''tok''), (7, ''tok'')]
     (snd (token_issue (\<lambda>_. ''tok'') (map (\<lambda>c. of_char c)) True 0 [] (token_store_new None))) ! 1"
proof -
  have "token_issue (\<lambda>_. ''tok'') (map (\<lambda>c. of_char c)) True 0 [] (token_store_new None) =
      (Inr ''tok'', snd (token_issue (\<lambda>_. ''tok'') (map (\<lambda>c. of_char c)) True 0 [] (token_store_new None)))"
    by (simp add: token_issue_def Let_def)
  from admin_token_single_use [OF this, of 1 "[(5, ''x''), (6, ''tok''), (7, ''tok'')]"]
  show ?thesis by (simp add: ADMIN_TOKEN_TTL_def del: consume_all.simps)
qed

end
