(* ===== verification/Handshake.thy ===== *)
theory Handshake
  imports Admin
begin

text \<open>
  The Control-stream handshake of \<^verbatim>\<open>krot-server/src/handshake.rs\<close>. A Control stream is
  modelled at the level of frames: what the successive reads return, the frames written
  so far, and how many more writes succeed before the transport fails. Signature
  verification, base64 and BLAKE3 are the fields of \<^verbatim>\<open>Crypto\<close>; the random nonce and session
  id, the clock and the outcome of the key-file write are those of \<^verbatim>\<open>HsEnv\<close>.
\<close>

section \<open>Control streams\<close>

record ControlStream =
  cs_kind :: "(TransportError, u8) result"
  cs_in :: "(TransportError, ClientFrame) result list"
  cs_out :: "ServerFrame list"
  cs_writes :: nat
  cs_finished :: bool

definition recv_frame :: "ControlStream \<Rightarrow> (TransportError, ClientFrame) result \<times> ControlStream" where
  "recv_frame cs =
    (case cs_in cs of [] \<Rightarrow> (Inl UnexpectedEof, cs) | r # rs \<Rightarrow> (r, cs\<lparr>cs_in := rs\<rparr>))"

definition send_frame :: "ServerFrame \<Rightarrow> ControlStream \<Rightarrow> (ServerError, unit) result \<times> ControlStream" where
  "send_frame f cs =
    (if cs_writes cs = 0 then (Inl (SE_Transport UnexpectedEof), cs)
     else (Inr (), cs\<lparr>cs_out := cs_out cs @ [f], cs_writes := cs_writes cs - 1\<rparr>))"

definition ctrl_finish :: "ControlStream \<Rightarrow> ControlStream" where
  "ctrl_finish cs = cs\<lparr>cs_finished := True\<rparr>"

section \<open>Parameters\<close>

record 'vk Crypto =
  cr_b64_encode :: "bytes \<Rightarrow> string"
  cr_b64_decode :: "string \<Rightarrow> bytes option"
  cr_blake3 :: "string \<Rightarrow> bytes"
  cr_vk_from_bytes :: "bytes \<Rightarrow> 'vk option"
  cr_verify :: "'vk \<Rightarrow> bytes \<Rightarrow> bytes \<Rightarrow> bool"

record HsEnv =
  he_now :: nat
  he_stamp :: string
  he_nonce :: Nonce
  he_sid :: SessionId
  he_write_ok :: bool

section \<open>The handshake\<close>

record HandshakeOk =
  ho_pubkey :: PubKey
  ho_session_id :: SessionId
  ho_entry :: AuthorizedEntry

datatype HandshakeOutcome = Auth HandshakeOk | EnrollmentDone bool | Failed ErrorCode

text \<open>Write a last frame, finish the stream and report the outcome.\<close>

definition answer_and_finish ::
  "ServerFrame \<Rightarrow> HandshakeOutcome \<Rightarrow> ControlStream \<Rightarrow> (ServerError, HandshakeOutcome) result \<times> ControlStream" where
  "answer_and_finish f outcome cs =
    (case send_frame f cs of
       (Inl e, cs') \<Rightarrow> (Inl e, cs')
     | (Inr u, cs') \<Rightarrow> (Inr outcome, ctrl_finish cs'))"

definition handle_auth ::
  "'vk Crypto \<Rightarrow> HsEnv \<Rightarrow> PubKey \<Rightarrow> KeyRegistry \<Rightarrow> ControlStream
    \<Rightarrow> (ServerError, HandshakeOutcome) result \<times> ControlStream" where
  "handle_auth cr env pubkey keys cs =
    (case keys_get pubkey keys of
       None \<Rightarrow> answer_and_finish (AuthReject UNKNOWN_IDENTITY) (Failed AUTHENTICATION_FAILED) cs
     | Some entry \<Rightarrow>
        (case send_frame (AuthChallenge (he_nonce env)) cs of
           (Inl e, cs) \<Rightarrow> (Inl e, cs)
         | (Inr u, cs) \<Rightarrow>
            (case recv_frame cs of
               (Inl e, cs) \<Rightarrow> (Inl (SE_Transport e), cs)
             | (Inr (AuthResponse sig), cs) \<Rightarrow>
                 if \<not> verify_challenge (cr_vk_from_bytes cr) (cr_verify cr) pubkey (he_nonce env) sig
                 then answer_and_finish (AuthReject AUTHENTICATION_FAILED) (Failed AUTHENTICATION_FAILED) cs
                 else (case send_frame (AuthOk (he_sid env)) cs of
                         (Inl e, cs) \<Rightarrow> (Inl e, cs)
                       | (Inr u, cs) \<Rightarrow>
                           (Inr (Auth \<lparr>ho_pubkey = pubkey, ho_session_id = he_sid env, ho_entry = entry\<rparr>), cs))
             | (Inr other, cs) \<Rightarrow>
                 answer_and_finish (AuthReject PROTOCOL_VIOLATION) (Failed AUTHENTICATION_FAILED) cs)))"

definition enroll_line :: "string \<Rightarrow> string \<Rightarrow> string option \<Rightarrow> string" where
  "enroll_line b64 stamp label_hint =
    ''ed25519 '' @ b64 @ '' subdomain=* # enrolled '' @ stamp @ '' '' @
      (case label_hint of None \<Rightarrow> [] | Some h \<Rightarrow> h)"

definition enroll_reject_code :: "ServerError \<Rightarrow> ErrorCode" where
  "enroll_reject_code e =
    (if e = SE_AdminToken ''admin token expired'' then TOKEN_EXPIRED
     else if e = SE_AdminToken ''no admin token issued'' then ENROLL_DISABLED
     else AUTHENTICATION_FAILED)"

fun keys_error :: "KeysError \<Rightarrow> ServerError" where
  "keys_error KeysIo = SE_Io"
| "keys_error (BadLine n s) = SE_Keys (BadLine n s)"
| "keys_error (CannotParse s) = SE_Keys (CannotParse s)"
| "keys_error (KeysText s) = SE_Keys (KeysText s)"

definition handle_enroll ::
  "'vk Crypto \<Rightarrow> HsEnv \<Rightarrow> string \<Rightarrow> PubKey \<Rightarrow> string option \<Rightarrow> KeyRegistry \<Rightarrow> AdminTokenStore \<Rightarrow> ControlStream
    \<Rightarrow> (ServerError, HandshakeOutcome) result \<times> KeyRegistry \<times> AdminTokenStore \<times> ControlStream" where
  "handle_enroll cr env token pubkey label_hint keys admin cs =
    (case token_consume (cr_blake3 cr) (he_now env) token admin of
       (Inl e, admin) \<Rightarrow>
         (let (r, cs) = answer_and_finish (EnrollRejected (enroll_reject_code e)) (EnrollmentDone False) cs
          in (r, keys, admin, cs))
     | (Inr u, admin) \<Rightarrow>
        (case append_line (cr_b64_decode cr) (he_write_ok env)
                (enroll_line (cr_b64_encode cr pubkey) (he_stamp env) label_hint) keys of
           (Inl e, keys) \<Rightarrow> (Inl (keys_error e), keys, admin, cs)
         | (Inr stored, keys) \<Rightarrow>
             (let (r, cs) = answer_and_finish (EnrollOk stored) (EnrollmentDone True) cs
              in (r, keys, admin, cs))))"

definition perform ::
  "'vk Crypto \<Rightarrow> HsEnv \<Rightarrow> KeyRegistry \<Rightarrow> AdminTokenStore \<Rightarrow> ControlStream
    \<Rightarrow> (ServerError, HandshakeOutcome) result \<times> KeyRegistry \<times> AdminTokenStore \<times> ControlStream" where
  "perform cr env keys admin cs =
    (case cs_kind cs of
       Inl e \<Rightarrow> (Inl (SE_Transport e), keys, admin, cs)
     | Inr kind_byte \<Rightarrow>
        (case StreamKind_try_from kind_byte of
           Inl e \<Rightarrow> (Inr (Failed UNKNOWN_STREAM_KIND), keys, admin, cs)
         | Inr kind \<Rightarrow>
            if kind \<noteq> Control then (Inr (Failed UNEXPECTED_STREAM), keys, admin, cs)
            else (case recv_frame cs of
               (Inl e, cs) \<Rightarrow> (Inl (SE_Transport e), keys, admin, cs)
             | (Inr (Enroll admin_token pubkey label_hint), cs) \<Rightarrow>
                 handle_enroll cr env admin_token pubkey label_hint keys admin cs
             | (Inr (AuthRequest pubkey), cs) \<Rightarrow>
                 (let (r, cs) = handle_auth cr env pubkey keys cs in (r, keys, admin, cs))
             | (Inr other, cs) \<Rightarrow>
                 (let (r, cs) = send_frame (AuthReject PROTOCOL_VIOLATION) cs
                  in (Inr (Failed AUTHENTICATION_FAILED), keys, admin, ctrl_finish cs)))))"

section \<open>Facts\<close>

lemma send_frame_Inr:
  "send_frame f cs = (Inr u, cs') \<longleftrightarrow>
    0 < cs_writes cs \<and> cs' = cs\<lparr>cs_out := cs_out cs @ [f], cs_writes := cs_writes cs - 1\<rparr>"
  by (auto simp: send_frame_def)

lemma recv_frame_Inr:
  "recv_frame cs = (Inr f, cs') \<longleftrightarrow> (\<exists>rs. cs_in cs = Inr f # rs \<and> cs' = cs\<lparr>cs_in := rs\<rparr>)"
  by (auto simp: recv_frame_def split: list.splits)

lemma answer_never_auth: "answer_and_finish f outcome cs \<noteq> (Inr (Auth ok), cs')" if "outcome \<noteq> Auth ok" for ok
  using that by (auto simp: answer_and_finish_def split: prod.splits sum.splits)

lemma handle_auth_Auth:
  "handle_auth cr env pk keys cs = (Inr (Auth ok), cs') \<longleftrightarrow>
    (\<exists>sig rest entry. cs_in cs = Inr (AuthResponse sig) # rest \<and> keys_get pk keys = Some entry \<and>
       verify_challenge (cr_vk_from_bytes cr) (cr_verify cr) pk (he_nonce env) sig \<and> 2 \<le> cs_writes cs \<and>
       ok = \<lparr>ho_pubkey = pk, ho_session_id = he_sid env, ho_entry = entry\<rparr> \<and>
       cs' = cs\<lparr>cs_in := rest, cs_out := cs_out cs @ [AuthChallenge (he_nonce env), AuthOk (he_sid env)],
               cs_writes := cs_writes cs - 2\<rparr>)"
  (is "?L \<longleftrightarrow> ?R")
proof
  assume ?L
  then obtain entry sig cs1 cs2 where *:
    "keys_get pk keys = Some entry" "send_frame (AuthChallenge (he_nonce env)) cs = (Inr (), cs1)"
    "recv_frame cs1 = (Inr (AuthResponse sig), cs2)"
    "verify_challenge (cr_vk_from_bytes cr) (cr_verify cr) pk (he_nonce env) sig"
    "send_frame (AuthOk (he_sid env)) cs2 = (Inr (), cs')"
    "ok = \<lparr>ho_pubkey = pk, ho_session_id = he_sid env, ho_entry = entry\<rparr>"
    by (auto simp: handle_auth_def answer_never_auth split: option.splits prod.splits sum.splits
        ClientFrame.splits if_splits)
  then show ?R by (auto simp: send_frame_Inr recv_frame_Inr)
next
  assume ?R
  then show ?L by (auto simp: handle_auth_def send_frame_def recv_frame_def)
qed

lemma perform_Auth:
  assumes "perform cr env keys admin cs = (Inr (Auth ok), keys', admin', cs')"
  shows "keys' = keys \<and> admin' = admin \<and> cs_kind cs = Inr (StreamKind_as_byte Control) \<and>
    (\<exists>pk sig rest entry. cs_in cs = Inr (AuthRequest pk) # Inr (AuthResponse sig) # rest \<and>
       keys_get pk keys = Some entry \<and>
       verify_challenge (cr_vk_from_bytes cr) (cr_verify cr) pk (he_nonce env) sig \<and> 2 \<le> cs_writes cs \<and>
       ok = \<lparr>ho_pubkey = pk, ho_session_id = he_sid env, ho_entry = entry\<rparr> \<and>
       cs' = cs\<lparr>cs_in := rest, cs_out := cs_out cs @ [AuthChallenge (he_nonce env), AuthOk (he_sid env)],
               cs_writes := cs_writes cs - 2\<rparr>)"
proof -
  have never: "handle_enroll cr env t p h keys admin c \<noteq> (Inr (Auth ok), keys', admin', cs')" for t p h c
    by (auto simp: handle_enroll_def answer_never_auth split: prod.splits sum.splits)
  obtain pk cs1 where kind: "cs_kind cs = Inr (StreamKind_as_byte Control)"
    and recv: "recv_frame cs = (Inr (AuthRequest pk), cs1)"
    and auth: "handle_auth cr env pk keys cs1 = (Inr (Auth ok), cs')" and same: "keys' = keys" "admin' = admin"
    using assms never by (auto simp: perform_def StreamKind_try_from_Inr split: prod.splits sum.splits
        ClientFrame.splits if_splits)
  show ?thesis using recv auth [unfolded handle_auth_Auth] kind same by (auto simp: recv_frame_Inr)
qed

section \<open>Properties\<close>

text \<open>
  C16: the server authenticates a client in exactly one way: the stream is a Control
  stream, the first frame names a key that is authorized, the second carries a signature
  of this connection's nonce that verifies under that key, and both answers were sent.
  The session then has that key, the key's own entry and the fresh session id, and
  neither the keys nor the admin token changed.
\<close>

theorem perform_auth_iff:
  "perform cr env keys admin cs = (Inr (Auth ok), keys', admin', cs') \<longleftrightarrow>
    keys' = keys \<and> admin' = admin \<and> cs_kind cs = Inr (StreamKind_as_byte Control) \<and>
    (\<exists>pk sig rest entry. cs_in cs = Inr (AuthRequest pk) # Inr (AuthResponse sig) # rest \<and>
       keys_get pk keys = Some entry \<and>
       verify_challenge (cr_vk_from_bytes cr) (cr_verify cr) pk (he_nonce env) sig \<and> 2 \<le> cs_writes cs \<and>
       ok = \<lparr>ho_pubkey = pk, ho_session_id = he_sid env, ho_entry = entry\<rparr> \<and>
       cs' = cs\<lparr>cs_in := rest, cs_out := cs_out cs @ [AuthChallenge (he_nonce env), AuthOk (he_sid env)],
               cs_writes := cs_writes cs - 2\<rparr>)"
  (is "?L \<longleftrightarrow> ?R")
proof
  assume ?L
  then show ?R by (rule perform_Auth)
next
  assume R: ?R
  then obtain pk sig rest entry where i: "cs_in cs = Inr (AuthRequest pk) # Inr (AuthResponse sig) # rest" by blast
  then have "handle_auth cr env pk keys (cs\<lparr>cs_in := Inr (AuthResponse sig) # rest\<rparr>) = (Inr (Auth ok), cs')"
    using R by (auto simp: handle_auth_Auth)
  then show ?L using R i by (auto simp: perform_def recv_frame_def StreamKind_try_from_def)
qed

text \<open>
  C17: the handshake changes the authorized keys only on a valid admin token: whenever the
  keys differ afterwards, the first frame was an enrollment whose token was consumed
  (so it is used up), and the only key entered is the one the frame names.
\<close>

theorem keys_change_needs_token:
  assumes run: "perform cr env keys admin cs = (r, keys', admin', cs')" and changed: "keys' \<noteq> keys"
  shows "\<exists>token pk hint rest e. cs_in cs = Inr (Enroll token pk hint) # rest \<and>
    token_consume (cr_blake3 cr) (he_now env) token admin = (Inr (), admin') \<and> \<not> token_is_active admin' \<and>
    parse_line (cr_b64_decode cr) (enroll_line (cr_b64_encode cr pk) (he_stamp env) hint) = Some e \<and>
    kr_entries keys' = AList.update (fst e) (snd e) (kr_entries keys)"
proof -
  obtain token pk hint cs1 where recv: "recv_frame cs = (Inr (Enroll token pk hint), cs1)"
    and en: "handle_enroll cr env token pk hint keys admin cs1 = (r, keys', admin', cs')"
    using assms by (auto simp: perform_def split: prod.splits sum.splits ClientFrame.splits if_splits)
  let ?line = "enroll_line (cr_b64_encode cr pk) (he_stamp env) hint"
  obtain admin1 where tok: "token_consume (cr_blake3 cr) (he_now env) token admin = (Inr (), admin1)"
    using en changed by (cases "token_consume (cr_blake3 cr) (he_now env) token admin")
      (auto simp: handle_enroll_def split: prod.splits sum.splits)
  obtain q where app: "append_line (cr_b64_decode cr) (he_write_ok env) ?line keys = (q, keys')" and "admin' = admin1"
    using en tok by (auto simp: handle_enroll_def split: prod.splits sum.splits)
  moreover have "\<not> token_is_active admin1"
    using tok by (auto simp: token_consume_def token_is_active_def split: option.splits if_splits)
  moreover have "\<exists>e. parse_line (cr_b64_decode cr) ?line = Some e \<and>
      kr_entries keys' = AList.update (fst e) (snd e) (kr_entries keys)"
    using app changed by (auto simp: append_line_def Let_def split: option.splits if_splits)
  ultimately show ?thesis using recv tok by (auto simp: recv_frame_Inr)
qed

lemma parse_enroll_line:
  assumes "list_all graphic b" "b \<noteq> []" "CHR ''#'' \<notin> set b" "dec b = Some pk" "length pk = 32"
  shows "parse_line dec (enroll_line b stamp hint) =
    Some (pk, default_entry\<lparr>ae_allow_any_subdomain := True, ae_comment := line_comment (enroll_line b stamp hint)\<rparr>)"
proof -
  let ?head = "''ed25519 '' @ b @ '' subdomain=*''"
  have line: "enroll_line b stamp hint = (?head @ '' '') @ CHR ''#'' #
      ('' enrolled '' @ stamp @ '' '' @ (case hint of None \<Rightarrow> [] | Some h \<Rightarrow> h))"
    by (simp add: enroll_line_def)
  have "hd (split_on CHR ''#'' (enroll_line b stamp hint)) = ?head @ '' ''"
    unfolding line using assms(3) by (subst split_on_append) auto
  moreover have "trim (?head @ '' '') = ?head"
    by (rule trim_space_end) (simp_all add: graphic_def)
  moreover have "split_whitespace ?head = [''ed25519'', b, ''subdomain=*'']"
    using assms(1,2) by (simp add: str_eval split_ws_word)
  moreover have "parse_options [''subdomain=*''] = default_entry\<lparr>ae_allow_any_subdomain := True\<rparr>"
    by (simp add: parse_options_def add_fragment_def known_options_def apply_option_def)
  ultimately show ?thesis using assms(4,5) by (simp add: parse_line_def)
qed

text \<open>
  an enrollment with the current admin token authorizes the key it names, for every
  subdomain, answers with the stored line, uses the token up and leaves every other key as
  it was, when base64 encodes to printable text that decodes back.
\<close>

theorem enroll_authorizes:
  assumes "cs_kind cs = Inr (StreamKind_as_byte Control)" "cs_in cs = Inr (Enroll token pk hint) # rest"
    and "0 < cs_writes cs" "he_write_ok env"
    and "token_consume (cr_blake3 cr) (he_now env) token admin = (Inr (), admin1)"
    and b64: "list_all graphic (cr_b64_encode cr pk)" "cr_b64_encode cr pk \<noteq> []" "CHR ''#'' \<notin> set (cr_b64_encode cr pk)"
      "cr_b64_decode cr (cr_b64_encode cr pk) = Some pk" and "length pk = 32"
  shows "\<exists>keys' cs' c.
    perform cr env keys admin cs = (Inr (EnrollmentDone True), keys', admin1, cs') \<and> \<not> token_is_active admin1 \<and>
    keys_get pk keys' = Some (default_entry\<lparr>ae_allow_any_subdomain := True, ae_comment := c\<rparr>) \<and>
    (\<forall>k. k \<noteq> pk \<longrightarrow> keys_get k keys' = keys_get k keys) \<and>
    cs_out cs' = cs_out cs @ [EnrollOk (trim_end (enroll_line (cr_b64_encode cr pk) (he_stamp env) hint))]"
proof -
  let ?line = "enroll_line (cr_b64_encode cr pk) (he_stamp env) hint"
  define c where "c = line_comment ?line"
  have p: "parse_line (cr_b64_decode cr) ?line =
      Some (pk, default_entry\<lparr>ae_allow_any_subdomain := True, ae_comment := c\<rparr>)"
    unfolding c_def using b64 \<open>length pk = 32\<close> by (intro parse_enroll_line)
  obtain keys' where app: "append_line (cr_b64_decode cr) True ?line keys = (Inr (trim_end ?line), keys')"
    and e: "kr_entries keys' = AList.update pk (default_entry\<lparr>ae_allow_any_subdomain := True, ae_comment := c\<rparr>) (kr_entries keys)"
    using p by (simp add: append_line_def Let_def)
  have "\<not> token_is_active admin1"
    using assms(5) by (auto simp: token_consume_def token_is_active_def split: option.splits if_splits)
  then show ?thesis
    using assms(1-5) app e
    by (auto simp: perform_def recv_frame_def StreamKind_try_from_def handle_enroll_def answer_and_finish_def
        send_frame_def ctrl_finish_def keys_get_def AList.update_conv')
qed

text \<open>
  the label hint of an enrollment is written into the key file unchecked. A hint that
  holds a line break and a second key line enters that second key too: after the next
  reload of a so far empty file both keys are authorized, although one token was spent.
\<close>

theorem enroll_hint_injects_key:
  assumes dec: "dec b = Some pk" and b: "list_all graphic b" "b \<noteq> []" "CHR ''#'' \<notin> set b" "length pk = 32"
    and stamp: "CHR 0x0A \<notin> set stamp" "CHR 0x0D \<notin> set stamp" and w: "list_all graphic w" "w \<noteq> []"
    and line2: "CHR 0x0A \<notin> set line2" "CHR 0x0D \<notin> set line2" "trim line2 = line2" "parse_line dec line2 = Some (pk2, e2)"
    and empty: "kr_file keys = Some []"
    and run: "append_line dec True (enroll_line b stamp (Some (w @ CHR 0x0A # line2))) keys = (r, keys')"
  shows "\<exists>es. parse_file dec (kr_file keys') = Inr es \<and> map_of es pk \<noteq> None \<and> map_of es pk2 = Some e2"
proof -
  let ?l1 = "enroll_line b stamp (Some w)"
  have nl: "CHR 0x0A \<notin> set x \<and> CHR 0x0D \<notin> set x" if "list_all graphic x" for x
    using that by (auto simp: list_all_iff graphic_def)
  note pe = parse_enroll_line [where dec = dec and b = b and pk = pk and stamp = stamp, OF b(1-3) dec b(4)]
  have line: "enroll_line b stamp (Some (w @ CHR 0x0A # line2)) = unlines [?l1] @ line2"
    by (simp add: enroll_line_def unlines_def)
  have "line2 \<noteq> []" using line2(4) by (auto simp: parse_line_def str_eval)
  then have last: "\<not> (line2 \<noteq> [] \<and> last line2 = CHR 0x0A)" using line2(1) last_in_set by fastforce
  have "kr_file keys' = Some (unlines [?l1] @ line2 @ [CHR 0x0A])"
    using run empty pe [of "Some (w @ CHR 0x0A # line2)", unfolded line] last \<open>line2 \<noteq> []\<close>
    by (auto simp: append_line_def Let_def line)
  then have f: "kr_file keys' = Some (unlines [?l1, line2])" by (simp add: unlines_def)
  have t: "trim ?l1 = ?l1"
    using w by (intro trim_graphic) (simp_all add: enroll_line_def graphic_def list_all_iff)
  have ls: "str_lines (unlines [?l1, line2]) = [?l1, line2]"
    using nl [OF b(1)] nl [OF w(1)] stamp line2(1,2) by (intro str_lines_unlines) (auto simp: enroll_line_def)
  have sk: "\<not> skip_line ?l1" "\<not> skip_line line2"
    using parse_line_not_skipped [OF pe] parse_line_not_skipped [OF line2(4)] by blast+
  show ?thesis
    unfolding f using ls t sk line2(3,4) pe
    by (auto simp: parse_file_def parse_keys_text_def AList.update_conv')
qed

definition demo_crypto :: "unit Crypto" where
  "demo_crypto = \<lparr>cr_b64_encode = (\<lambda>bs. replicate (unat (hd bs)) CHR ''A''), cr_b64_decode = demo_b64,
     cr_blake3 = map of_char, cr_vk_from_bytes = (\<lambda>_. Some ()), cr_verify = (\<lambda>_ m sig. sig = m)\<rparr>"

definition demo_env :: HsEnv where
  "demo_env = \<lparr>he_now = 5, he_stamp = ''2026'', he_nonce = [7], he_sid = [9], he_write_ok = True\<rparr>"

definition demo_tokens :: AdminTokenStore where
  "demo_tokens = \<lparr>at_state = Some \<lparr>ts_hash = [116], ts_expires_at = 10\<rparr>, at_hash_file = None\<rparr>"

definition demo_enroll :: ControlStream where
  "demo_enroll = \<lparr>cs_kind = Inr 1, cs_in = [Inr (Enroll ''t'' (replicate 32 1) None)], cs_out = [],
     cs_writes = 3, cs_finished = False\<rparr>"

definition demo_blank_keys :: KeyRegistry where
  "demo_blank_keys = \<lparr>kr_file = Some [], kr_entries = [], kr_revoked = []\<rparr>"

lemma demo_consume:
  "token_consume (cr_blake3 demo_crypto) (he_now demo_env) ''t'' demo_tokens =
    (Inr (), \<lparr>at_state = None, at_hash_file = None\<rparr>)"
  by (simp add: token_consume_def demo_crypto_def demo_env_def demo_tokens_def server_eq.eq_iff)

theorem enroll_authorizes_witness:
  "\<exists>keys' cs' c. perform demo_crypto demo_env demo_blank_keys demo_tokens demo_enroll =
     (Inr (EnrollmentDone True), keys', \<lparr>at_state = None, at_hash_file = None\<rparr>, cs') \<and>
     keys_get (replicate 32 1) keys' = Some (default_entry\<lparr>ae_allow_any_subdomain := True, ae_comment := c\<rparr>)"
  using enroll_authorizes [OF _ _ _ _ demo_consume, of demo_enroll "replicate 32 1" None "[]" demo_blank_keys]
  by (auto simp: demo_crypto_def demo_enroll_def demo_env_def demo_b64_def graphic_def hd_replicate)

theorem keys_change_needs_token_witness:
  "\<exists>token pk hint rest. cs_in demo_enroll = Inr (Enroll token pk hint) # rest \<and>
     fst (token_consume (cr_blake3 demo_crypto) (he_now demo_env) token demo_tokens) = Inr ()"
proof -
  have p: "parse_line (cr_b64_decode demo_crypto) (enroll_line (cr_b64_encode demo_crypto (replicate 32 1)) (he_stamp demo_env) None) \<noteq> None"
    using parse_enroll_line [of "''A''" demo_b64 "replicate 32 1"]
    by (simp add: demo_crypto_def demo_b64_def graphic_def hd_replicate)
  have "fst (snd (perform demo_crypto demo_env demo_blank_keys demo_tokens demo_enroll)) \<noteq> demo_blank_keys"
    using p demo_consume
    by (auto simp: perform_def demo_enroll_def recv_frame_def StreamKind_try_from_def handle_enroll_def
        append_line_def Let_def demo_env_def answer_and_finish_def send_frame_def demo_blank_keys_def)
  from keys_change_needs_token [OF _ this] show ?thesis by (metis fst_conv prod.collapse)
qed

theorem enroll_hint_injects_key_witness:
  "\<exists>es. parse_file demo_b64 (kr_file (snd (append_line demo_b64 True
       (enroll_line ''A'' ''2026'' (Some (''x'' @ CHR 0x0A # ''ed25519 BB''))) demo_blank_keys))) = Inr es \<and>
     map_of es (replicate 32 1) \<noteq> None \<and> map_of es (replicate 32 2) = Some default_entry"
proof -
  have l: "parse_line demo_b64 ''ed25519 BB'' = Some (replicate 32 2, default_entry)"
    by (simp add: parse_line_def demo_b64_def line_comment_def parse_options_def add_fragment_def
        continue_value_def default_entry_def str_eval)
  show ?thesis
    using enroll_hint_injects_key [of demo_b64 "''A''" "replicate 32 1" "''2026''" "''x''" "''ed25519 BB''",
        OF _ _ _ _ _ _ _ _ _ _ _ _ l _ surjective_pairing, of demo_blank_keys]
    by (simp add: demo_blank_keys_def demo_b64_def str_eval)
qed

end
