(* ===== verification/Metrics.thy ===== *)
theory Metrics
  imports Keys
begin

text \<open>
  The process-wide counters of \<^verbatim>\<open>krot-server/src/metrics.rs\<close> and their Prometheus text.
  A counter is a 64-bit word, which wraps as \<^verbatim>\<open>fetch_add\<close> does. The version string, the
  clock and the per-identity byte counts are arguments.
\<close>

section \<open>Counters\<close>

record ServerMetrics =
  handshake_auth_ok :: u64
  handshake_unknown_identity :: u64
  handshake_signature_invalid :: u64
  handshake_timed_out :: u64
  handshake_protocol_violation :: u64
  enrollment_ok :: u64
  enrollment_rejected :: u64
  session_bye :: u64
  session_dropped :: u64
  session_terminal :: u64
  resume_reattached :: u64
  resume_identity_mismatch :: u64
  resume_unknown :: u64
  tunnel_registered_http :: u64
  tunnel_registered_tcp :: u64
  tunnel_rejected_label :: u64
  tunnel_rejected_conns :: u64
  tunnel_rejected_ports :: u64
  tunnel_rejected_pool :: u64
  tunnel_rejected_peer_collision :: u64
  rate_limit_quota_exceeded :: u64
  transport_quic_accepted :: u64
  transport_tcp_fallback_accepted :: u64
  admin_api_session_minted :: u64
  admin_api_session_rejected :: u64
  admin_api_key_appended :: u64
  admin_api_key_removed :: u64
  admin_api_key_remove_not_found :: u64
  admin_api_auth_failed :: u64
  process_start_unix_secs :: u64

definition metrics_new :: "u64 \<Rightarrow> ServerMetrics" where
  "metrics_new now = \<lparr>
     handshake_auth_ok = 0,
     handshake_unknown_identity = 0,
     handshake_signature_invalid = 0,
     handshake_timed_out = 0,
     handshake_protocol_violation = 0,
     enrollment_ok = 0,
     enrollment_rejected = 0,
     session_bye = 0,
     session_dropped = 0,
     session_terminal = 0,
     resume_reattached = 0,
     resume_identity_mismatch = 0,
     resume_unknown = 0,
     tunnel_registered_http = 0,
     tunnel_registered_tcp = 0,
     tunnel_rejected_label = 0,
     tunnel_rejected_conns = 0,
     tunnel_rejected_ports = 0,
     tunnel_rejected_pool = 0,
     tunnel_rejected_peer_collision = 0,
     rate_limit_quota_exceeded = 0,
     transport_quic_accepted = 0,
     transport_tcp_fallback_accepted = 0,
     admin_api_session_minted = 0,
     admin_api_session_rejected = 0,
     admin_api_key_appended = 0,
     admin_api_key_removed = 0,
     admin_api_key_remove_not_found = 0,
     admin_api_auth_failed = 0,
     process_start_unix_secs = now\<rparr>"

section \<open>Text exposition\<close>

definition SECTION_SIGN :: string where "SECTION_SIGN = [CHR 0xC2, CHR 0xA7]"

definition EM_DASH :: string where "EM_DASH = [CHR 0xE2, CHR 0x80, CHR 0x94]"

definition text_line :: "string \<Rightarrow> string" where
  "text_line s = s @ [CHR 0x0A]"

definition counter :: "string \<Rightarrow> string \<Rightarrow> u64 \<Rightarrow> string" where
  "counter name help value =
    text_line (''# HELP '' @ name @ '' '' @ help) @ text_line (''# TYPE '' @ name @ '' counter'') @
    text_line (name @ '' '' @ show_nat (unat value))"

definition exposed_counters :: "ServerMetrics \<Rightarrow> (string \<times> string \<times> u64) list" where
  "exposed_counters m = [
     (''krot_handshake_auth_ok_total'', ''Successful `AuthOk` responses ('' @ SECTION_SIGN @ ''7.1).'', handshake_auth_ok m),
     (''krot_handshake_unknown_identity_total'', ''Handshakes rejected because the presented pubkey is not in authorized_keys.'', handshake_unknown_identity m),
     (''krot_handshake_signature_invalid_total'', ''Handshakes rejected due to bad Ed25519 signature.'', handshake_signature_invalid m),
     (''krot_handshake_timed_out_total'', ''Handshakes that exceeded the '' @ SECTION_SIGN @ ''10 auth deadline.'', handshake_timed_out m),
     (''krot_handshake_protocol_violation_total'', ''First-stream protocol violations (unknown StreamKind, etc.).'', handshake_protocol_violation m),
     (''krot_enrollment_ok_total'', ''Successful enrollments ('' @ SECTION_SIGN @ ''14).'', enrollment_ok m),
     (''krot_enrollment_rejected_total'', ''Enrollments rejected (bad / expired / consumed admin token).'', enrollment_rejected m),
     (''krot_session_bye_total'', ''Sessions that ended with an explicit client `Bye` ('' @ SECTION_SIGN @ ''7.5).'', session_bye m),
     (''krot_session_dropped_total'', ''Sessions that ended without a `Bye` '' @ EM_DASH @ '' tunnels marked Dangling.'', session_dropped m),
     (''krot_session_terminal_total'', ''Sessions terminated by shutdown / revocation / protocol violation.'', session_terminal m),
     (''krot_resume_reattached_total'', ''Successful '' @ SECTION_SIGN @ ''7.3 resume '' @ EM_DASH @ '' same tunnel_id reused.'', resume_reattached m),
     (''krot_resume_identity_mismatch_total'', ''Resume attempts rejected because the presenting pubkey does not own the lease.'', resume_identity_mismatch m),
     (''krot_resume_unknown_total'', ''Resume attempts against expired / never-registered leases.'', resume_unknown m),
     (''krot_tunnel_registered_http_total'', ''HTTP tunnels successfully registered.'', tunnel_registered_http m),
     (''krot_tunnel_registered_tcp_total'', ''TCP tunnels successfully registered.'', tunnel_registered_tcp m),
     (''krot_tunnel_rejected_label_total'', ''Tunnels rejected because the requested label is forbidden or already taken.'', tunnel_rejected_label m),
     (''krot_tunnel_rejected_conns_total'', ''Tunnels rejected by the '' @ SECTION_SIGN @ ''13 `conns=` cap.'', tunnel_rejected_conns m),
     (''krot_tunnel_rejected_ports_total'', ''Tunnels rejected by the '' @ SECTION_SIGN @ ''13 `ports=` allowlist.'', tunnel_rejected_ports m),
     (''krot_tunnel_rejected_pool_total'', ''Tunnels rejected because the TCP port pool was exhausted.'', tunnel_rejected_pool m),
     (''krot_tunnel_rejected_peer_collision_total'', ''Tunnels rejected by '' @ SECTION_SIGN @ ''16.3.4 cross-relay collision detection.'', tunnel_rejected_peer_collision m),
     (''krot_rate_limit_quota_exceeded_total'', ''Data-path chunks that tripped the '' @ SECTION_SIGN @ ''9 period quota.'', rate_limit_quota_exceeded m),
     (''krot_transport_quic_accepted_total'', ''QUIC (`krot/1`) connections that reached handle_connection.'', transport_quic_accepted m),
     (''krot_transport_tcp_fallback_accepted_total'', ''`krot-tcp/1` connections that reached handle_connection.'', transport_tcp_fallback_accepted m),
     (''krot_admin_api_session_minted_total'', ''Sessions minted via POST /admin/v1/session.'', admin_api_session_minted m),
     (''krot_admin_api_session_rejected_total'', ''POST /session calls rejected '' @ EM_DASH @ '' bad admin token.'', admin_api_session_rejected m),
     (''krot_admin_api_key_appended_total'', ''authorized_keys entries appended via POST /admin/v1/keys.'', admin_api_key_appended m),
     (''krot_admin_api_key_removed_total'', ''authorized_keys entries removed via DELETE /admin/v1/keys/*.'', admin_api_key_removed m),
     (''krot_admin_api_key_remove_not_found_total'', ''DELETE /admin/v1/keys/* against a pubkey that isn'' @ [CHR 0x27] @ ''t present.'', admin_api_key_remove_not_found m),
     (''krot_admin_api_auth_failed_total'', ''Unauthenticated hits to the admin API.'', admin_api_auth_failed m)]"

definition saturating_sub :: "u64 \<Rightarrow> u64 \<Rightarrow> u64" where
  "saturating_sub a b = (if b \<le> a then a - b else 0)"

definition to_prometheus_text :: "string \<Rightarrow> u64 \<Rightarrow> nat \<Rightarrow> nat \<Rightarrow> (string \<times> u64) list \<Rightarrow> ServerMetrics \<Rightarrow> string" where
  "to_prometheus_text version now tunnels_live tunnels_dangling per_identity_bytes m =
    (let uptime = saturating_sub now (process_start_unix_secs m)
     in text_line ''# HELP krot_uptime_seconds Seconds since the server process started.'' @
        text_line ''# TYPE krot_uptime_seconds gauge'' @
        text_line (''krot_uptime_seconds '' @ show_nat (unat uptime)) @
        text_line ''# HELP krot_build_info Static build metadata as labels; value is always 1.'' @
        text_line ''# TYPE krot_build_info gauge'' @
        text_line (''krot_build_info{version='' @ [CHR 0x22] @ version @ [CHR 0x22] @ ''} 1'') @
        text_line ''# HELP krot_tunnels_total Tunnels currently in the registry (live + dangling).'' @
        text_line ''# TYPE krot_tunnels_total gauge'' @
        text_line (''krot_tunnels_total '' @ show_nat (tunnels_live + tunnels_dangling)) @
        text_line (''# HELP krot_tunnels_dangling_total Dangling tunnels in the '' @ SECTION_SIGN @ ''7.3 grace window.'') @
        text_line ''# TYPE krot_tunnels_dangling_total gauge'' @
        text_line (''krot_tunnels_dangling_total '' @ show_nat tunnels_dangling) @
        concat (map (\<lambda>(name, help, value). counter name help value) (exposed_counters m)) @
        text_line (''# HELP krot_bytes_period_used Bytes counted against the identity'' @ [CHR 0x27] @ ''s period quota.'') @
        text_line ''# TYPE krot_bytes_period_used counter'' @
        concat (map (\<lambda>(pubkey_b64, used).
            text_line (''krot_bytes_period_used{pubkey='' @ [CHR 0x22] @ pubkey_b64 @ [CHR 0x22] @ ''} '' @ show_nat (unat used)))
          per_identity_bytes))"

section \<open>Properties\<close>

definition one_line :: "string \<Rightarrow> bool" where
  "one_line s \<longleftrightarrow> CHR 0x0A \<notin> set s \<and> CHR 0x0D \<notin> set s"

lemma one_line_append [simp]: "one_line (s @ t) \<longleftrightarrow> one_line s \<and> one_line t"
  by (auto simp: one_line_def)

lemma one_line_show_nat [simp]: "one_line (show_nat n)"
  unfolding one_line_def by (intro conjI show_nat_chars) (simp_all add: is_ascii_digit_def less_eq_char_def)

lemma one_line_Cons [simp]: "one_line (c # s) \<longleftrightarrow> c \<noteq> CHR 0x0A \<and> c \<noteq> CHR 0x0D \<and> one_line s"
  by (auto simp: one_line_def)

lemma one_line_Nil [simp]: "one_line []"
  by (simp add: one_line_def)

lemma exposed_names:
  "list_all (\<lambda>(n, h, v). one_line n \<and> one_line h \<and> \<not> starts_with n ''#'') (exposed_counters m)"
  by (simp add: exposed_counters_def SECTION_SIGN_def EM_DASH_def starts_with_def)

lemma exposed_distinct: "distinct (map fst (exposed_counters m))"
  by (simp add: exposed_counters_def)

definition counter_lines :: "string \<times> string \<times> u64 \<Rightarrow> string list" where
  "counter_lines c = (case c of (name, help, value) \<Rightarrow>
    [''# HELP '' @ name @ '' '' @ help, ''# TYPE '' @ name @ '' counter'', name @ '' '' @ show_nat (unat value)])"

definition identity_line :: "string \<times> u64 \<Rightarrow> string" where
  "identity_line p = (case p of (pubkey_b64, used) \<Rightarrow>
    ''krot_bytes_period_used{pubkey='' @ [CHR 0x22] @ pubkey_b64 @ [CHR 0x22] @ ''} '' @ show_nat (unat used))"

definition head_lines :: "string \<Rightarrow> u64 \<Rightarrow> nat \<Rightarrow> nat \<Rightarrow> ServerMetrics \<Rightarrow> string list" where
  "head_lines version now live dangling m =
    [''# HELP krot_uptime_seconds Seconds since the server process started.'',
     ''# TYPE krot_uptime_seconds gauge'',
     ''krot_uptime_seconds '' @ show_nat (unat (saturating_sub now (process_start_unix_secs m))),
     ''# HELP krot_build_info Static build metadata as labels; value is always 1.'',
     ''# TYPE krot_build_info gauge'',
     ''krot_build_info{version='' @ [CHR 0x22] @ version @ [CHR 0x22] @ ''} 1'',
     ''# HELP krot_tunnels_total Tunnels currently in the registry (live + dangling).'',
     ''# TYPE krot_tunnels_total gauge'',
     ''krot_tunnels_total '' @ show_nat (live + dangling),
     ''# HELP krot_tunnels_dangling_total Dangling tunnels in the '' @ SECTION_SIGN @ ''7.3 grace window.'',
     ''# TYPE krot_tunnels_dangling_total gauge'',
     ''krot_tunnels_dangling_total '' @ show_nat dangling]"

definition tail_lines :: "string list" where
  "tail_lines = [''# HELP krot_bytes_period_used Bytes counted against the identity'' @ [CHR 0x27] @ ''s period quota.'',
     ''# TYPE krot_bytes_period_used counter'']"

lemma unlines_append: "unlines (as @ bs) = unlines as @ unlines bs"
  by (simp add: unlines_def)

lemma unlines_simps [simp]: "unlines [] = []" "unlines (l # ls) = text_line l @ unlines ls"
  by (simp_all add: unlines_def text_line_def)

lemma counter_unlines: "counter n h v = unlines (counter_lines (n, h, v))"
  by (simp add: counter_def counter_lines_def)

lemma counters_unlines:
  "concat (map (\<lambda>(n, h, v). counter n h v) cs) = unlines (concat (map counter_lines cs))"
  by (induction cs) (auto simp: counter_unlines unlines_append)

lemma identities_unlines:
  "concat (map (\<lambda>(p, u). text_line (''krot_bytes_period_used{pubkey='' @ [CHR 0x22] @ p @ [CHR 0x22] @ ''} '' @ show_nat (unat u))) ps) =
    unlines (map identity_line ps)"
  by (induction ps) (auto simp: identity_line_def)

lemma to_prometheus_unlines:
  "to_prometheus_text version now live dangling ids m =
    unlines (head_lines version now live dangling m @ concat (map counter_lines (exposed_counters m)) @
      tail_lines @ map identity_line ids)"
  unfolding to_prometheus_text_def Let_def counters_unlines identities_unlines head_lines_def tail_lines_def unlines_append
  by (simp only: unlines_simps append_assoc append_Nil append_Cons)

lemma counter_samples:
  "list_all (\<lambda>(n, h, v). one_line n \<and> one_line h \<and> \<not> starts_with n ''#'') cs \<Longrightarrow>
    list_all one_line (concat (map counter_lines cs)) \<and>
    filter (\<lambda>l. \<not> starts_with l ''#'') (concat (map counter_lines cs)) =
      map (\<lambda>(n, h, v). n @ '' '' @ show_nat (unat v)) cs"
proof (induction cs)
  case (Cons c cs)
  obtain n h v where c: "c = (n, h, v)" by (cases c)
  have "\<not> starts_with (n @ '' '' @ show_nat (unat v)) ''#''"
    using Cons.prems c by (cases n) (auto simp: starts_with_def)
  then show ?case using Cons c by (simp add: counter_lines_def starts_with_def)
qed simp

text \<open>
  what a scraper reads. With a version and key names without line breaks, the sample
  lines of the exposition (those that are not comments) are the uptime, the build info,
  the two tunnel gauges, then every counter exactly once under its own name with its
  value, then one line per identity.
\<close>

theorem prometheus_samples:
  assumes "one_line version" "list_all (one_line \<circ> fst) ids"
  shows "filter (\<lambda>l. \<not> starts_with l ''#'') (str_lines (to_prometheus_text version now live dangling ids m)) =
      [''krot_uptime_seconds '' @ show_nat (unat (saturating_sub now (process_start_unix_secs m))),
       ''krot_build_info{version='' @ [CHR 0x22] @ version @ [CHR 0x22] @ ''} 1'',
       ''krot_tunnels_total '' @ show_nat (live + dangling),
       ''krot_tunnels_dangling_total '' @ show_nat dangling] @
      map (\<lambda>(n, h, v). n @ '' '' @ show_nat (unat v)) (exposed_counters m) @ map identity_line ids \<and>
    distinct (map fst (exposed_counters m))"
proof -
  let ?c = "concat (map counter_lines (exposed_counters m))"
  note cs = counter_samples [OF exposed_names [of m]]
  have head: "list_all one_line (head_lines version now live dangling m)"
    "filter (\<lambda>l. \<not> starts_with l ''#'') (head_lines version now live dangling m) =
      [''krot_uptime_seconds '' @ show_nat (unat (saturating_sub now (process_start_unix_secs m))),
       ''krot_build_info{version='' @ [CHR 0x22] @ version @ [CHR 0x22] @ ''} 1'',
       ''krot_tunnels_total '' @ show_nat (live + dangling),
       ''krot_tunnels_dangling_total '' @ show_nat dangling]"
    using assms(1) by (simp_all add: head_lines_def SECTION_SIGN_def starts_with_def)
  have tail: "list_all one_line tail_lines" "filter (\<lambda>l. \<not> starts_with l ''#'') tail_lines = []"
    by (simp_all add: tail_lines_def starts_with_def)
  have idl: "list_all one_line (map identity_line ids)"
    "filter (\<lambda>l. \<not> starts_with l ''#'') (map identity_line ids) = map identity_line ids"
    using assms(2) by (induction ids) (auto simp: identity_line_def starts_with_def)
  have "list_all one_line (head_lines version now live dangling m @ ?c @ tail_lines @ map identity_line ids)"
    using cs head(1) tail(1) idl(1) by simp
  then have "str_lines (to_prometheus_text version now live dangling ids m) =
      head_lines version now live dangling m @ ?c @ tail_lines @ map identity_line ids"
    unfolding to_prometheus_unlines by (intro str_lines_unlines) (auto simp: list_all_iff one_line_def)
  then show ?thesis using cs head(2) tail(2) idl(2) exposed_distinct by simp
qed

theorem prometheus_samples_witness:
  "''krot_session_bye_total '' @ show_nat 0 \<in> set (str_lines (to_prometheus_text ''1.0'' 20 1 2 [(''k'', 7)] (metrics_new 10)))"
proof -
  have v: "one_line ''1.0''" and i: "list_all (one_line \<circ> fst) [(''k'', 7 :: u64)]" by simp_all
  have "''krot_session_bye_total '' @ show_nat 0 \<in> set (map (\<lambda>(n, h, v). n @ '' '' @ show_nat (unat v)) (exposed_counters (metrics_new 10)))"
    by (simp add: exposed_counters_def metrics_new_def)
  then have "''krot_session_bye_total '' @ show_nat 0 \<in>
      set (filter (\<lambda>l. \<not> starts_with l ''#'') (str_lines (to_prometheus_text ''1.0'' 20 1 2 [(''k'', 7)] (metrics_new 10))))"
    unfolding prometheus_samples [OF v i, THEN conjunct1] set_append by blast
  then show ?thesis by simp
qed

end
