(* ===== verification/Session.thy ===== *)
theory Session
  imports Handshake Registry Metrics
begin

text \<open>
  The per-client session loop of \<^verbatim>\<open>krot-server/src/session.rs\<close> and the deployment mode of
  \<^verbatim>\<open>config.rs\<close>. A handler maps the shared state it touches (registry, counters, Control
  stream, spawned and aborted listener tasks) to the new state and a result. One turn
  of the biased \<^verbatim>\<open>select!\<close> gets what is ready at that moment, what the other tasks did to
  the registry since the last turn, and the outcome of the operating system's and the
  peers' answers. A revocation watch is its value and whether its sender is alive.
\<close>

section \<open>Configuration\<close>

text \<open>A socket address is the text of its IP and its port.\<close>

type_synonym SocketAddr = "string \<times> u16"

datatype DomainTls = PemFile string string | Acme string "string option"

datatype Mode =
    ModeIp string "u16 \<times> u16"
  | ModeDomain string DomainTls SocketAddr SocketAddr "u16 \<times> u16"

definition mode_default :: Mode where
  "mode_default = ModeIp ''127.0.0.1'' (10000, 19999)"

fun tcp_port_pool :: "Mode \<Rightarrow> u16 \<times> u16" where
  "tcp_port_pool (ModeIp public_host pool) = pool"
| "tcp_port_pool (ModeDomain apex tls http_bind https_bind pool) = pool"

fun public_host :: "Mode \<Rightarrow> string" where
  "public_host (ModeIp host pool) = host"
| "public_host (ModeDomain apex tls http_bind https_bind pool) = apex"

section \<open>Watches\<close>

record Watch =
  w_value :: bool
  w_sender :: bool

text \<open>\<^verbatim>\<open>wait_shutdown\<close> returns when the value is true, and also when the sender is gone.\<close>

definition wait_shutdown_ready :: "Watch \<Rightarrow> bool" where
  "wait_shutdown_ready w \<longleftrightarrow> w_value w \<or> \<not> w_sender w"

datatype Broadcast = Revoked PubKey | Lagged | Closed

text \<open>The watcher task over the broadcasts it receives, from a live watch.\<close>

fun revocation_watcher :: "PubKey \<Rightarrow> Broadcast list \<Rightarrow> Watch" where
  "revocation_watcher target [] = \<lparr>w_value = False, w_sender = True\<rparr>"
| "revocation_watcher target (Revoked pk # bs) =
    (if pk = target then \<lparr>w_value = True, w_sender = False\<rparr> else revocation_watcher target bs)"
| "revocation_watcher target (Lagged # bs) = revocation_watcher target bs"
| "revocation_watcher target (Closed # bs) = \<lparr>w_value = False, w_sender = False\<rparr>"

section \<open>State\<close>

datatype SessionOutcome = SBye | SDropped | STerminal

datatype DispatchOutcome = Continue | Stop SessionOutcome

record Session =
  sn_pubkey :: PubKey
  sn_session_id :: SessionId
  sn_connection :: ConnRef
  sn_mode :: Mode
  sn_entry :: AuthorizedEntry
  sn_rate :: RateRef
  sn_peers :: "string list"

record ListenerTask =
  lt_listener :: ListenerRef
  lt_connection :: ConnRef
  lt_tunnel_id :: TunnelId
  lt_rate :: RateRef
  lt_inspect :: bool
  lt_abort :: AbortHandle

record SessState =
  sx_registry :: TunnelRegistry
  sx_metrics :: ServerMetrics
  sx_ctrl :: ControlStream
  sx_tasks :: "ListenerTask list"
  sx_aborted :: "AbortHandle list"

datatype BindResult = BindFailed string | NoLocalAddr | Bound ListenerRef u16

record RegEnv =
  re_find_owner :: "string \<Rightarrow> string \<Rightarrow> PeerLookupOutcome"
  re_bind :: "u16 \<Rightarrow> BindResult"
  re_abort :: AbortHandle

definition count :: "((u64 \<Rightarrow> u64) \<Rightarrow> ServerMetrics \<Rightarrow> ServerMetrics) \<Rightarrow> SessState \<Rightarrow> SessState" where
  "count field st = st\<lparr>sx_metrics := field (\<lambda>n. n + 1) (sx_metrics st)\<rparr>"

definition reply :: "ServerFrame \<Rightarrow> SessState \<Rightarrow> (ServerError, unit) result \<times> SessState" where
  "reply f st = (let (r, cs) = send_frame f (sx_ctrl st) in (r, st\<lparr>sx_ctrl := cs\<rparr>))"

definition spawn_tcp_tunnel :: "Session \<Rightarrow> RegEnv \<Rightarrow> ListenerRef \<Rightarrow> TunnelId \<Rightarrow> bool \<Rightarrow> SessState \<Rightarrow> SessState" where
  "spawn_tcp_tunnel sn env listener tid inspect st =
    st\<lparr>sx_tasks := sx_tasks st @
        [\<lparr>lt_listener = listener, lt_connection = sn_connection sn, lt_tunnel_id = tid, lt_rate = sn_rate sn,
          lt_inspect = inspect, lt_abort = re_abort env\<rparr>]\<rparr>"

definition session_remove :: "TunnelId \<Rightarrow> SessState \<Rightarrow> SessState" where
  "session_remove tid st =
    (let (r, as) = registry_remove tid (sx_registry st)
     in st\<lparr>sx_registry := r, sx_aborted := sx_aborted st @ as\<rparr>)"

section \<open>Registration\<close>

definition http_url :: "string \<Rightarrow> string \<Rightarrow> string" where
  "http_url label apex = ''https://'' @ label @ ''.'' @ apex"

definition tcp_url :: "string \<Rightarrow> u16 \<Rightarrow> string" where
  "tcp_url host port = ''tcp://'' @ host @ '':'' @ show_nat (unat port)"

definition finish_resume ::
  "Session \<Rightarrow> RegEnv \<Rightarrow> TunnelId \<Rightarrow> ResumedInfo \<Rightarrow> bool \<Rightarrow> SessState \<Rightarrow> (ServerError, unit) result \<times> SessState" where
  "finish_resume sn env tid info inspect st =
    (case info of
       RHttp label \<Rightarrow>
         (case sn_mode sn of
            ModeIp host pool \<Rightarrow>
              (case reply (TunnelRejected INTERNAL_ERROR ''resume across mode change'') st of
                 (Inl e, st) \<Rightarrow> (Inl e, st)
               | (Inr u, st) \<Rightarrow> (Inr (), session_remove tid st))
          | ModeDomain apex tls hb hsb pool \<Rightarrow> reply (TunnelRegistered tid (http_url label apex) None) st)
     | RTcp port listener \<Rightarrow>
         (let st = spawn_tcp_tunnel sn env listener tid inspect st;
              st = st\<lparr>sx_registry := set_tcp_abort tid (re_abort env) (sx_registry st)\<rparr>
          in reply (TunnelRegistered tid (tcp_url (public_host (sn_mode sn)) port) (Some port)) st))"

definition candidate_peers :: "Session \<Rightarrow> string list" where
  "candidate_peers sn = filter (\<lambda>apex. apex \<in> set (ae_federation (sn_entry sn))) (sn_peers sn)"

definition publish_http :: "Session \<Rightarrow> string \<Rightarrow> string \<Rightarrow> bool \<Rightarrow> SessState \<Rightarrow> (ServerError, unit) result \<times> SessState" where
  "publish_http sn apex label inspect st =
    (case allocate_http label (sx_registry st) of
       (Inl e, r) \<Rightarrow>
         reply (TunnelRejected LABEL_UNAVAILABLE (''`'' @ label @ ''` is taken''))
           (count tunnel_rejected_label_update (st\<lparr>sx_registry := r\<rparr>))
     | (Inr tid, r) \<Rightarrow>
         (let r = registry_insert
                \<lparr>ti_id = tid, ti_owner = sn_pubkey sn, ti_session_id = sn_session_id sn, ti_kind = KHttp label,
                 ti_state = Live (sn_connection sn) None, ti_tcp_listener = None, ti_rate = sn_rate sn,
                 ti_inspect = inspect\<rparr> r;
              st = count tunnel_registered_http_update (st\<lparr>sx_registry := r\<rparr>)
          in reply (TunnelRegistered tid (http_url label apex) None) st))"

definition register_http ::
  "Session \<Rightarrow> RegEnv \<Rightarrow> string \<Rightarrow> bool \<Rightarrow> SessState \<Rightarrow> (ServerError, unit) result \<times> SessState" where
  "register_http sn env label inspect st =
    (case sn_mode sn of
       ModeIp host pool \<Rightarrow> reply (TunnelRejected HTTP_NOT_AVAILABLE ''server is in IpMode'') st
     | ModeDomain apex tls hb hsb pool \<Rightarrow>
        if \<not> is_valid_label label
        then reply (TunnelRejected LABEL_INVALID ''does not match DNS label grammar'')
               (count tunnel_rejected_label_update st)
        else if \<not> ae_allow_any_subdomain (sn_entry sn) \<and> label \<notin> set (ae_allowed_subdomains (sn_entry sn))
        then reply (TunnelRejected LABEL_FORBIDDEN (''`'' @ label @ ''` not permitted for this identity''))
               (count tunnel_rejected_label_update st)
        else if candidate_peers sn \<noteq> []
        then (case check_collision (re_find_owner env) (candidate_peers sn) label (sn_pubkey sn) of
                Conflict first_conflict \<Rightarrow>
                  reply (TunnelRejected LABEL_UNAVAILABLE
                          (''`'' @ label @ ''` already registered on peer '' @ first_conflict @ '' by a different identity''))
                    (count tunnel_rejected_peer_collision_update st)
              | Clear matched_peers \<Rightarrow> publish_http sn apex label inspect st)
        else publish_http sn apex label inspect st)"

definition publish_tcp ::
  "Session \<Rightarrow> RegEnv \<Rightarrow> TunnelId \<Rightarrow> u16 \<Rightarrow> bool \<Rightarrow> SessState \<Rightarrow> (ServerError, unit) result \<times> SessState" where
  "publish_tcp sn env tid port inspect st =
    (case re_bind env port of
       BindFailed e \<Rightarrow> reply (TunnelRejected INTERNAL_ERROR (''bind failed: '' @ e)) st
     | NoLocalAddr \<Rightarrow> (Inl SE_Io, st)
     | Bound listener public_port \<Rightarrow>
        (let st = spawn_tcp_tunnel sn env listener tid inspect st;
             r = registry_insert
               \<lparr>ti_id = tid, ti_owner = sn_pubkey sn, ti_session_id = sn_session_id sn, ti_kind = KTcp public_port,
                ti_state = Live (sn_connection sn) (Some (re_abort env)), ti_tcp_listener = Some listener,
                ti_rate = sn_rate sn, ti_inspect = inspect\<rparr> (sx_registry st);
             st = count tunnel_registered_tcp_update (st\<lparr>sx_registry := r\<rparr>)
         in reply (TunnelRegistered tid (tcp_url (public_host (sn_mode sn)) public_port) (Some public_port)) st))"

definition register_tcp ::
  "Session \<Rightarrow> RegEnv \<Rightarrow> string \<Rightarrow> u16 option \<Rightarrow> bool \<Rightarrow> SessState \<Rightarrow> (ServerError, unit) result \<times> SessState" where
  "register_tcp sn env label remote_port inspect st =
    (let forbidden = (case (remote_port, ae_allowed_ports (sn_entry sn)) of
                         (Some p, Some allow) \<Rightarrow> p \<notin> set allow
                       | _ \<Rightarrow> False)
     in
      if forbidden
      then reply (TunnelRejected LABEL_FORBIDDEN
               (''port '' @ show_nat (unat (the remote_port)) @ '' not permitted for this identity''))
             (count tunnel_rejected_ports_update st)
      else (case allocate_tcp (ae_allowed_ports (sn_entry sn)) (sx_registry st) of
              (Inl e, r) \<Rightarrow>
                reply (TunnelRejected PORT_POOL_EXHAUSTED ''no free ports'')
                  (count tunnel_rejected_pool_update (st\<lparr>sx_registry := r\<rparr>))
            | (Inr (tid, port), r) \<Rightarrow> publish_tcp sn env tid port inspect (st\<lparr>sx_registry := r\<rparr>)))"

definition register_fresh ::
  "Session \<Rightarrow> RegEnv \<Rightarrow> string \<Rightarrow> TunnelKind \<Rightarrow> bool \<Rightarrow> SessState \<Rightarrow> (ServerError, unit) result \<times> SessState" where
  "register_fresh sn env label kind inspect st =
    (let live = count_owned_by (sn_pubkey sn) (sx_registry st)
     in case ae_max_conns (sn_entry sn) of
          Some cap \<Rightarrow>
            if live \<ge> cap
            then reply (TunnelRejected TUNNEL_LIMIT_EXCEEDED (show_nat live @ ''/'' @ show_nat cap @ '' concurrent tunnels''))
                   (count tunnel_rejected_conns_update st)
            else (case kind of
                    Http \<Rightarrow> register_http sn env label inspect st
                  | Tcp remote_port \<Rightarrow> register_tcp sn env label remote_port inspect st)
        | None \<Rightarrow>
            (case kind of
               Http \<Rightarrow> register_http sn env label inspect st
             | Tcp remote_port \<Rightarrow> register_tcp sn env label remote_port inspect st))"

definition register ::
  "Session \<Rightarrow> RegEnv \<Rightarrow> string \<Rightarrow> TunnelKind \<Rightarrow> SessionId option \<Rightarrow> bool \<Rightarrow> SessState
    \<Rightarrow> (ServerError, unit) result \<times> SessState" where
  "register sn env label kind resume_session_id inspect st =
    (case resume_session_id of
       None \<Rightarrow> register_fresh sn env label kind inspect st
     | Some prev \<Rightarrow>
        (case try_resume label prev (sn_pubkey sn) (sn_connection sn) (sx_registry st) of
           (Reattached tid info resumed_inspect, r) \<Rightarrow>
             finish_resume sn env tid info resumed_inspect (count resume_reattached_update (st\<lparr>sx_registry := r\<rparr>))
         | (IdentityMismatch, r) \<Rightarrow>
             reply (TunnelRejected RESUME_IDENTITY_MISMATCH ''resume pubkey does not match original owner'')
               (count resume_identity_mismatch_update (st\<lparr>sx_registry := r\<rparr>))
         | (Unknown, r) \<Rightarrow>
             register_fresh sn env label kind inspect (count resume_unknown_update (st\<lparr>sx_registry := r\<rparr>))))"

section \<open>The session loop\<close>

definition and_continue :: "(ServerError, unit) result \<times> SessState \<Rightarrow> (ServerError, DispatchOutcome) result \<times> SessState" where
  "and_continue p = (case p of (Inl e, st) \<Rightarrow> (Inl e, st) | (Inr u, st) \<Rightarrow> (Inr Continue, st))"

fun dispatch_frame ::
  "Session \<Rightarrow> RegEnv \<Rightarrow> ClientFrame \<Rightarrow> SessState \<Rightarrow> (ServerError, DispatchOutcome) result \<times> SessState" where
  "dispatch_frame sn env (Ping nonce) st = and_continue (reply (Pong nonce) st)"
| "dispatch_frame sn env (RegisterTunnel label kind resume_session_id inspect) st =
    and_continue (register sn env label kind resume_session_id inspect st)"
| "dispatch_frame sn env (UnregisterTunnel tid) st = (Inr Continue, session_remove tid st)"
| "dispatch_frame sn env ListPeers st = and_continue (reply (Peers (candidate_peers sn)) st)"
| "dispatch_frame sn env Bye st = (Inr (Stop SBye), st)"
| "dispatch_frame sn env other st =
    (case reply (ServerBye PROTOCOL_VIOLATION) st of
       (Inl e, st) \<Rightarrow> (Inl e, st)
     | (Inr u, st) \<Rightarrow> (Inr (Stop STerminal), st))"

record Turn =
  tn_others :: "TunnelRegistry \<Rightarrow> TunnelRegistry"
  tn_shutdown :: Watch
  tn_revoked :: Watch
  tn_readable :: bool
  tn_outbound :: "ServerFrame option"
  tn_env :: RegEnv

definition say_bye :: "ErrorCode \<Rightarrow> SessState \<Rightarrow> SessState" where
  "say_bye code st = (let st = snd (reply (ServerBye code) st) in st\<lparr>sx_ctrl := ctrl_finish (sx_ctrl st)\<rparr>)"

text \<open>One turn: the session goes on (\<^verbatim>\<open>None\<close>) or ends with a result.\<close>

definition session_turn ::
  "Session \<Rightarrow> Turn \<Rightarrow> SessState \<Rightarrow> (ServerError, SessionOutcome) result option \<times> SessState" where
  "session_turn sn turn st =
    (let st = st\<lparr>sx_registry := tn_others turn (sx_registry st)\<rparr>
     in if wait_shutdown_ready (tn_shutdown turn) then (Some (Inr STerminal), say_bye SERVER_SHUTDOWN st)
        else if wait_shutdown_ready (tn_revoked turn) then (Some (Inr STerminal), say_bye KEY_REVOKED st)
        else if tn_readable turn then
          (case recv_frame (sx_ctrl st) of
             (Inl e, cs) \<Rightarrow> (Some (Inr SDropped), st\<lparr>sx_ctrl := cs\<rparr>)
           | (Inr f, cs) \<Rightarrow>
              (case dispatch_frame sn (tn_env turn) f (st\<lparr>sx_ctrl := cs\<rparr>) of
                 (Inl e, st) \<Rightarrow> (Some (Inl e), st)
               | (Inr Continue, st) \<Rightarrow> (None, st)
               | (Inr (Stop reason), st) \<Rightarrow> (Some (Inr reason), st)))
        else (case tn_outbound turn of
                Some f \<Rightarrow> (None, snd (reply f st))
              | None \<Rightarrow> (None, st)))"

fun session_run ::
  "Session \<Rightarrow> Turn list \<Rightarrow> SessState \<Rightarrow> (ServerError, SessionOutcome) result option \<times> SessState" where
  "session_run sn [] st = (None, st)"
| "session_run sn (turn # turns) st =
    (case session_turn sn turn st of
       (Some r, st) \<Rightarrow> (Some r, st)
     | (None, st) \<Rightarrow> session_run sn turns st)"

section \<open>Facts\<close>

lemma reply_registry [simp]:
  "sx_registry (snd (reply f st)) = sx_registry st" "sx_tasks (snd (reply f st)) = sx_tasks st"
  "sx_aborted (snd (reply f st)) = sx_aborted st"
  by (simp_all add: reply_def split: prod.split)

lemma count_registry [simp]:
  "sx_registry (count fld st) = sx_registry st" "sx_ctrl (count fld st) = sx_ctrl st"
  "sx_tasks (count fld st) = sx_tasks st" "sx_aborted (count fld st) = sx_aborted st"
  by (simp_all add: count_def)

lemma reply_Inr:
  "reply f st = (Inr u, st') \<longleftrightarrow> 0 < cs_writes (sx_ctrl st) \<and>
    st' = st\<lparr>sx_ctrl := (sx_ctrl st)\<lparr>cs_out := cs_out (sx_ctrl st) @ [f], cs_writes := cs_writes (sx_ctrl st) - 1\<rparr>\<rparr>"
  by (auto simp: reply_def send_frame_def)

lemma spawn_registry [simp]: "sx_registry (spawn_tcp_tunnel sn env l tid i st) = sx_registry st"
  "sx_ctrl (spawn_tcp_tunnel sn env l tid i st) = sx_ctrl st"
  by (simp_all add: spawn_tcp_tunnel_def)

lemma and_continue_snd [simp]: "snd (and_continue p) = snd p"
  by (auto simp: and_continue_def split: prod.split sum.split)

text \<open>
  A handler refines the registry: what it does to the registry is a sequence of
  registry steps, from the open reservations \<^verbatim>\<open>res\<close> to themselves or to one more.
\<close>

definition refines_steps :: "reservations \<Rightarrow> TunnelRegistry \<Rightarrow> TunnelRegistry \<Rightarrow> bool" where
  "refines_steps res r r' \<longleftrightarrow> (\<exists>res'. registry_step\<^sup>*\<^sup>* (r, res) (r', res') \<and> (res' = res \<or> (\<exists>x. res' = x # res)))"

lemma refines_refl [simp]: "refines_steps res r r"
  by (auto simp: refines_steps_def)

lemma refines_one: "registry_step (r, res) (r', res) \<Longrightarrow> refines_steps res r r'"
  by (auto simp: refines_steps_def)

lemma refines_before:
  assumes "registry_step (r, res) (r1, res)" "refines_steps res r1 r'"
  shows "refines_steps res r r'"
proof -
  obtain res' where "registry_step\<^sup>*\<^sup>* (r1, res) (r', res')" "res' = res \<or> (\<exists>x. res' = x # res)"
    using assms(2) unfolding refines_steps_def by blast
  with converse_rtranclp_into_rtranclp [of registry_step, OF assms(1)] show ?thesis unfolding refines_steps_def by blast
qed

lemma refines_two:
  assumes "registry_step (r, res) s" "registry_step s (r', res)"
  shows "refines_steps res r r'"
  using assms unfolding refines_steps_def by (blast intro: converse_rtranclp_into_rtranclp)

lemma session_remove_refines: "refines_steps res (sx_registry st) (sx_registry (session_remove tid st))"
  by (auto simp: session_remove_def split: prod.split intro: refines_one step_remove)

lemma finish_resume_refines:
  "refines_steps res (sx_registry st) (sx_registry (snd (finish_resume sn env tid info i st)))"
proof (cases info)
  case (RHttp label)
  have "sx_registry (snd (reply f st)) = sx_registry st" for f by simp
  then have "refines_steps res (sx_registry st) (sx_registry (session_remove tid (snd (reply f st))))" for f
    by (metis session_remove_refines)
  then show ?thesis
    by (auto simp: finish_resume_def RHttp split: Mode.split prod.split sum.split) (metis refines_refl reply_registry(1) snd_conv)+
next
  case (RTcp port listener)
  then show ?thesis by (auto simp: finish_resume_def Let_def intro: refines_one step_set_abort)
qed

lemma publish_http_refines:
  assumes "next_id (sx_registry st) \<noteq> - 1"
  shows "refines_steps res (sx_registry st) (sx_registry (snd (publish_http sn apex label i st)))"
proof (cases "allocate_http label (sx_registry st)")
  case (Pair q r)
  show ?thesis
  proof (cases q)
    case (Inl e)
    then have "r = sx_registry st" using Pair by (auto simp: allocate_http_def Let_def split: if_splits prod.splits)
    then show ?thesis using Pair Inl by (simp add: publish_http_def)
  next
    case (Inr tid)
    let ?info = "\<lparr>ti_id = tid, ti_owner = sn_pubkey sn, ti_session_id = sn_session_id sn, ti_kind = KHttp label,
      ti_state = Live (sn_connection sn) None, ti_tcp_listener = None, ti_rate = sn_rate sn, ti_inspect = i\<rparr>"
    have "registry_step (sx_registry st, res) (r, (tid, KHttp label) # res)"
      using step_allocate_http assms Pair Inr by blast
    moreover have "registry_step (r, (tid, KHttp label) # res) (registry_insert ?info r, res)"
      using step_insert [of ?info "(tid, KHttp label) # res" r] by (simp add: publishable_def)
    ultimately have "refines_steps res (sx_registry st) (registry_insert ?info r)"
      by (rule refines_two)
    then show ?thesis using Pair Inr by (simp add: publish_http_def Let_def)
  qed
qed

lemma register_http_refines:
  assumes "next_id (sx_registry st) \<noteq> - 1"
  shows "refines_steps res (sx_registry st) (sx_registry (snd (register_http sn env label i st)))"
  using publish_http_refines [OF assms, of res]
  by (auto simp: register_http_def split: Mode.split CollisionCheck.split)

lemma publish_tcp_refines:
  assumes "\<forall>p l q. re_bind env p = Bound l q \<longrightarrow> q = p" "registry_step (r0, res) (sx_registry st, (tid, KTcp port) # res)"
  shows "refines_steps res r0 (sx_registry (snd (publish_tcp sn env tid port i st)))"
proof (cases "re_bind env port")
  case (Bound l q)
  then have q: "q = port" using assms(1) by simp
  let ?info = "\<lparr>ti_id = tid, ti_owner = sn_pubkey sn, ti_session_id = sn_session_id sn, ti_kind = KTcp port,
    ti_state = Live (sn_connection sn) (Some (re_abort env)), ti_tcp_listener = Some l, ti_rate = sn_rate sn, ti_inspect = i\<rparr>"
  have "registry_step (sx_registry st, (tid, KTcp port) # res) (registry_insert ?info (sx_registry st), res)"
    using step_insert [of ?info "(tid, KTcp port) # res" "sx_registry st"] by (simp add: publishable_def)
  then have "refines_steps res r0 (registry_insert ?info (sx_registry st))"
    by (rule refines_two [OF assms(2)])
  then show ?thesis using Bound q by (simp add: publish_tcp_def Let_def)
qed (use assms(2) in \<open>auto simp: publish_tcp_def refines_steps_def\<close>)

lemma register_tcp_refines:
  assumes "next_id (sx_registry st) \<noteq> - 1" "\<forall>p l q. re_bind env p = Bound l q \<longrightarrow> q = p"
  shows "refines_steps res (sx_registry st) (sx_registry (snd (register_tcp sn env label rp i st)))"
proof (cases "allocate_tcp (ae_allowed_ports (sn_entry sn)) (sx_registry st)")
  case (Pair q r)
  show ?thesis
  proof (cases q)
    case (Inl e)
    then have "r = sx_registry st" using Pair by (auto simp: allocate_tcp_def Let_def split: option.splits prod.splits)
    then show ?thesis using Pair Inl by (simp add: register_tcp_def Let_def)
  next
    case (Inr tp)
    obtain tid port where tp: "tp = (tid, port)" by (cases tp)
    have "registry_step (sx_registry st, res) (sx_registry (st\<lparr>sx_registry := r\<rparr>), (tid, KTcp port) # res)"
      using step_allocate_tcp assms(1) Pair Inr tp by simp
    from publish_tcp_refines [OF assms(2) this] show ?thesis using Pair Inr tp by (simp add: register_tcp_def Let_def)
  qed
qed

lemma try_resume_next_id: "next_id (snd (try_resume label sid pk c r)) = next_id r"
  by (auto simp: try_resume_def Let_def split: option.split RegisteredKind.split)

lemma register_fresh_refines:
  assumes "next_id (sx_registry st) \<noteq> - 1" "\<forall>p l q. re_bind env p = Bound l q \<longrightarrow> q = p"
  shows "refines_steps res (sx_registry st) (sx_registry (snd (register_fresh sn env label kind i st)))"
  using register_http_refines [OF assms(1), of res] register_tcp_refines [OF assms, of res]
  by (simp add: register_fresh_def Let_def split: option.split TunnelKind.split)

lemma register_refines:
  assumes "next_id (sx_registry st) \<noteq> - 1" "\<forall>p l q. re_bind env p = Bound l q \<longrightarrow> q = p"
  shows "refines_steps res (sx_registry st) (sx_registry (snd (register sn env label kind resume i st)))"
proof (cases resume)
  case (Some prev)
  obtain out r where t: "try_resume label prev (sn_pubkey sn) (sn_connection sn) (sx_registry st) = (out, r)"
    by (cases "try_resume label prev (sn_pubkey sn) (sn_connection sn) (sx_registry st)")
  have step: "registry_step (sx_registry st, res) (r, res)" using step_resume t by blast
  have id: "next_id r \<noteq> - 1" using try_resume_next_id [of label prev "sn_pubkey sn" "sn_connection sn" "sx_registry st"] t assms(1) by simp
  have "refines_steps res r (sx_registry (snd (register sn env label kind resume i st)))"
  proof (cases out)
    case (Reattached tid info ri)
    then show ?thesis
      using finish_resume_refines [of res "count resume_reattached_update (st\<lparr>sx_registry := r\<rparr>)"] Some t
      by (simp add: register_def)
  next
    case Unknown
    then show ?thesis
      using register_fresh_refines [of "count resume_unknown_update (st\<lparr>sx_registry := r\<rparr>)" env res] id assms(2) Some t
      by (simp add: register_def)
  next
    case IdentityMismatch
    then show ?thesis using Some t by (simp add: register_def)
  qed
  then show ?thesis by (rule refines_before [OF step])
qed (simp add: register_def register_fresh_refines assms)

lemma dispatch_refines:
  assumes "next_id (sx_registry st) \<noteq> - 1" "\<forall>p l q. re_bind env p = Bound l q \<longrightarrow> q = p"
  shows "refines_steps res (sx_registry st) (sx_registry (snd (dispatch_frame sn env f st)))"
proof (cases f)
  case (RegisterTunnel label kind resume i)
  then show ?thesis using register_refines [OF assms] by simp
next
  case (UnregisterTunnel tid)
  then show ?thesis using session_remove_refines by simp
qed (auto split: prod.split sum.split, (metis refines_refl reply_registry(1) snd_conv)+)

section \<open>Properties\<close>

text \<open>
  C10: every frame a session handles acts on the registry only through registry steps.
  Whatever frame a client sends, the handler takes the registry from a consistent state
  with the open reservations \<^verbatim>\<open>res\<close> to a consistent state, by a sequence of registry
  steps, leaving no reservation open except one for a port it failed to bind; so every
  invariant of the registry holds under any interleaving of sessions. Binding a listener to
  a given port is assumed to give that port.
\<close>

theorem dispatch_refines_registry:
  assumes "registry_inv (sx_registry st) res" "next_id (sx_registry st) \<noteq> - 1"
    "\<forall>p l q. re_bind env p = Bound l q \<longrightarrow> q = p" "dispatch_frame sn env f st = (out, st')"
  shows "\<exists>res'. registry_step\<^sup>*\<^sup>* (sx_registry st, res) (sx_registry st', res') \<and>
    (res' = res \<or> (\<exists>x. res' = x # res)) \<and> registry_inv (sx_registry st') res'"
proof -
  obtain res' where *: "registry_step\<^sup>*\<^sup>* (sx_registry st, res) (sx_registry st', res')" "res' = res \<or> (\<exists>x. res' = x # res)"
    using dispatch_refines [OF assms(2,3), of res sn f] assms(4) by (auto simp: refines_steps_def)
  moreover have "registry_inv (sx_registry st') res'"
    using registry_sys.steps_inv [OF *(1)] assms(1) by simp
  ultimately show ?thesis by blast
qed

definition may_register_http :: "Session \<Rightarrow> RegEnv \<Rightarrow> string \<Rightarrow> TunnelRegistry \<Rightarrow> string option" where
  "may_register_http sn env label r =
    (case sn_mode sn of
       ModeIp host pool \<Rightarrow> None
     | ModeDomain apex tls hb hsb pool \<Rightarrow>
         if is_valid_label label \<and>
            (ae_allow_any_subdomain (sn_entry sn) \<or> label \<in> set (ae_allowed_subdomains (sn_entry sn))) \<and>
            \<not> list_ex (\<lambda>p. case re_find_owner env p label of Found o' \<Rightarrow> o' \<noteq> sn_pubkey sn | _ \<Rightarrow> False) (candidate_peers sn) \<and>
            label \<notin> used_labels r
         then Some apex else None)"

lemma no_conflict_iff:
  "list_ex (\<lambda>p. case find_owner p label of Found o' \<Rightarrow> o' \<noteq> self | _ \<Rightarrow> False) peers \<longleftrightarrow>
    find (\<lambda>p. \<exists>o'. find_owner p label = Found o' \<and> o' \<noteq> self) peers \<noteq> None"
  by (induction peers) (auto split: PeerLookupOutcome.split)

lemma register_http_may:
  assumes "may_register_http sn env label (sx_registry st) = Some apex"
  shows "register_http sn env label inspect st = publish_http sn apex label inspect st"
    "label \<notin> used_labels (sx_registry st)"
  using assms
  by (auto simp: may_register_http_def register_http_def check_collision_eq no_conflict_iff
      split: Mode.splits if_splits)

definition rejected :: "SessState \<Rightarrow> (ServerError, unit) result \<times> SessState \<Rightarrow> bool" where
  "rejected st p \<longleftrightarrow> (\<exists>code detail st0. p = reply (TunnelRejected code detail) st0 \<and>
    sx_registry st0 = sx_registry st \<and> sx_ctrl st0 = sx_ctrl st)"

lemma rejected_intros [intro]:
  "rejected st (reply (TunnelRejected code detail) st)"
  "rejected st (reply (TunnelRejected code detail) (count fld st))"
  unfolding rejected_def by (blast, rule exI, rule exI, rule exI [of _ "count fld st"], simp)

lemma register_http_may_not:
  assumes "may_register_http sn env label (sx_registry st) = None"
  shows "rejected st (register_http sn env label inspect st)"
proof (cases "sn_mode sn")
  case (ModeIp host pool)
  then show ?thesis by (auto simp: register_http_def)
next
  case (ModeDomain apex tls hb hsb pool)
  show ?thesis
  proof (cases "is_valid_label label \<and>
      (ae_allow_any_subdomain (sn_entry sn) \<or> label \<in> set (ae_allowed_subdomains (sn_entry sn)))")
    case False
    then show ?thesis using ModeDomain
      by (auto simp: register_http_def)
  next
    case True
    show ?thesis
    proof (cases "find (\<lambda>p. \<exists>o'. re_find_owner env p label = Found o' \<and> o' \<noteq> sn_pubkey sn) (candidate_peers sn)")
      case None
      then have "label \<in> used_labels (sx_registry st)"
        using assms True ModeDomain by (auto simp: may_register_http_def no_conflict_iff split: if_splits)
      then have "publish_http sn apex label inspect st = reply (TunnelRejected LABEL_UNAVAILABLE (''`'' @ label @ ''` is taken''))
          (count tunnel_rejected_label_update st)"
        by (simp add: publish_http_def allocate_http_def)
      moreover have "register_http sn env label inspect st = publish_http sn apex label inspect st"
        using None True ModeDomain by (auto simp: register_http_def check_collision_eq)
      ultimately show ?thesis by auto
    next
      case (Some p)
      then show ?thesis using True ModeDomain
        by (cases "candidate_peers sn = []") (auto simp: register_http_def check_collision_eq)
    qed
  qed
qed

text \<open>
  C26: who may publish an HTTP label. A registration is granted exactly when the server has
  an apex domain, the label is valid, the key's entry allows it, no authorized peer relay
  knows it under another key and nobody holds it here: then the answer is the label's URL
  with a fresh tunnel id and the label resolves to this session's connection from then on.
  In every other case the registry is untouched and the only answer is a rejection.
\<close>

theorem register_http_granted_iff:
  "case may_register_http sn env label (sx_registry st) of
     Some apex \<Rightarrow>
       0 < cs_writes (sx_ctrl st) \<longrightarrow>
       (\<exists>st'. register_http sn env label inspect st = (Inr (), st') \<and>
         cs_out (sx_ctrl st') = cs_out (sx_ctrl st) @
           [TunnelRegistered (next_id (sx_registry st)) (http_url label apex) None] \<and>
         resolve_label label (sx_registry st') =
           Some \<lparr>rt_id = next_id (sx_registry st), rt_connection = sn_connection sn, rt_rate = sn_rate sn,
                 rt_inspect = inspect\<rparr>)
   | None \<Rightarrow>
       (\<exists>r st'. register_http sn env label inspect st = (r, st') \<and> sx_registry st' = sx_registry st \<and>
         (cs_out (sx_ctrl st') = cs_out (sx_ctrl st) \<or>
          (\<exists>code detail. cs_out (sx_ctrl st') = cs_out (sx_ctrl st) @ [TunnelRejected code detail])))"
proof (cases "may_register_http sn env label (sx_registry st)")
  case (Some apex)
  then show ?thesis
    using register_http_may [OF Some]
    by (simp add: publish_http_def allocate_http_def fresh_id_def Let_def reply_def send_frame_def
        registry_insert_def resolve_label_def AList.update_conv')
next
  case None
  then show ?thesis using register_http_may_not [OF None, of inspect]
    by (auto simp: rejected_def reply_def send_frame_def)
qed

subsection \<open>The tunnel limit\<close>

lemma filter_update_le:
  "length (filter P (map snd (AList.update k v al))) \<le> Suc (length (filter P (map snd al)))"
  by (induction al) auto

lemma filter_update_same:
  "map_of al k = Some w \<Longrightarrow> P v = P w \<Longrightarrow>
    length (filter P (map snd (AList.update k v al))) = length (filter P (map snd al))"
  by (induction al) auto

lemma filter_delete_le: "length (filter P (map snd (AList.delete k al))) \<le> length (filter P (map snd al))"
  by (induction al) auto

lemma count_remove_locked: "count_owned_by pk (fst (remove_locked tid r)) \<le> count_owned_by pk r"
  using filter_delete_le [of "\<lambda>t. ti_owner t = pk" tid "tunnels r"]
  by (auto simp: remove_locked_def count_owned_by_def Let_def split: option.split RegisteredKind.split)

lemma count_insert: "count_owned_by pk (registry_insert info r) \<le> Suc (count_owned_by pk r)"
  using filter_update_le [of "\<lambda>t. ti_owner t = pk" "ti_id info" info "tunnels r"]
  by (auto simp: registry_insert_def count_owned_by_def Let_def split: RegisteredKind.split)

lemma count_update_same:
  assumes "map_of (tunnels r) tid = Some w" "ti_owner v = ti_owner w"
  shows "count_owned_by pk (r\<lparr>tunnels := AList.update tid v (tunnels r)\<rparr>) = count_owned_by pk r"
  using filter_update_same [OF assms(1), of "\<lambda>t. ti_owner t = pk" v] assms(2) by (simp add: count_owned_by_def)

lemma count_set_tcp_abort: "count_owned_by pk (set_tcp_abort tid a r) = count_owned_by pk r"
  by (auto simp: set_tcp_abort_def count_update_same split: option.split TunnelState.split)

lemma count_try_resume: "count_owned_by pk (snd (try_resume label sid owner c r)) = count_owned_by pk r"
  by (auto simp: try_resume_def Let_def count_update_same split: option.split RegisteredKind.split)

lemma count_allocate:
  "count_owned_by pk (snd (allocate_tcp allow r)) = count_owned_by pk r"
  "count_owned_by pk (snd (allocate_http label r)) = count_owned_by pk r"
  by (auto simp: allocate_tcp_def allocate_http_def fresh_id_def count_owned_by_def Let_def split: option.split)

lemma count_session_remove: "count_owned_by pk (sx_registry (session_remove tid st)) \<le> count_owned_by pk (sx_registry st)"
  using count_remove_locked [of pk tid "sx_registry st"]
  by (auto simp: session_remove_def registry_remove_def split: prod.split)

lemma count_finish_resume:
  "count_owned_by pk (sx_registry (snd (finish_resume sn env tid info i st))) \<le> count_owned_by pk (sx_registry st)"
proof (cases info)
  case (RHttp label)
  have "count_owned_by pk (sx_registry (session_remove tid (snd (reply f st)))) \<le> count_owned_by pk (sx_registry st)" for f
    using count_session_remove [of pk tid "snd (reply f st)"] by simp
  then show ?thesis
    by (auto simp: finish_resume_def RHttp split: Mode.split prod.split sum.split)
      (metis order_refl reply_registry(1) snd_conv)+
qed (simp add: finish_resume_def Let_def count_set_tcp_abort)

lemma count_publish_http:
  "count_owned_by pk (sx_registry (snd (publish_http sn apex label i st))) \<le> Suc (count_owned_by pk (sx_registry st))"
proof (cases "allocate_http label (sx_registry st)")
  case (Pair q r)
  then have "count_owned_by pk r = count_owned_by pk (sx_registry st)" using count_allocate(2) by (metis snd_conv)
  then show ?thesis using Pair count_insert [of pk _ r] by (cases q) (auto simp: publish_http_def Let_def)
qed

lemma count_register_http:
  "count_owned_by pk (sx_registry (snd (register_http sn env label i st))) \<le> Suc (count_owned_by pk (sx_registry st))"
  using count_publish_http [of pk sn _ label i st]
  by (auto simp: register_http_def split: Mode.split CollisionCheck.split)

lemma count_publish_tcp:
  "count_owned_by pk (sx_registry (snd (publish_tcp sn env tid port i st))) \<le> Suc (count_owned_by pk (sx_registry st))"
  using count_insert [of pk _ "sx_registry st"] by (auto simp: publish_tcp_def Let_def split: BindResult.split)

lemma count_register_tcp:
  "count_owned_by pk (sx_registry (snd (register_tcp sn env label rp i st))) \<le> Suc (count_owned_by pk (sx_registry st))"
proof (cases "allocate_tcp (ae_allowed_ports (sn_entry sn)) (sx_registry st)")
  case (Pair q r)
  then have c: "count_owned_by pk r = count_owned_by pk (sx_registry st)" using count_allocate(1) by (metis snd_conv)
  show ?thesis
  proof (cases q)
    case (Inr tp)
    then show ?thesis using Pair c count_publish_tcp [of pk sn env "fst tp" "snd tp" i "st\<lparr>sx_registry := r\<rparr>"]
      by (cases tp) (simp add: register_tcp_def Let_def)
  qed (use Pair c in \<open>simp add: register_tcp_def Let_def\<close>)
qed

lemma count_register_fresh:
  assumes "ae_max_conns (sn_entry sn) = Some cap" "count_owned_by (sn_pubkey sn) (sx_registry st) \<le> cap"
  shows "count_owned_by (sn_pubkey sn) (sx_registry (snd (register_fresh sn env label kind i st))) \<le> cap"
proof (cases "count_owned_by (sn_pubkey sn) (sx_registry st) \<ge> cap")
  case False
  then have "Suc (count_owned_by (sn_pubkey sn) (sx_registry st)) \<le> cap" by simp
  then have "count_owned_by (sn_pubkey sn) (sx_registry (snd (register_http sn env label i st))) \<le> cap"
    "count_owned_by (sn_pubkey sn) (sx_registry (snd (register_tcp sn env label rp i st))) \<le> cap" for rp
    using count_register_http count_register_tcp order_trans by blast+
  then show ?thesis using assms False by (simp add: register_fresh_def Let_def split: TunnelKind.split)
qed (use assms in \<open>simp add: register_fresh_def Let_def\<close>)


subsection \<open>What the code does not prevent\<close>

text \<open>
  unregistering has no owner check: a session may remove any tunnel by its id, also
  one that another key owns, together with its route and its listener.
\<close>

theorem unregister_ignores_owner:
  assumes "registry_inv (sx_registry st) res" "tunnel (sx_registry st) tid = Some info" "ti_owner info \<noteq> sn_pubkey sn"
    "dispatch_frame sn env (UnregisterTunnel tid) st = (out, st')"
  shows "out = Inr Continue \<and> tunnel (sx_registry st') tid = None \<and>
    (\<forall>label. ti_kind info = KHttp label \<longrightarrow> resolve_label label (sx_registry st') = None) \<and>
    sx_aborted st' = sx_aborted st @ abort_of (ti_state info)"
proof -
  have st': "out = Inr Continue" "st' = session_remove tid st" using assms(4) by simp_all
  have m: "map_of (tunnels (sx_registry st)) tid = Some info" using assms(2) by (simp add: tunnel_def)
  show ?thesis
    using m by (auto simp: st' session_remove_def registry_remove_def remove_locked_eq resolve_label_def tunnel_def
        AList.delete_conv' split: prod.split RegisteredKind.split)
qed

text \<open>
  a TCP registration whose listener cannot be bound keeps its port reserved although no
  tunnel uses it: every failed bind takes one port out of the pool.
\<close>

theorem bind_failure_leaks_port:
  assumes "allocate_tcp (ae_allowed_ports (sn_entry sn)) (sx_registry st) = (Inr (tid, port), r)"
    "re_bind env port = BindFailed e" "remote_port = None"
    "register_tcp sn env label remote_port inspect st = (out, st')"
  shows "port \<notin> used_ports (sx_registry st) \<and> used_ports (sx_registry st') = insert port (used_ports (sx_registry st)) \<and>
    tunnels (sx_registry st') = tunnels (sx_registry st)"
proof -
  have "port \<notin> used_ports (sx_registry st) \<and> used_ports r = insert port (used_ports (sx_registry st)) \<and>
      tunnels r = tunnels (sx_registry st)"
    using assms(1) by (auto simp: allocate_tcp_def fresh_id_def Let_def split: option.splits dest: pick_free_port_Some)
  moreover have "sx_registry st' = r"
    using assms by (auto simp: register_tcp_def publish_tcp_def Let_def reply_def split: prod.splits)
  ultimately show ?thesis by simp
qed

text \<open>
  when the revocation broadcast closes, the watch of a session loses its sender and the
  session ends as if its key had been revoked.
\<close>

theorem closed_broadcast_ends_session:
  assumes "tn_revoked turn = revocation_watcher pk (bs @ [Closed])" "\<not> wait_shutdown_ready (tn_shutdown turn)"
    "Revoked pk \<notin> set bs"
  shows "fst (session_turn sn turn st) = Some (Inr STerminal) \<and>
    (0 < cs_writes (sx_ctrl st) \<longrightarrow>
      cs_out (sx_ctrl (snd (session_turn sn turn st))) = cs_out (sx_ctrl st) @ [ServerBye KEY_REVOKED])"
proof -
  have "wait_shutdown_ready (revocation_watcher pk (bs @ [Closed]))"
  proof (induction bs)
    case (Cons b bs)
    then show ?case by (cases b) (auto simp: wait_shutdown_ready_def)
  qed (simp add: wait_shutdown_ready_def)
  then show ?thesis
    using assms by (auto simp: session_turn_def Let_def say_bye_def reply_def send_frame_def ctrl_finish_def)
qed

text \<open>A registration that presents another session's id for a label that is parked.\<close>

lemma stale_resume_rejected:
  assumes inv: "registry_inv (sx_registry st) res"
    and label: "tunnel (sx_registry st) tid = Some info" "ti_kind info = KHttp label"
    and parked: "is_dangling (ti_state info)" "ti_session_id info \<noteq> prev"
    and granted: "is_valid_label label" "ae_allow_any_subdomain (sn_entry sn)" "sn_mode sn = ModeDomain apex tls hb hsb pool"
      "candidate_peers sn = []" "ae_max_conns (sn_entry sn) = None" "0 < cs_writes (sx_ctrl st)"
  shows "\<exists>st'. register sn env label Http (Some prev) inspect st = (Inr (), st') \<and>
    cs_out (sx_ctrl st') = cs_out (sx_ctrl st) @ [TunnelRejected LABEL_UNAVAILABLE (''`'' @ label @ ''` is taken'')]"
proof -
  have route: "labels (sx_registry st) label = Some tid" using routes_iff [OF inv] label by blast
  have "(tid, KHttp label) \<in> claims (sx_registry st) res" using label by (force simp: claims_def)
  then have "label \<in> used_labels (sx_registry st)" using inv unfolding registry_inv_def claims_ok_def by blast
  moreover have "try_resume label prev (sn_pubkey sn) (sn_connection sn) (sx_registry st) = (Unknown, sx_registry st)"
    using route label(1) parked by (simp add: try_resume_def resume_candidate_def tunnel_def)
  ultimately show ?thesis
    using granted by (simp add: register_def register_fresh_def register_http_def publish_http_def
        allocate_http_def reply_def send_frame_def Let_def)
qed

text \<open>
  a tunnel can be resumed only once. A session resumes a parked label and is told so;
  it drops in turn, and its successor presents that session's id. The resumed tunnel
  still carries the id of the session that first registered it, so the resume is not
  recognised, and the registration is rejected because the label is still taken by the
  parked tunnel itself.
\<close>

theorem second_resume_rejected:
  assumes inv: "registry_inv (sx_registry st) res"
    and parked: "tunnel (sx_registry st) tid = Some info" "ti_kind info = KHttp label" "ti_state info = Dangling e"
      "ti_session_id info = first_sid" "ti_owner info = sn_pubkey sn"
    and granted: "is_valid_label label" "ae_allow_any_subdomain (sn_entry sn)" "sn_mode sn = ModeDomain apex tls hb hsb pool"
      "candidate_peers sn = []" "ae_max_conns (sn_entry sn) = None" "0 < cs_writes (sx_ctrl st)" "0 < cs_writes ctrl2"
    and second_sid: "sn_session_id sn \<noteq> first_sid"
  shows "\<exists>st1 r2 as st3. register sn env label Http (Some first_sid) inspect st = (Inr (), st1) \<and>
    cs_out (sx_ctrl st1) = cs_out (sx_ctrl st) @ [TunnelRegistered tid (http_url label apex) None] \<and>
    mark_dangling now (sn_pubkey sn) grace (sx_registry st1) = (r2, as) \<and>
    register sn env label Http (Some (sn_session_id sn)) inspect (st1\<lparr>sx_registry := r2, sx_ctrl := ctrl2\<rparr>) = (Inr (), st3) \<and>
    cs_out (sx_ctrl st3) = cs_out ctrl2 @ [TunnelRejected LABEL_UNAVAILABLE (''`'' @ label @ ''` is taken'')]"
proof -
  obtain r1 where t: "try_resume label first_sid (sn_pubkey sn) (sn_connection sn) (sx_registry st) =
      (Reattached tid (RHttp label) (ti_inspect info), r1)"
    using try_resume_http [OF inv parked(1-3) parked(4,5)] by (metis prod.collapse)
  have t1: "tunnel r1 tid = Some (info\<lparr>ti_state := Live (sn_connection sn) None\<rparr>)"
    using try_resume_reattached [OF t] parked(1) by auto
  have inv1: "registry_inv r1 res" using registry_inv_try_resume [OF inv] t by (metis snd_conv)
  define st1 where "st1 = snd (register sn env label Http (Some first_sid) inspect st)"
  have reg1: "register sn env label Http (Some first_sid) inspect st = (Inr (), st1)" "sx_registry st1 = r1"
    "cs_out (sx_ctrl st1) = cs_out (sx_ctrl st) @ [TunnelRegistered tid (http_url label apex) None]"
    using t granted by (simp_all add: st1_def register_def finish_resume_def reply_def send_frame_def)
  obtain r2 as where m: "mark_dangling now (sn_pubkey sn) grace r1 = (r2, as)"
    by (cases "mark_dangling now (sn_pubkey sn) grace r1")
  have inv2: "registry_inv r2 res" using registry_inv_dangle_ids [OF inv1] m by (metis fst_conv mark_dangling_def)
  have t2: "tunnel r2 tid = Some (info\<lparr>ti_state := Dangling (now + grace)\<rparr>)"
    using tunnel_mark_dangling [OF inv1, of now "sn_pubkey sn" grace tid] t1 m parked(5) by simp
  have "\<exists>st3. register sn env label Http (Some (sn_session_id sn)) inspect (st1\<lparr>sx_registry := r2, sx_ctrl := ctrl2\<rparr>) = (Inr (), st3) \<and>
      cs_out (sx_ctrl st3) = cs_out ctrl2 @ [TunnelRejected LABEL_UNAVAILABLE (''`'' @ label @ ''` is taken'')]"
    using stale_resume_rejected [of "st1\<lparr>sx_registry := r2, sx_ctrl := ctrl2\<rparr>" res tid
        "info\<lparr>ti_state := Dangling (now + grace)\<rparr>" label "sn_session_id sn" sn apex tls hb hsb pool env inspect]
      inv2 t2 parked(2,4) second_sid granted by simp
  then show ?thesis using reg1 m by blast
qed

subsection \<open>A concrete session\<close>

definition demo_session :: Session where
  "demo_session = \<lparr>sn_pubkey = [7], sn_session_id = [11], sn_connection = 6,
     sn_mode = ModeDomain ''ex.org'' (Acme [] None) ([], 80) ([], 443) (100, 200),
     sn_entry = default_entry\<lparr>ae_allow_any_subdomain := True\<rparr>, sn_rate = 0, sn_peers = []\<rparr>"

definition demo_stream :: ControlStream where
  "demo_stream = \<lparr>cs_kind = Inr 1, cs_in = [], cs_out = [], cs_writes = 9, cs_finished = False\<rparr>"

definition demo_state :: "TunnelRegistry \<Rightarrow> SessState" where
  "demo_state r = \<lparr>sx_registry = r, sx_metrics = metrics_new 0, sx_ctrl = demo_stream, sx_tasks = [], sx_aborted = []\<rparr>"

definition demo_regenv :: RegEnv where
  "demo_regenv = \<lparr>re_find_owner = noop_find_owner, re_bind = (\<lambda>p. Bound 3 p), re_abort = 4\<rparr>"

definition demo_closed_turn :: Turn where
  "demo_closed_turn = \<lparr>tn_others = (\<lambda>r. r), tn_shutdown = \<lparr>w_value = False, w_sender = True\<rparr>,
     tn_revoked = revocation_watcher [7] [Revoked [8], Closed], tn_readable = True, tn_outbound = None,
     tn_env = demo_regenv\<rparr>"

lemma demo_parked:
  "registry_inv (fst (mark_dangling 0 [7] 5 demo_registry)) []"
  "tunnel (fst (mark_dangling 0 [7] 5 demo_registry)) 1 = Some (demo_info\<lparr>ti_state := Dangling 5\<rparr>)"
  using registry_inv_dangle_ids [OF demo_inv] tunnel_mark_dangling [OF demo_inv, of 0 "[7]" 5 1]
  by (simp_all add: mark_dangling_def demo_tunnel demo_info_def)

theorem dispatch_refines_registry_witness:
  "\<exists>res'. registry_inv (sx_registry (snd (dispatch_frame demo_session demo_regenv (UnregisterTunnel 1) (demo_state demo_registry)))) res'"
  using dispatch_refines_registry [of "demo_state demo_registry" "[]" demo_regenv demo_session "UnregisterTunnel 1", OF _ _ _ surjective_pairing]
    demo_inv
  by (simp add: demo_state_def demo_regenv_def demo_registry_def registry_insert_def demo_info_def allocate_http_def fresh_id_def
      registry_new_def Let_def) blast

theorem register_http_granted_iff_witness:
  "\<exists>st'. register_http demo_session demo_regenv ''web'' True (demo_state (registry_new (100, 200))) = (Inr (), st') \<and>
     cs_out (sx_ctrl st') = [TunnelRegistered 1 (http_url ''web'' ''ex.org'') None]"
proof -
  have "may_register_http demo_session demo_regenv ''web'' (sx_registry (demo_state (registry_new (100, 200)))) = Some ''ex.org''"
    by (simp add: may_register_http_def demo_session_def demo_state_def registry_new_def candidate_peers_def is_valid_label_def
        label_alnum_def is_ascii_lowercase_def less_eq_char_def)
  with register_http_granted_iff [where sn = demo_session and env = demo_regenv and label = "''web''" and st = "demo_state (registry_new (100, 200))" and inspect = True]
  show ?thesis by (auto simp: demo_state_def demo_stream_def registry_new_def)
qed


theorem unregister_ignores_owner_witness:
  "tunnel (sx_registry (snd (dispatch_frame (demo_session\<lparr>sn_pubkey := [8]\<rparr>) demo_regenv (UnregisterTunnel 1) (demo_state demo_registry)))) 1 = None"
  using unregister_ignores_owner [of "demo_state demo_registry" "[]" 1 demo_info "demo_session\<lparr>sn_pubkey := [8]\<rparr>", OF _ _ _ surjective_pairing]
    demo_inv demo_tunnel
  by (simp add: demo_state_def demo_info_def del: dispatch_frame.simps)

theorem bind_failure_leaks_port_witness:
  "100 \<in> used_ports (sx_registry (snd (register_tcp demo_session (demo_regenv\<lparr>re_bind := (\<lambda>_. BindFailed [])\<rparr>) [] None False
     (demo_state (registry_new (100, 100))))))"
proof -
  have "allocate_tcp (ae_allowed_ports (sn_entry demo_session)) (sx_registry (demo_state (registry_new (100, 100)))) =
      (Inr (1, 100), (registry_new (100, 100))\<lparr>used_ports := {100}, next_id := 2\<rparr>)"
    by (simp add: demo_session_def demo_state_def default_entry_def allocate_tcp_def pick_free_port_def range_inclusive_def
        registry_new_def fresh_id_def Let_def)
  from bind_failure_leaks_port [OF this _ _ surjective_pairing]
  show ?thesis by (simp add: demo_regenv_def)
qed

theorem closed_broadcast_ends_session_witness:
  "fst (session_turn demo_session demo_closed_turn (demo_state (registry_new (100, 200)))) = Some (Inr STerminal)"
  using closed_broadcast_ends_session [of demo_closed_turn "[7]" "[Revoked [8]]"]
  by (simp add: demo_closed_turn_def wait_shutdown_ready_def)

theorem second_resume_rejected_witness:
  "\<exists>st1 r2 as st3. register demo_session demo_regenv ''demo'' Http (Some [9]) True
       (demo_state (fst (mark_dangling 0 [7] 5 demo_registry))) = (Inr (), st1) \<and>
     mark_dangling 6 [7] 5 (sx_registry st1) = (r2, as) \<and>
     register demo_session demo_regenv ''demo'' Http (Some [11]) True (st1\<lparr>sx_registry := r2, sx_ctrl := demo_stream\<rparr>) = (Inr (), st3) \<and>
     cs_out (sx_ctrl st3) = [TunnelRejected LABEL_UNAVAILABLE (''`'' @ ''demo'' @ ''` is taken'')]"
  using second_resume_rejected [of "demo_state (fst (mark_dangling 0 [7] 5 demo_registry))" "[]" 1 "demo_info\<lparr>ti_state := Dangling 5\<rparr>"
      "''demo''" 5 "[9]" demo_session "''ex.org''" "Acme [] None" "([], 80)" "([], 443)" "(100, 200)" demo_stream demo_regenv True 6 5] demo_parked
  by (auto simp: demo_state_def demo_session_def demo_info_def demo_stream_def default_entry_def candidate_peers_def is_valid_label_def
      label_alnum_def is_ascii_lowercase_def less_eq_char_def)

end
