(* ===== verification/Server.thy ===== *)
theory Server
  imports Session
begin

text \<open>
  The connection handler of \<^verbatim>\<open>krot-server/src/server.rs\<close>: from an accepted transport over
  the handshake and the session to what becomes of the client's tunnels, with the shared
  state, the lazily created rate-limit states, the admin token at startup and the lease
  reaper. A connection's input says what its awaits return; rate-limit states are
  references into a table. A handshake cut off by its deadline has done what it did up to
  the frame it was waiting for, which is what the handshake does on the frames it got.
\<close>

section \<open>State\<close>

definition SHUTDOWN_DEADLINE :: nat where "SHUTDOWN_DEADLINE = 5 * 1000"

definition AUTH_DEADLINE :: nat where "AUTH_DEADLINE = 10 * 1000"

definition REAP_INTERVAL :: nat where "REAP_INTERVAL = 5 * 1000"

record ServerConfig =
  cf_bind :: SocketAddr
  cf_data_dir :: string
  cf_authorized_keys_path :: string
  cf_mode :: Mode
  cf_issue_admin_token :: bool
  cf_admin_bind :: "SocketAddr option"
  cf_admin_session_ttl :: nat
  cf_peer_list_path :: string
  cf_tcp_fallback_bind :: "SocketAddr option"
  cf_bw_partitions :: nat
  cf_resume_grace :: "nat option"

record SharedState =
  sv_keys :: KeyRegistry
  sv_admin :: AdminTokenStore
  sv_registry :: TunnelRegistry
  sv_config :: ServerConfig
  sv_rates :: "(PubKey \<times> RateRef) list"
  sv_rate_states :: "RateLimitState list"
  sv_peers :: "string list"
  sv_metrics :: ServerMetrics
  sv_tasks :: "ListenerTask list"
  sv_aborted :: "AbortHandle list"

definition with_bw_partitions :: "nat \<Rightarrow> ServerConfig \<Rightarrow> ServerConfig" where
  "with_bw_partitions n c = c\<lparr>cf_bw_partitions := max n 1\<rparr>"

definition issue_admin_token_if_needed ::
  "(bytes \<Rightarrow> string) \<Rightarrow> (string \<Rightarrow> bytes) \<Rightarrow> bool \<Rightarrow> nat \<Rightarrow> bytes \<Rightarrow> SharedState
    \<Rightarrow> (ServerError, string option) result \<times> SharedState" where
  "issue_admin_token_if_needed base32 blake3 write_ok now raw s =
    (if cf_issue_admin_token (sv_config s) \<or> kr_entries (sv_keys s) = []
     then (case token_issue base32 blake3 write_ok now raw (sv_admin s) of
             (Inl e, a) \<Rightarrow> (Inl e, s\<lparr>sv_admin := a\<rparr>)
           | (Inr token, a) \<Rightarrow> (Inr (Some token), s\<lparr>sv_admin := a\<rparr>))
     else (Inr None, s))"

text \<open>The quota counter of a new state is the shared one of the counters.\<close>

definition ensure_rate_state :: "nat \<Rightarrow> PubKey \<Rightarrow> AuthorizedEntry \<Rightarrow> SharedState \<Rightarrow> RateRef \<times> SharedState" where
  "ensure_rate_state now pubkey entry s =
    (case map_of (sv_rates s) pubkey of
       Some ref \<Rightarrow> (ref, s)
     | None \<Rightarrow>
        (let ref = length (sv_rate_states s);
             st = from_entry_with_metrics now (ae_bw entry) (ae_quota entry) (cf_bw_partitions (sv_config s))
                    (Some (rate_limit_quota_exceeded (sv_metrics s)))
         in (ref, s\<lparr>sv_rates := AList.update pubkey ref (sv_rates s), sv_rate_states := sv_rate_states s @ [st]\<rparr>)))"

definition update_rate :: "(RateLimitState \<Rightarrow> RateLimitState) \<Rightarrow> RateRef \<Rightarrow> SharedState \<Rightarrow> SharedState" where
  "update_rate f ref s = s\<lparr>sv_rate_states := (sv_rate_states s)[ref := f (sv_rate_states s ! ref)]\<rparr>"

definition reaper_tick :: "nat \<Rightarrow> SharedState \<Rightarrow> nat \<times> SharedState" where
  "reaper_tick now s =
    (let (n, r, as) = reap_expired now (sv_registry s)
     in (n, s\<lparr>sv_registry := r, sv_aborted := sv_aborted s @ as\<rparr>))"

definition tally :: "((u64 \<Rightarrow> u64) \<Rightarrow> ServerMetrics \<Rightarrow> ServerMetrics) \<Rightarrow> SharedState \<Rightarrow> SharedState" where
  "tally field s = s\<lparr>sv_metrics := field (\<lambda>n. n + 1) (sv_metrics s)\<rparr>"

section \<open>Revocations of a session\<close>

text \<open>A subscription sees the broadcasts sent after it was made.\<close>

definition subscribe_revocations :: "KeyRegistry \<Rightarrow> nat" where
  "subscribe_revocations keys = length (kr_revoked keys)"

definition spawn_revocation_watcher :: "nat \<Rightarrow> PubKey \<Rightarrow> KeyRegistry \<Rightarrow> Watch" where
  "spawn_revocation_watcher rx target keys = revocation_watcher target (map Revoked (drop rx (kr_revoked keys)))"

section \<open>A connection\<close>

datatype TransportKind = Quic | TcpFallback

record ConnInput =
  ci_kind :: TransportKind
  ci_accept :: "(TransportError, ConnRef) result"
  ci_control :: "(TransportError, ControlStream) result"
  ci_timed_out :: bool
  ci_env :: HsEnv
  ci_turns :: "Turn list"
  ci_end :: nat

record ConnEnd =
  ce_result :: "(ServerError, unit) result option"
  ce_close :: "u32 option"

definition failed_counter :: "ErrorCode \<Rightarrow> (u64 \<Rightarrow> u64) \<Rightarrow> ServerMetrics \<Rightarrow> ServerMetrics" where
  "failed_counter code =
    (if code = UNKNOWN_IDENTITY then handshake_unknown_identity_update
     else if code = AUTHENTICATION_FAILED then handshake_signature_invalid_update
     else if code = TOKEN_EXPIRED \<or> code = ENROLL_DISABLED then enrollment_rejected_update
     else handshake_protocol_violation_update)"

definition sess_state :: "ControlStream \<Rightarrow> SharedState \<Rightarrow> SessState" where
  "sess_state cs s = \<lparr>sx_registry = sv_registry s, sx_metrics = sv_metrics s, sx_ctrl = cs, sx_tasks = sv_tasks s,
     sx_aborted = sv_aborted s\<rparr>"

definition from_sess :: "SessState \<Rightarrow> SharedState \<Rightarrow> SharedState" where
  "from_sess st s = s\<lparr>sv_registry := sx_registry st, sv_metrics := sx_metrics st, sv_tasks := sx_tasks st,
     sv_aborted := sx_aborted st\<rparr>"

definition dispose :: "nat \<Rightarrow> PubKey \<Rightarrow> (ServerError, SessionOutcome) result \<Rightarrow> SharedState \<Rightarrow> SharedState" where
  "dispose now pubkey r s =
    (case r of
       Inr SDropped \<Rightarrow>
         (let grace = (case cf_resume_grace (sv_config s) of None \<Rightarrow> DEFAULT_GRACE_PERIOD | Some g \<Rightarrow> g);
              (reg, as) = mark_dangling now pubkey grace (sv_registry s)
          in tally session_dropped_update (s\<lparr>sv_registry := reg, sv_aborted := sv_aborted s @ as\<rparr>))
     | Inr SBye \<Rightarrow>
         (let (reg, as) = remove_all_owned_by pubkey (sv_registry s)
          in tally session_bye_update (s\<lparr>sv_registry := reg, sv_aborted := sv_aborted s @ as\<rparr>))
     | _ \<Rightarrow>
         (let (reg, as) = remove_all_owned_by pubkey (sv_registry s)
          in tally session_terminal_update (s\<lparr>sv_registry := reg, sv_aborted := sv_aborted s @ as\<rparr>)))"

definition session_start ::
  "ConnInput \<Rightarrow> ConnRef \<Rightarrow> HandshakeOk \<Rightarrow> SharedState \<Rightarrow> Session \<times> RateRef \<times> SharedState" where
  "session_start ci conn ok s =
    (let s = tally handshake_auth_ok_update s;
         (ref, s) = ensure_rate_state (he_now (ci_env ci)) (ho_pubkey ok) (ho_entry ok) s;
         s = update_rate attach_ctrl ref s
     in (\<lparr>sn_pubkey = ho_pubkey ok, sn_session_id = ho_session_id ok, sn_connection = conn,
          sn_mode = cf_mode (sv_config s), sn_entry = ho_entry ok, sn_rate = ref, sn_peers = sv_peers s\<rparr>, ref, s))"

definition run_session :: "ConnInput \<Rightarrow> ConnRef \<Rightarrow> HandshakeOk \<Rightarrow> ControlStream \<Rightarrow> SharedState \<Rightarrow> ConnEnd \<times> SharedState" where
  "run_session ci conn ok cs s =
    (let (sn, ref, s) = session_start ci conn ok s
     in case session_run sn (ci_turns ci) (sess_state cs s) of
          (None, st) \<Rightarrow> (\<lparr>ce_result = None, ce_close = None\<rparr>, from_sess st s)
        | (Some r, st) \<Rightarrow>
            (\<lparr>ce_result = Some (Inr ()), ce_close = Some 0\<rparr>,
             dispose (ci_end ci) (ho_pubkey ok) r (update_rate detach_ctrl ref (from_sess st s))))"

definition handle_connection :: "'vk Crypto \<Rightarrow> ConnInput \<Rightarrow> SharedState \<Rightarrow> ConnEnd \<times> SharedState" where
  "handle_connection cr ci s =
    (let s = (case ci_kind ci of
                Quic \<Rightarrow> tally transport_quic_accepted_update s
              | TcpFallback \<Rightarrow> tally transport_tcp_fallback_accepted_update s)
     in case ci_accept ci of
          Inl e \<Rightarrow> (\<lparr>ce_result = Some (Inl (SE_Transport e)), ce_close = None\<rparr>, s)
        | Inr conn \<Rightarrow>
          (case ci_control ci of
             Inl e \<Rightarrow> (\<lparr>ce_result = Some (Inl (SE_Transport e)), ce_close = None\<rparr>, s)
           | Inr cs \<Rightarrow>
             (let (r, keys, admin, cs) = perform cr (ci_env ci) (sv_keys s) (sv_admin s) cs;
                  s = s\<lparr>sv_keys := keys, sv_admin := admin\<rparr>
              in if ci_timed_out ci
                 then (\<lparr>ce_result = Some (Inr ()), ce_close = Some (ucast AUTHENTICATION_FAILED)\<rparr>,
                       tally handshake_timed_out_update s)
                 else (case r of
                    Inl e \<Rightarrow> (\<lparr>ce_result = Some (Inl e), ce_close = None\<rparr>, s)
                  | Inr (EnrollmentDone success) \<Rightarrow>
                      (\<lparr>ce_result = Some (Inr ()), ce_close = Some 0\<rparr>,
                       tally (if success then enrollment_ok_update else enrollment_rejected_update) s)
                  | Inr (Failed code) \<Rightarrow>
                      (\<lparr>ce_result = Some (Inr ()), ce_close = Some (ucast code)\<rparr>, tally (failed_counter code) s)
                  | Inr (Auth ok) \<Rightarrow> run_session ci conn ok cs s))))"

section \<open>Facts\<close>

lemma tally_fields [simp]:
  "sv_registry (tally f s) = sv_registry s" "sv_keys (tally f s) = sv_keys s" "sv_admin (tally f s) = sv_admin s"
  "sv_config (tally f s) = sv_config s" "sv_rates (tally f s) = sv_rates s" "sv_rate_states (tally f s) = sv_rate_states s"
  "sv_aborted (tally f s) = sv_aborted s"
  by (simp_all add: tally_def)

lemma update_rate_fields [simp]: "sv_registry (update_rate f ref s) = sv_registry s" "sv_config (update_rate f ref s) = sv_config s"
  by (simp_all add: update_rate_def)

lemma session_start_registry: "session_start ci conn ok s = (sn, ref, s') \<Longrightarrow> sv_registry s' = sv_registry s"
  by (auto simp: session_start_def ensure_rate_state_def Let_def split: option.splits)

text \<open>
  What the other tasks may do before a turn on the state it starts from: keep the
  registry consistent and leave the id counter short of its last value; and binding a
  port gives that port.
\<close>

definition turn_ok :: "Turn \<Rightarrow> SessState \<Rightarrow> bool" where
  "turn_ok t st \<longleftrightarrow>
    (\<forall>res. registry_inv (sx_registry st) res \<longrightarrow> (\<exists>res'. registry_inv (tn_others t (sx_registry st)) res')) \<and>
    next_id (tn_others t (sx_registry st)) \<noteq> - 1 \<and>
    (\<forall>p l q. re_bind (tn_env t) p = Bound l q \<longrightarrow> q = p)"

fun turns_ok :: "Session \<Rightarrow> Turn list \<Rightarrow> SessState \<Rightarrow> bool" where
  "turns_ok sn [] st = True"
| "turns_ok sn (t # ts) st =
    (turn_ok t st \<and> (case session_turn sn t st of (None, st') \<Rightarrow> turns_ok sn ts st' | (Some r, st') \<Rightarrow> True))"

lemma dispatch_inv:
  assumes "registry_inv (sx_registry st) res" "next_id (sx_registry st) \<noteq> - 1"
    "\<forall>p l q. re_bind env p = Bound l q \<longrightarrow> q = p"
  shows "\<exists>res'. registry_inv (sx_registry (snd (dispatch_frame sn env f st))) res'"
proof -
  obtain res' where "registry_step\<^sup>*\<^sup>* (sx_registry st, res) (sx_registry (snd (dispatch_frame sn env f st)), res')"
    using dispatch_refines [OF assms(2,3), of res sn f] by (auto simp: refines_steps_def)
  then show ?thesis using registry_sys.steps_inv assms(1) by fastforce
qed

lemma session_turn_inv:
  assumes "turn_ok t st" "registry_inv (sx_registry st) res"
  shows "\<exists>res'. registry_inv (sx_registry (snd (session_turn sn t st))) res'"
proof -
  let ?st = "st\<lparr>sx_registry := tn_others t (sx_registry st)\<rparr>"
  obtain res1 where i: "registry_inv (tn_others t (sx_registry st)) res1" "next_id (tn_others t (sx_registry st)) \<noteq> - 1"
    using assms by (auto simp: turn_ok_def)
  have bye: "sx_registry (say_bye c ?st) = tn_others t (sx_registry st)" for c
    by (simp add: say_bye_def Let_def)
  have d: "\<exists>res'. registry_inv (sx_registry (snd (dispatch_frame sn (tn_env t) f (?st\<lparr>sx_ctrl := cs\<rparr>)))) res'" for f cs
    using dispatch_inv [of "?st\<lparr>sx_ctrl := cs\<rparr>" res1 "tn_env t" sn f] i assms(1) by (simp add: turn_ok_def)
  show ?thesis
  proof (cases "wait_shutdown_ready (tn_shutdown t) \<or> wait_shutdown_ready (tn_revoked t) \<or> \<not> tn_readable t")
    case True
    then show ?thesis using i(1) bye by (auto simp: session_turn_def Let_def split: option.split)
  next
    case False
    show ?thesis
    proof (cases "recv_frame (sx_ctrl st)")
      case (Pair q cs)
      show ?thesis
        using False Pair i(1) d [of _ cs]
        by (cases q) (auto simp: session_turn_def Let_def split: prod.split sum.split DispatchOutcome.split, (metis snd_conv)+)
    qed
  qed
qed

lemma session_run_inv:
  "turns_ok sn turns st \<Longrightarrow> registry_inv (sx_registry st) res \<Longrightarrow>
    \<exists>res'. registry_inv (sx_registry (snd (session_run sn turns st))) res'"
proof (induction turns arbitrary: st res)
  case (Cons t ts)
  obtain o' st' where s: "session_turn sn t st = (o', st')" by (cases "session_turn sn t st")
  then obtain res' where "registry_inv (sx_registry st') res'"
    using session_turn_inv [of t st res sn] Cons.prems by auto
  then show ?case using Cons.IH [of st'] Cons.prems s by (cases o') (auto split: option.splits)
qed auto

lemma dispose_no_live:
  assumes "registry_inv (sv_registry s) res" "tunnel (sv_registry (dispose now pk r s)) tid = Some info" "ti_owner info = pk"
  shows "is_dangling (ti_state info)"
proof -
  have d: "sv_registry (dispose now pk r s) = fst (remove_all_owned_by pk (sv_registry s)) \<or>
      (\<exists>g. sv_registry (dispose now pk r s) = fst (mark_dangling now pk g (sv_registry s)))"
    by (auto simp: dispose_def Let_def split_beta split: sum.split SessionOutcome.split)
  then show ?thesis
  proof
    assume "sv_registry (dispose now pk r s) = fst (remove_all_owned_by pk (sv_registry s))"
    then show ?thesis
      using tunnel_remove_all_owned_by [OF assms(1), of pk tid] assms(2,3) by (simp split: option.splits if_splits)
  next
    assume "\<exists>g. sv_registry (dispose now pk r s) = fst (mark_dangling now pk g (sv_registry s))"
    then obtain g where "sv_registry (dispose now pk r s) = fst (mark_dangling now pk g (sv_registry s))" ..
    with assms(2) have "tunnel (fst (mark_dangling now pk g (sv_registry s))) tid = Some info" by simp
    then show ?thesis
      unfolding tunnel_mark_dangling [OF assms(1)]
      using assms(3) by (cases "tunnel (sv_registry s) tid") (auto split: if_splits)
  qed
qed

section \<open>Properties\<close>

text \<open>
  C7: only authenticated clients reach the registry. If handling a connection changed the
  tunnel registry, then within the deadline the client named a key that is authorized and
  signed this connection's nonce with it.
\<close>

theorem registry_access_needs_auth:
  assumes run: "handle_connection cr ci s = (e, s')" and changed: "sv_registry s' \<noteq> sv_registry s"
  shows "\<exists>cs pk sig rest entry. ci_control ci = Inr cs \<and> \<not> ci_timed_out ci \<and>
    cs_kind cs = Inr (StreamKind_as_byte Control) \<and> cs_in cs = Inr (AuthRequest pk) # Inr (AuthResponse sig) # rest \<and>
    keys_get pk (sv_keys s) = Some entry \<and>
    verify_challenge (cr_vk_from_bytes cr) (cr_verify cr) pk (he_nonce (ci_env ci)) sig"
proof -
  define s0 where "s0 = (case ci_kind ci of Quic \<Rightarrow> tally transport_quic_accepted_update s
      | TcpFallback \<Rightarrow> tally transport_tcp_fallback_accepted_update s)"
  have s0: "sv_registry s0 = sv_registry s" "sv_keys s0 = sv_keys s" "sv_admin s0 = sv_admin s"
    by (simp_all add: s0_def split: TransportKind.split)
  obtain conn where conn: "ci_accept ci = Inr conn"
    using run changed s0 by (cases "ci_accept ci") (auto simp: handle_connection_def Let_def simp flip: s0_def)
  obtain cs where cs: "ci_control ci = Inr cs"
    using run changed s0 conn by (cases "ci_control ci") (auto simp: handle_connection_def Let_def simp flip: s0_def)
  obtain r keys admin cs' where p: "perform cr (ci_env ci) (sv_keys s) (sv_admin s) cs = (r, keys, admin, cs')"
    by (cases "perform cr (ci_env ci) (sv_keys s) (sv_admin s) cs")
  have "\<not> ci_timed_out ci"
    using run changed s0 conn cs p by (auto simp: handle_connection_def Let_def simp flip: s0_def)
  moreover from this obtain ok where "r = Inr (Auth ok)"
    using run changed s0 conn cs p
    by (auto simp: handle_connection_def Let_def simp flip: s0_def split: sum.splits HandshakeOutcome.splits)
  ultimately show ?thesis using perform_Auth [of cr "ci_env ci" "sv_keys s" "sv_admin s" cs ok keys admin cs'] p cs by blast
qed



text \<open>
  a key that is not authorized is counted as a bad signature. The connection is closed
  with AUTHENTICATION\_FAILED, the signature counter moves and the counter for unknown
  identities does not, although that is what happened.
\<close>

theorem unknown_identity_counted_as_signature:
  assumes "ci_accept ci = Inr conn" "ci_control ci = Inr cs" "\<not> ci_timed_out ci"
    "cs_kind cs = Inr (StreamKind_as_byte Control)" "cs_in cs = Inr (AuthRequest pk) # rest" "0 < cs_writes cs"
    "keys_get pk (sv_keys s) = None"
    and run: "handle_connection cr ci s = (e, s')"
  shows "ce_close e = Some (ucast AUTHENTICATION_FAILED) \<and>
    handshake_signature_invalid (sv_metrics s') = handshake_signature_invalid (sv_metrics s) + 1 \<and>
    handshake_unknown_identity (sv_metrics s') = handshake_unknown_identity (sv_metrics s)"
proof -
  have p: "perform cr (ci_env ci) (sv_keys s) (sv_admin s) cs =
      (Inr (Failed AUTHENTICATION_FAILED), sv_keys s, sv_admin s,
       ctrl_finish (cs\<lparr>cs_in := rest, cs_out := cs_out cs @ [AuthReject UNKNOWN_IDENTITY], cs_writes := cs_writes cs - 1\<rparr>))"
    using assms(4-7)
    by (simp add: perform_def StreamKind_try_from_def recv_frame_def handle_auth_def answer_and_finish_def send_frame_def)
  then show ?thesis
    using run assms(1-3)
    by (cases "ci_kind ci") (auto simp: handle_connection_def tally_def failed_counter_def
        AUTHENTICATION_FAILED_def UNKNOWN_IDENTITY_def)
qed

text \<open>
  an operator's change of a key's limits does not reach the limiter. Once a key has a
  rate-limit state, later connections get that state whatever bandwidth and quota the
  key's entry has by then.
\<close>

theorem changed_limits_ignored:
  assumes "ensure_rate_state t pk entry s = (ref, s1)"
    "ensure_rate_state t' pk entry' s1 = (ref', s2)"
  shows "ref' = ref \<and> s2 = s1"
  using assms by (auto simp: ensure_rate_state_def Let_def update_conv' split: option.splits)

text \<open>
  a revocation between the handshake and the subscription is missed. The session's
  watcher subscribes after the handshake looked the key up; a broadcast sent before that
  never fires it, whatever is broadcast later about other keys.
\<close>

theorem early_revocation_missed:
  assumes "keys_reload b64 keys = (Inr (), keys1)" "pk \<in> set (kr_revoked keys1)"
    "kr_revoked keys2 = kr_revoked keys1 @ later" "pk \<notin> set later"
  shows "\<not> wait_shutdown_ready (spawn_revocation_watcher (subscribe_revocations keys1) pk keys2)"
proof -
  have "revocation_watcher pk (map Revoked later) = \<lparr>w_value = False, w_sender = True\<rparr>"
    using assms(4) by (induction later) auto
  then show ?thesis
    using assms(3) by (simp add: spawn_revocation_watcher_def subscribe_revocations_def wait_shutdown_ready_def)
qed


definition demo_shared :: SharedState where
  "demo_shared = \<lparr>sv_keys = \<lparr>kr_file = None, kr_entries = [([7], default_entry)], kr_revoked = []\<rparr>, sv_admin = demo_tokens,
     sv_registry = demo_registry,
     sv_config = \<lparr>cf_bind = (''1.2.3.4'', 7000), cf_data_dir = ''d'', cf_authorized_keys_path = ''k'',
                  cf_mode = ModeIp ''1.2.3.4'' (100, 200), cf_issue_admin_token = False, cf_admin_bind = None,
                  cf_admin_session_ttl = 0, cf_peer_list_path = ''p'', cf_tcp_fallback_bind = None, cf_bw_partitions = 1,
                  cf_resume_grace = None\<rparr>,
     sv_rates = [], sv_rate_states = [], sv_peers = [], sv_metrics = metrics_new 0, sv_tasks = [], sv_aborted = []\<rparr>"

definition demo_auth :: ControlStream where
  "demo_auth = demo_stream\<lparr>cs_in := [Inr (AuthRequest [7]), Inr (AuthResponse (signing_payload (he_nonce demo_env)))]\<rparr>"

definition demo_eof_turn :: Turn where
  "demo_eof_turn = demo_closed_turn\<lparr>tn_revoked := \<lparr>w_value = False, w_sender = True\<rparr>\<rparr>"

definition demo_conn :: ConnInput where
  "demo_conn = \<lparr>ci_kind = Quic, ci_accept = Inr 6, ci_control = Inr demo_auth, ci_timed_out = False, ci_env = demo_env,
     ci_turns = [demo_eof_turn], ci_end = 20\<rparr>"

definition demo_ok :: HandshakeOk where
  "demo_ok = \<lparr>ho_pubkey = [7], ho_session_id = [9], ho_entry = default_entry\<rparr>"

lemma demo_turn:
  assumes "cs_in (sx_ctrl st) = []"
  shows "session_turn sn demo_eof_turn st = (Some (Inr SDropped), st)"
  using assms by (simp add: session_turn_def demo_eof_turn_def demo_closed_turn_def wait_shutdown_ready_def recv_frame_def)

lemma demo_start:
  assumes "session_start demo_conn c demo_ok (demo_shared\<lparr>sv_metrics := m\<rparr>) = (sn, ref, s2)"
  shows "sv_registry s2 = demo_registry" "cf_resume_grace (sv_config s2) = None"
  using assms by (auto simp: session_start_def ensure_rate_state_def Let_def demo_shared_def split: option.splits)

lemma demo_run:
  assumes "cs_in cs = []"
  shows "ce_result (fst (run_session demo_conn c demo_ok cs (demo_shared\<lparr>sv_metrics := m\<rparr>))) = Some (Inr ())"
    "sv_registry (snd (run_session demo_conn c demo_ok cs (demo_shared\<lparr>sv_metrics := m\<rparr>))) =
      fst (mark_dangling 20 [7] DEFAULT_GRACE_PERIOD demo_registry)"
proof -
  obtain sn ref s2 where st: "session_start demo_conn c demo_ok (demo_shared\<lparr>sv_metrics := m\<rparr>) = (sn, ref, s2)"
    by (cases "session_start demo_conn c demo_ok (demo_shared\<lparr>sv_metrics := m\<rparr>)")
  have t: "ci_turns demo_conn = [demo_eof_turn]" "ci_end demo_conn = 20" "ho_pubkey demo_ok = [7]"
    by (simp_all add: demo_conn_def demo_ok_def)
  have r: "session_run sn (ci_turns demo_conn) (sess_state cs s2) = (Some (Inr SDropped), sess_state cs s2)"
    using assms demo_turn [of "sess_state cs s2" sn] by (simp add: t sess_state_def)
  have rs: "run_session demo_conn c demo_ok cs (demo_shared\<lparr>sv_metrics := m\<rparr>) =
      (\<lparr>ce_result = Some (Inr ()), ce_close = Some 0\<rparr>,
       dispose 20 [7] (Inr SDropped) (update_rate detach_ctrl ref (from_sess (sess_state cs s2) s2)))"
    by (simp add: run_session_def st r t(2,3))
  show "ce_result (fst (run_session demo_conn c demo_ok cs (demo_shared\<lparr>sv_metrics := m\<rparr>))) = Some (Inr ())"
    "sv_registry (snd (run_session demo_conn c demo_ok cs (demo_shared\<lparr>sv_metrics := m\<rparr>))) =
      fst (mark_dangling 20 [7] DEFAULT_GRACE_PERIOD demo_registry)"
    using demo_start [OF st]
    by (simp_all add: rs dispose_def from_sess_def sess_state_def split_beta)
qed

lemma demo_dropped:
  "tunnel (fst (mark_dangling 20 [7] DEFAULT_GRACE_PERIOD demo_registry)) 1 =
    Some (demo_info\<lparr>ti_state := Dangling (20 + DEFAULT_GRACE_PERIOD)\<rparr>)"
  using tunnel_mark_dangling [OF demo_inv, of 20 "[7]" DEFAULT_GRACE_PERIOD 1] demo_tunnel by (simp add: demo_info_def)

lemma demo_handle:
  "sv_registry (snd (handle_connection demo_crypto demo_conn demo_shared)) =
    fst (mark_dangling 20 [7] DEFAULT_GRACE_PERIOD demo_registry)"
proof -
  have v: "verify_challenge (cr_vk_from_bytes demo_crypto) (cr_verify demo_crypto) [7] [7] (signing_payload [7])"
    by (simp add: verify_challenge_def demo_crypto_def)
  have n: "he_nonce demo_env = [7]" "he_sid demo_env = [9]" "ci_env demo_conn = demo_env" "ci_kind demo_conn = Quic"
    "ci_accept demo_conn = Inr 6" "ci_control demo_conn = Inr demo_auth" "\<not> ci_timed_out demo_conn"
    by (simp_all add: demo_env_def demo_conn_def)
  obtain cs where p: "perform demo_crypto demo_env (sv_keys demo_shared) (sv_admin demo_shared) demo_auth =
      (Inr (Auth demo_ok), sv_keys demo_shared, sv_admin demo_shared, cs)" "cs_in cs = []"
    using v by (simp add: perform_def demo_auth_def demo_stream_def StreamKind_try_from_def recv_frame_def handle_auth_def
        demo_shared_def keys_get_def send_frame_def n demo_ok_def)
  define m where "m = transport_quic_accepted_update (\<lambda>n. n + 1) (sv_metrics demo_shared)"
  have "handle_connection demo_crypto demo_conn demo_shared = run_session demo_conn 6 demo_ok cs (demo_shared\<lparr>sv_metrics := m\<rparr>)"
    using p(1) by (simp add: handle_connection_def n tally_def m_def)
  then show ?thesis using demo_run(2) [OF p(2)] by simp
qed

theorem registry_access_needs_auth_witness:
  "\<exists>pk sig rest. cs_in demo_auth = Inr (AuthRequest pk) # Inr (AuthResponse sig) # rest \<and>
     verify_challenge (cr_vk_from_bytes demo_crypto) (cr_verify demo_crypto) pk (he_nonce demo_env) sig"
proof -
  have "sv_registry (snd (handle_connection demo_crypto demo_conn demo_shared)) \<noteq> sv_registry demo_shared"
  proof
    assume "sv_registry (snd (handle_connection demo_crypto demo_conn demo_shared)) = sv_registry demo_shared"
    moreover have "sv_registry demo_shared = demo_registry" by (simp add: demo_shared_def)
    ultimately have "demo_info\<lparr>ti_state := Dangling (20 + DEFAULT_GRACE_PERIOD)\<rparr> = demo_info"
      using demo_handle demo_dropped demo_tunnel by simp
    then show False by (simp add: demo_info_def)
  qed
  then show ?thesis
    using registry_access_needs_auth [of demo_crypto demo_conn demo_shared, OF surjective_pairing]
    by (auto simp: demo_conn_def)
qed


theorem unknown_identity_counted_as_signature_witness:
  "handshake_signature_invalid (sv_metrics (snd (handle_connection demo_crypto demo_conn
     (demo_shared\<lparr>sv_keys := demo_blank_keys\<rparr>)))) = 1"
  using unknown_identity_counted_as_signature [of demo_conn 6 demo_auth "[7]" _ "demo_shared\<lparr>sv_keys := demo_blank_keys\<rparr>"
      demo_crypto, OF _ _ _ _ _ _ _ surjective_pairing]
  by (simp add: demo_conn_def demo_auth_def demo_stream_def demo_blank_keys_def keys_get_def)
     (simp add: demo_shared_def metrics_new_def)

theorem changed_limits_ignored_witness:
  "fst (ensure_rate_state 9 [7] (default_entry\<lparr>ae_max_conns := Some 4\<rparr>) (snd (ensure_rate_state 0 [7] default_entry demo_shared))) = 0"
  using changed_limits_ignored [of 0 "[7]" default_entry demo_shared, OF surjective_pairing surjective_pairing, of 9]
  by (simp add: ensure_rate_state_def demo_shared_def)

theorem early_revocation_missed_witness:
  "\<exists>keys. keys_reload demo_b64 \<lparr>kr_file = Some [], kr_entries = [([7], default_entry)], kr_revoked = []\<rparr> = (Inr (), keys) \<and>
    [7] \<in> set (kr_revoked keys) \<and>
    \<not> wait_shutdown_ready (spawn_revocation_watcher (subscribe_revocations keys) [7] keys)"
proof -
  have "keys_reload demo_b64 \<lparr>kr_file = Some [], kr_entries = [([7], default_entry)], kr_revoked = []\<rparr> =
      (Inr (), \<lparr>kr_file = Some [], kr_entries = [], kr_revoked = [[7]]\<rparr>)"
    by (simp add: keys_reload_def parse_file_def parse_keys_text_def str_lines_def Let_def)
  from this early_revocation_missed [OF this, of "[7]" _ "[]"] show ?thesis by simp
qed

end
