(* ===== verification/Http_Text.thy ===== *)
theory Http_Text
  imports Rust_Str Stream_IO
begin

text \<open>
  What the HTTP-speaking parts share: reads of a TCP socket that may fail, the UTF-8 check
  of \<^verbatim>\<open>str::from_utf8\<close>, and the loop that buffers a request until its header block is
  complete (\<^verbatim>\<open>domain/http.rs\<close>, \<^verbatim>\<open>admin_api.rs\<close>). The header parser itself is the
  \<^verbatim>\<open>httparse\<close> package: a function from the bytes so far to complete, partial or error.
  \<^verbatim>\<open>head_complete\<close> states what it promises on a valid message: the header block is
  complete from its last byte on, and partial before.
\<close>

section \<open>Bytes and text\<close>

definition to_str :: "bytes \<Rightarrow> string" where
  "to_str bs = map (\<lambda>b. char_of (unat b)) bs"

definition as_bytes :: "string \<Rightarrow> bytes" where
  "as_bytes s = map of_char s"

definition in_range :: "nat \<Rightarrow> nat \<Rightarrow> u8 \<Rightarrow> bool" where
  "in_range lo hi b \<longleftrightarrow> lo \<le> unat b \<and> unat b \<le> hi"

definition continuation :: "u8 \<Rightarrow> bool" where
  "continuation b = in_range 0x80 0xBF b"

text \<open>Length of the well-formed UTF-8 sequence the bytes start with; 0 if there is none.\<close>

fun utf8_len :: "bytes \<Rightarrow> nat" where
  "utf8_len (a # bs) =
    (if unat a < 0x80 then 1
     else case bs of
       [] \<Rightarrow> 0
     | b # bs \<Rightarrow>
        if in_range 0xC2 0xDF a \<and> continuation b then 2
        else case bs of
          [] \<Rightarrow> 0
        | c # bs \<Rightarrow>
           if continuation c \<and>
              (unat a = 0xE0 \<and> in_range 0xA0 0xBF b \<or> (in_range 0xE1 0xEC a \<or> in_range 0xEE 0xEF a) \<and> continuation b \<or>
               unat a = 0xED \<and> in_range 0x80 0x9F b) then 3
           else case bs of
             [] \<Rightarrow> 0
           | d # bs \<Rightarrow>
              if continuation c \<and> continuation d \<and>
                 (unat a = 0xF0 \<and> in_range 0x90 0xBF b \<or> in_range 0xF1 0xF3 a \<and> continuation b \<or>
                  unat a = 0xF4 \<and> in_range 0x80 0x8F b) then 4
              else 0)"
| "utf8_len [] = 0"

function utf8_valid :: "bytes \<Rightarrow> bool" where
  "utf8_valid bs =
    (if bs = [] then True else if utf8_len bs = 0 then False else utf8_valid (drop (utf8_len bs) bs))"
  by pat_completeness auto
termination by (relation "measure length") (auto simp: neq_Nil_conv)

declare utf8_valid.simps [simp del]

definition from_utf8 :: "bytes \<Rightarrow> string option" where
  "from_utf8 bs = (if utf8_valid bs then Some (to_str bs) else None)"

text \<open>
  \<^verbatim>\<open>String::from_utf8_lossy\<close>: each maximal part of a sequence that cannot be completed
  becomes one U+FFFD. \<^verbatim>\<open>utf8_bad_len\<close> is the length of that part.
\<close>

definition second_ok :: "u8 \<Rightarrow> u8 \<Rightarrow> bool" where
  "second_ok a b \<longleftrightarrow>
    unat a = 0xE0 \<and> in_range 0xA0 0xBF b \<or> (in_range 0xE1 0xEC a \<or> in_range 0xEE 0xEF a) \<and> continuation b \<or>
    unat a = 0xED \<and> in_range 0x80 0x9F b \<or> unat a = 0xF0 \<and> in_range 0x90 0xBF b \<or>
    in_range 0xF1 0xF3 a \<and> continuation b \<or> unat a = 0xF4 \<and> in_range 0x80 0x8F b"

fun utf8_bad_len :: "bytes \<Rightarrow> nat" where
  "utf8_bad_len (a # b # c # bs) =
    (if second_ok a b then if in_range 0xF0 0xF4 a \<and> continuation c then 3 else 2 else 1)"
| "utf8_bad_len [a, b] = (if second_ok a b then 2 else 1)"
| "utf8_bad_len _ = 1"

lemma utf8_bad_len_pos: "0 < utf8_bad_len bs"
  by (induction bs rule: utf8_bad_len.induct) auto

definition REPLACEMENT :: bytes where "REPLACEMENT = [0xEF, 0xBF, 0xBD]"

function lossy_bytes :: "bytes \<Rightarrow> bytes" where
  "lossy_bytes bs =
    (if bs = [] then []
     else if utf8_len bs = 0 then REPLACEMENT @ lossy_bytes (drop (utf8_bad_len bs) bs)
     else take (utf8_len bs) bs @ lossy_bytes (drop (utf8_len bs) bs))"
  by pat_completeness auto
termination by (relation "measure length") (auto simp: utf8_bad_len_pos)

declare lossy_bytes.simps [simp del]

definition from_utf8_lossy :: "bytes \<Rightarrow> string" where
  "from_utf8_lossy bs = to_str (lossy_bytes bs)"

lemma lossy_bytes_valid: "utf8_valid bs \<Longrightarrow> lossy_bytes bs = bs"
proof (induction bs rule: lossy_bytes.induct)
  case (1 bs)
  then show ?case using utf8_valid.simps [of bs] by (simp add: lossy_bytes.simps [of bs] split: if_splits)
qed

lemma from_utf8_lossy_valid: "utf8_valid bs \<Longrightarrow> from_utf8_lossy bs = to_str bs"
  by (simp add: from_utf8_lossy_def lossy_bytes_valid)

lemma utf8_valid_ascii: "\<forall>b \<in> set bs. unat b < 0x80 \<Longrightarrow> utf8_valid bs"
  by (induction bs) (simp_all add: utf8_valid.simps)

section \<open>Sockets\<close>

text \<open>A read fails with \<^verbatim>\<open>sk_error\<close> once everything the peer sent has been read.\<close>

record Sock =
  sk_stream :: TcpStream
  sk_error :: "string option"

definition sock_read :: "nat \<Rightarrow> Sock \<Rightarrow> (string, bytes) result Poll \<times> Sock" where
  "sock_read n s =
    (case (sock_segments (sk_stream s), sk_error s) of
       ([], Some e) \<Rightarrow> (Ready (Inl e), s)
     | _ \<Rightarrow>
        (case tcp_poll_read n (sk_stream s) of
           (Pending, t) \<Rightarrow> (Pending, s\<lparr>sk_stream := t\<rparr>)
         | (Ready b, t) \<Rightarrow> (Ready (Inr b), s\<lparr>sk_stream := t\<rparr>)))"

section \<open>Request heads\<close>

record HttpHead =
  hh_method :: "string option"
  hh_path :: "string option"
  hh_headers :: "(string \<times> bytes) list"

datatype HttpStatus = Complete nat HttpHead | Partial | ParseError string

definition MAX_HEADER_BYTES :: nat where "MAX_HEADER_BYTES = 8 * 1024"

text \<open>Reads until the head is complete: the buffer with all bytes read, the end of the head, and the head.\<close>

function read_head ::
  "(bytes \<Rightarrow> HttpStatus) \<Rightarrow> bytes \<Rightarrow> Sock \<Rightarrow> (string, bytes \<times> nat \<times> HttpHead) result Poll \<times> Sock" where
  "read_head parse buf s =
    (case sock_read 1024 s of
       (Pending, s) \<Rightarrow> (Pending, s)
     | (Ready (Inl e), s) \<Rightarrow> (Ready (Inl e), s)
     | (Ready (Inr b), s) \<Rightarrow>
        (if b = [] then (Ready (Inl ''eof reading headers''), s)
         else let buf = buf @ b
           in case parse buf of
             Complete n head \<Rightarrow> (Ready (Inr (buf, n, head)), s)
           | ParseError e \<Rightarrow> (Ready (Inl e), s)
           | Partial \<Rightarrow>
               if MAX_HEADER_BYTES < length buf then (Ready (Inl ''headers exceed cap''), s)
               else read_head parse buf s))"
  by pat_completeness auto
termination
  by (relation "measure (\<lambda>(parse, buf, s). MAX_HEADER_BYTES + 1 - length buf)") (auto simp: neq_Nil_conv)

declare read_head.simps [simp del]

text \<open>The text of an HTTP response.\<close>

definition http_response :: "string \<Rightarrow> string \<Rightarrow> bytes \<Rightarrow> bytes" where
  "http_response status content_type body =
    as_bytes (''HTTP/1.1 '' @ status @ [CHR 0x0D, CHR 0x0A] @ ''Content-Type: '' @ content_type @ [CHR 0x0D, CHR 0x0A] @
       ''Content-Length: '' @ show_nat (length body) @ [CHR 0x0D, CHR 0x0A] @
       ''Connection: close'' @ [CHR 0x0D, CHR 0x0A, CHR 0x0D, CHR 0x0A]) @ body"

section \<open>Facts\<close>

lemma byte_of_char [simp]: "(of_char (char_of (n :: nat)) :: u8) = of_nat n"
proof -
  have "(of_char (char_of n) :: u8) = of_nat (of_char (char_of n))" by (simp only: of_nat_of_char)
  also have "\<dots> = of_nat (n mod 256)" by simp
  also have "\<dots> = of_nat n" by (rule word_unat_eq_iff [THEN iffD2]) (simp add: unat_of_nat)
  finally show ?thesis .
qed

lemma as_bytes_to_str [simp]: "as_bytes (to_str bs) = bs"
  by (induction bs) (simp_all add: as_bytes_def to_str_def)

lemma to_str_as_bytes [simp]: "to_str (as_bytes s) = s"
proof (induction s)
  case (Cons c s)
  have "unat (of_char c :: u8) = of_char c"
    using nat_of_char_less_256 [of c] unat_of_nat [of "of_char c", where 'a = 8] by (simp add: of_nat_of_char)
  then show ?case using Cons by (simp add: as_bytes_def to_str_def)
qed (simp add: as_bytes_def to_str_def)

definition sock_ok :: "Sock \<Rightarrow> bool" where
  "sock_ok s \<longleftrightarrow> [] \<notin> set (sock_segments (sk_stream s))"

definition sock_data :: "Sock \<Rightarrow> bytes" where
  "sock_data s = concat (sock_segments (sk_stream s))"

definition head_complete :: "(bytes \<Rightarrow> HttpStatus) \<Rightarrow> bytes \<Rightarrow> nat \<Rightarrow> HttpHead \<Rightarrow> bool" where
  "head_complete parse msg n head \<longleftrightarrow>
    n \<le> length msg \<and> (\<forall>k \<le> length msg. parse (take k msg) = (if k < n then Partial else Complete n head))"

lemma sock_read_data:
  assumes "sock_ok s" "sock_data s \<noteq> []" "0 < n"
  obtains b s' where "sock_read n s = (Ready (Inr b), s')" "b \<noteq> []" "sock_data s = b @ sock_data s'" "sock_ok s'"
    "length b \<le> n" "sk_error s' = sk_error s"
proof -
  obtain seg segs where segs: "sock_segments (sk_stream s) = seg # segs" "seg \<noteq> []"
    using assms(1,2) by (cases "sock_segments (sk_stream s)") (auto simp: sock_ok_def sock_data_def)
  let ?s' = "s\<lparr>sk_stream := (sk_stream s)\<lparr>sock_segments := (if n < length seg then drop n seg # segs else segs)\<rparr>\<rparr>"
  have "sock_read n s = (Ready (Inr (take n seg)), ?s')" using segs by (simp add: sock_read_def)
  moreover have "take n seg \<noteq> []" "sock_data s = take n seg @ sock_data ?s'" "sock_ok ?s'"
    using segs assms(1,3) by (auto simp: sock_data_def sock_ok_def)
  ultimately show ?thesis using that [of "take n seg" ?s'] by simp
qed

text \<open>However a message is cut into segments, the loop returns at its head, having read a prefix of it.\<close>

lemma read_head_segments:
  assumes "sock_ok s" "buf @ sock_data s = msg" "head_complete parse msg n head" "length buf < n" "n \<le> MAX_HEADER_BYTES"
  shows "\<exists>buf' s'. read_head parse buf s = (Ready (Inr (buf', n, head)), s') \<and> buf' @ sock_data s' = msg \<and>
    n \<le> length buf' \<and> sock_ok s' \<and> sk_error s' = sk_error s"
  using assms
proof (induction "n - length buf" arbitrary: buf s rule: less_induct)
  case less
  have "sock_data s \<noteq> []" using less.prems(2,3,4) by (auto simp: head_complete_def)
  then obtain b s' where r: "sock_read 1024 s = (Ready (Inr b), s')" "b \<noteq> []" "sock_data s = b @ sock_data s'" "sock_ok s'"
      "sk_error s' = sk_error s"
    using sock_read_data [OF less.prems(1), of 1024] by (metis zero_less_numeral)
  have m: "(buf @ b) @ sock_data s' = msg" using less.prems(2) r(3) by simp
  then have "take (length (buf @ b)) msg = buf @ b" "length (buf @ b) \<le> length msg" by auto
  then have p: "parse (buf @ b) = (if length (buf @ b) < n then Partial else Complete n head)"
    using less.prems(3) unfolding head_complete_def by metis
  show ?case
  proof (cases "length (buf @ b) < n")
    case True
    then have "read_head parse buf s = read_head parse (buf @ b) s'"
      using r(1,2) p less.prems(5) by (simp add: read_head.simps [of parse buf])
    moreover have "n - length (buf @ b) < n - length buf" using r(2) True by (cases b) auto
    ultimately show ?thesis using less.hyps [OF _ r(4) m less.prems(3) True less.prems(5)] r(5) by simp
  next
    case False
    then show ?thesis using r p m by (simp add: read_head.simps [of parse buf])
  qed
qed

text \<open>Nothing is lost by a read, nor by the loop.\<close>

lemma sock_read_keeps: "sock_read n s = (Ready (Inr b), s') \<Longrightarrow> b @ sock_data s' = sock_data s"
  by (auto simp: sock_read_def sock_data_def split: list.splits option.splits if_splits)

lemma read_head_keeps:
  "read_head parse buf s = (Ready (Inr (buf', n, head)), s') \<Longrightarrow> buf' @ sock_data s' = buf @ sock_data s"
proof (induction parse buf s rule: read_head.induct)
  case (1 parse buf s)
  obtain b s1 where r: "sock_read 1024 s = (Ready (Inr b), s1)" "b \<noteq> []"
    using "1.prems" by (auto simp: read_head.simps [of parse buf] split: prod.splits Poll.splits sum.splits if_splits)
  show ?case
    using "1.prems" r sock_read_keeps [OF r(1)] "1.IH" [OF r(1) [symmetric] refl refl r(2) refl]
    by (auto simp: read_head.simps [of parse buf] Let_def split: HttpStatus.splits if_splits)
qed

end
