(* ===== verification/Admin_Api.thy ===== *)
theory Admin_Api
  imports Metrics Registry Admin Http_Text "HOL-Library.DAList"
begin

text \<open>
  The admin HTTP API (\<^verbatim>\<open>krot-server/src/admin_api.rs\<close>): sessions minted for the admin
  token, the bearer check, and one function per route, on the whole state the handlers
  share. The JSON, base32, base64, BLAKE3 and header-parsing packages are parameters; a
  response is its status line and its body.
\<close>

section \<open>State and parameters\<close>

definition SESSION_TOKEN_RAW_LEN :: nat where "SESSION_TOKEN_RAW_LEN = 32"

definition DEFAULT_SESSION_TTL :: nat where "DEFAULT_SESSION_TTL = 24 * 3600 * 1000"

definition MAX_BODY_BYTES :: nat where "MAX_BODY_BYTES = 64 * 1024"

datatype Json = JNull | JBool bool | JNum nat | JStr string | JArr "Json list" | JObj "(string \<times> Json) list"

type_synonym Sessions = "(bytes, nat) alist"

record AdminApiState =
  aa_keys :: KeyRegistry
  aa_registry :: TunnelRegistry
  aa_admin_tokens :: AdminTokenStore
  aa_sessions :: Sessions
  aa_session_ttl :: nat
  aa_rates :: "(PubKey \<times> RateLimitState) list"
  aa_metrics :: ServerMetrics

record AdminLib =
  al_parse :: "bytes \<Rightarrow> HttpStatus"
  al_b64_encode :: "bytes \<Rightarrow> string"
  al_b64_decode :: "string \<Rightarrow> bytes option"
  al_base32 :: "bytes \<Rightarrow> string"
  al_blake3 :: "string \<Rightarrow> bytes"
  al_to_vec :: "Json \<Rightarrow> bytes option"
  al_body_token :: "bytes \<Rightarrow> string option"
  al_body_line :: "bytes \<Rightarrow> string option"

record AdminEnv =
  av_now :: nat
  av_unix :: u64
  av_raw :: bytes
  av_write_ok :: bool
  av_io_msg :: string
  av_version :: string

record Request =
  rq_method :: string
  rq_path :: string
  rq_headers :: "(string \<times> string) list"
  rq_body :: bytes

definition admin_api_new ::
  "KeyRegistry \<Rightarrow> TunnelRegistry \<Rightarrow> AdminTokenStore \<Rightarrow> (PubKey \<times> RateLimitState) list \<Rightarrow> nat \<Rightarrow> ServerMetrics \<Rightarrow> AdminApiState" where
  "admin_api_new keys registry admin_tokens rates session_ttl metrics =
    \<lparr>aa_keys = keys, aa_registry = registry, aa_admin_tokens = admin_tokens, aa_sessions = DAList.empty,
     aa_session_ttl = session_ttl, aa_rates = rates, aa_metrics = metrics\<rparr>"

section \<open>Sessions\<close>

definition sessions_insert :: "nat \<Rightarrow> nat \<Rightarrow> bytes \<Rightarrow> Sessions \<Rightarrow> Sessions" where
  "sessions_insert ttl now hash sessions = DAList.update hash (now + ttl) sessions"

definition saturating_add :: "u64 \<Rightarrow> u64 \<Rightarrow> u64" where
  "saturating_add a b = (if unat a + unat b < 2 ^ 64 then a + b else - 1)"

definition mint_session :: "AdminLib \<Rightarrow> AdminEnv \<Rightarrow> AdminApiState \<Rightarrow> (string \<times> u64) \<times> AdminApiState" where
  "mint_session al av st =
    (let token = al_base32 al (av_raw av);
         hash = al_blake3 al token;
         expires_at_unix = saturating_add (av_unix av) (of_nat (aa_session_ttl st div 1000))
     in ((token, expires_at_unix),
         st\<lparr>aa_sessions := sessions_insert (aa_session_ttl st) (av_now av) hash (aa_sessions st)\<rparr>))"

definition sessions_check :: "nat \<Rightarrow> bytes \<Rightarrow> Sessions \<Rightarrow> bool \<times> Sessions" where
  "sessions_check now candidate sessions =
    (let sessions = DAList.filter (\<lambda>(_, exp). now < exp) sessions;
         hit = foldl (\<lambda>hit known. hit \<or> constant_time_eq_public candidate known) False (map fst (DAList.impl_of sessions))
     in (hit, sessions))"

definition check_session :: "AdminLib \<Rightarrow> AdminEnv \<Rightarrow> string \<Rightarrow> AdminApiState \<Rightarrow> bool \<times> AdminApiState" where
  "check_session al av presented st =
    (let (hit, sessions) = sessions_check (av_now av) (al_blake3 al presented) (aa_sessions st)
     in (hit, st\<lparr>aa_sessions := sessions\<rparr>))"

section \<open>Responses\<close>

type_synonym Response = "string \<times> bytes"

definition status_line :: "nat \<Rightarrow> string" where
  "status_line code =
    (if code = 200 then ''200 OK''
     else if code = 204 then ''204 No Content''
     else if code = 400 then ''400 Bad Request''
     else if code = 401 then ''401 Unauthorized''
     else if code = 404 then ''404 Not Found''
     else ''500 Internal Server Error'')"

definition json :: "AdminLib \<Rightarrow> nat \<Rightarrow> Json \<Rightarrow> Response" where
  "json al status_code body =
    (status_line status_code, case al_to_vec al body of Some b \<Rightarrow> b | None \<Rightarrow> as_bytes ''{}'')"

definition error :: "AdminLib \<Rightarrow> nat \<Rightarrow> string \<Rightarrow> Response" where
  "error al status_code message =
    (status_line status_code, case al_to_vec al (JObj [(''error'', JStr message)]) of Some b \<Rightarrow> b | None \<Rightarrow> [])"

definition bump :: "((u64 \<Rightarrow> u64) \<Rightarrow> ServerMetrics \<Rightarrow> ServerMetrics) \<Rightarrow> AdminApiState \<Rightarrow> AdminApiState" where
  "bump field st = st\<lparr>aa_metrics := field (\<lambda>n. n + 1) (aa_metrics st)\<rparr>"

definition keys_error_text :: "AdminEnv \<Rightarrow> KeysError \<Rightarrow> string" where
  "keys_error_text av e =
    (case e of
       CannotParse line \<Rightarrow> ''authorized_keys: cannot parse: '' @ line
     | BadLine n line \<Rightarrow> ''authorized_keys: line '' @ show_nat n @ '': '' @ line
     | KeysText m \<Rightarrow> ''authorized_keys: '' @ m
     | KeysIo \<Rightarrow> ''io: '' @ av_io_msg av)"

section \<open>Handlers\<close>

definition handle_session :: "AdminLib \<Rightarrow> AdminEnv \<Rightarrow> Request \<Rightarrow> AdminApiState \<Rightarrow> Response \<times> AdminApiState" where
  "handle_session al av req st =
    (case al_body_token al (rq_body req) of
       None \<Rightarrow> (error al 400 (''expected {'' @ [CHR 0x22] @ ''admin_token'' @ [CHR 0x22] @ '': '' @ [CHR 0x22] @ ''...'' @ [CHR 0x22] @ ''}''), st)
     | Some admin_token \<Rightarrow>
        (case token_consume (al_blake3 al) (av_now av) admin_token (aa_admin_tokens st) of
           (Inl e, tokens) \<Rightarrow>
             (error al 401 ''admin token rejected'',
              bump admin_api_session_rejected_update (st\<lparr>aa_admin_tokens := tokens\<rparr>))
         | (Inr u, tokens) \<Rightarrow>
             (let st = bump admin_api_session_minted_update (st\<lparr>aa_admin_tokens := tokens\<rparr>);
                  ((token, expires_at_unix), st) = mint_session al av st
              in (json al 200 (JObj [(''session_token'', JStr token), (''expires_at_unix'', JNum (unat expires_at_unix))]), st))))"

definition jopt :: "('a \<Rightarrow> Json) \<Rightarrow> 'a option \<Rightarrow> Json" where
  "jopt f x = (case x of None \<Rightarrow> JNull | Some a \<Rightarrow> f a)"

definition dto_of :: "AdminLib \<Rightarrow> TunnelSnapshot \<Rightarrow> Json" where
  "dto_of al t =
    (let (kind, label, port) =
       (case ts_kind t of
          SHttp label \<Rightarrow> (''http'', JStr label, JNull)
        | STcp public_port \<Rightarrow> (''tcp'', JNull, JNum (unat public_port)))
     in JObj [(''tunnel_id'', JNum (unat (ts_tunnel_id t))),
              (''owner_pubkey_b64'', JStr (al_b64_encode al (ts_owner t))),
              (''session_id_b64'', JStr (al_b64_encode al (ts_session_id t))),
              (''state'', JStr (if ts_live t then ''live'' else ''dangling'')),
              (''inspect'', JBool (ts_inspect t)),
              (''kind'', JStr kind),
              (''label'', label),
              (''public_port'', port)])"

definition handle_list_tunnels :: "AdminLib \<Rightarrow> AdminApiState \<Rightarrow> Response" where
  "handle_list_tunnels al st = json al 200 (JArr (map (dto_of al) (registry_snapshot (aa_registry st))))"

definition key_dto :: "AdminLib \<Rightarrow> PubKey \<times> AuthorizedEntry \<Rightarrow> Json" where
  "key_dto al = (\<lambda>(pk, e).
     JObj [(''pubkey_b64'', JStr (al_b64_encode al pk)),
           (''allow_any_subdomain'', JBool (ae_allow_any_subdomain e)),
           (''allowed_subdomains'', JArr (map JStr (ae_allowed_subdomains e))),
           (''max_conns'', jopt JNum (ae_max_conns e)),
           (''allowed_ports'', jopt (\<lambda>ps. JArr (map (\<lambda>p. JNum (unat p)) ps)) (ae_allowed_ports e)),
           (''bw'', jopt (\<lambda>r. JStr (format_rate r)) (ae_bw e)),
           (''quota'', jopt (\<lambda>r. JStr (format_rate r)) (ae_quota e)),
           (''comment'', jopt JStr (ae_comment e))])"

definition handle_list_keys :: "AdminLib \<Rightarrow> AdminApiState \<Rightarrow> Response" where
  "handle_list_keys al st = json al 200 (JArr (map (key_dto al) (keys_snapshot (aa_keys st))))"

definition handle_append_key :: "AdminLib \<Rightarrow> AdminEnv \<Rightarrow> Request \<Rightarrow> AdminApiState \<Rightarrow> Response \<times> AdminApiState" where
  "handle_append_key al av req st =
    (case al_body_line al (rq_body req) of
       None \<Rightarrow> (error al 400 (''expected {'' @ [CHR 0x22] @ ''line'' @ [CHR 0x22] @ '': '' @ [CHR 0x22] @ ''...'' @ [CHR 0x22] @ ''}''), st)
     | Some line \<Rightarrow>
        (case append_line (al_b64_decode al) (av_write_ok av) line (aa_keys st) of
           (Inr stored, keys) \<Rightarrow>
             ((''200 OK'', case al_to_vec al (JObj [(''appended'', JStr stored)]) of Some b \<Rightarrow> b | None \<Rightarrow> []),
              bump admin_api_key_appended_update (st\<lparr>aa_keys := keys\<rparr>))
         | (Inl e, keys) \<Rightarrow> (error al 400 (''append_line: '' @ keys_error_text av e), st\<lparr>aa_keys := keys\<rparr>)))"

definition handle_delete_key :: "AdminLib \<Rightarrow> AdminEnv \<Rightarrow> string \<Rightarrow> AdminApiState \<Rightarrow> Response \<times> AdminApiState" where
  "handle_delete_key al av pubkey_b64 st =
    (case al_b64_decode al pubkey_b64 of
       None \<Rightarrow> (error al 400 ''pubkey is not standard base64'', st)
     | Some raw \<Rightarrow>
        if length raw \<noteq> 32 then (error al 400 ''pubkey must be 32 bytes'', st)
        else (case remove_pubkey (al_b64_decode al) (av_write_ok av) raw (aa_keys st) of
           (Inr True, keys) \<Rightarrow> ((''204 No Content'', []), bump admin_api_key_removed_update (st\<lparr>aa_keys := keys\<rparr>))
         | (Inr False, keys) \<Rightarrow>
             (error al 404 ''no such key'', bump admin_api_key_remove_not_found_update (st\<lparr>aa_keys := keys\<rparr>))
         | (Inl e, keys) \<Rightarrow> (error al 500 (''remove_pubkey: '' @ keys_error_text av e), st\<lparr>aa_keys := keys\<rparr>)))"

definition handle_metrics :: "AdminLib \<Rightarrow> AdminEnv \<Rightarrow> AdminApiState \<Rightarrow> Response" where
  "handle_metrics al av st =
    (let snapshot = registry_snapshot (aa_registry st);
         live = length (filter ts_live snapshot);
         dangling = length (filter (\<lambda>t. \<not> ts_live t) snapshot);
         per_identity_bytes = map (\<lambda>(pk, r). (al_b64_encode al pk, quota_used_snapshot r)) (aa_rates st)
     in (''200 OK'', as_bytes (to_prometheus_text (av_version av) (av_unix av) live dangling per_identity_bytes (aa_metrics st))))"

section \<open>Routing\<close>

definition KEYS_PREFIX :: string where "KEYS_PREFIX = ''/admin/v1/keys/''"

definition dispatch_route :: "AdminLib \<Rightarrow> AdminEnv \<Rightarrow> Request \<Rightarrow> AdminApiState \<Rightarrow> Response \<times> AdminApiState" where
  "dispatch_route al av req st =
    (let m = rq_method req; p = rq_path req
     in if m = ''GET'' \<and> p = ''/admin/v1/tunnels'' then (handle_list_tunnels al st, st)
        else if m = ''GET'' \<and> p = ''/admin/v1/keys'' then (handle_list_keys al st, st)
        else if m = ''POST'' \<and> p = ''/admin/v1/keys'' then handle_append_key al av req st
        else if m = ''GET'' \<and> p = ''/admin/v1/metrics'' then (handle_metrics al av st, st)
        else if m = ''DELETE'' \<and> starts_with p KEYS_PREFIX then handle_delete_key al av (drop (length KEYS_PREFIX) p) st
        else (error al 404 ''no such route'', st))"

definition is_session_route :: "Request \<Rightarrow> bool" where
  "is_session_route req \<longleftrightarrow> rq_method req = ''POST'' \<and> rq_path req = ''/admin/v1/session''"

definition route :: "AdminLib \<Rightarrow> AdminEnv \<Rightarrow> Request \<Rightarrow> string option \<Rightarrow> AdminApiState \<Rightarrow> Response \<times> AdminApiState" where
  "route al av req auth st =
    (if is_session_route req then handle_session al av req st
     else case auth of
       None \<Rightarrow> (error al 401 ''missing Authorization: Bearer'', bump admin_api_auth_failed_update st)
     | Some token \<Rightarrow>
        (let (hit, st) = check_session al av token st
         in if \<not> hit then (error al 401 ''invalid or expired session token'', bump admin_api_auth_failed_update st)
            else dispatch_route al av req st))"

section \<open>Requests\<close>

fun auth_bearer :: "(string \<times> string) list \<Rightarrow> string option" where
  "auth_bearer [] = None"
| "auth_bearer ((k, v) # hs) =
    (if eq_ignore_ascii_case k ''authorization'' then
       (case strip_prefix v ''Bearer '' of
          Some rest \<Rightarrow> Some (trim rest)
        | None \<Rightarrow> (case strip_prefix v ''bearer '' of Some rest \<Rightarrow> Some (trim rest) | None \<Rightarrow> auth_bearer hs))
     else auth_bearer hs)"

definition header_text :: "string \<times> bytes \<Rightarrow> string \<times> string" where
  "header_text h = (fst h, case from_utf8 (snd h) of Some v \<Rightarrow> v | None \<Rightarrow> [])"

definition content_length :: "(string \<times> string) list \<Rightarrow> nat" where
  "content_length hs =
    foldl (\<lambda>cl (name, value). if eq_ignore_ascii_case name ''content-length''
        then (case parse_uint 64 value of Some n \<Rightarrow> n | None \<Rightarrow> 0) else cl) 0 hs"

function read_body :: "nat \<Rightarrow> bytes \<Rightarrow> Sock \<Rightarrow> (string, bytes) result Poll \<times> Sock" where
  "read_body cl body s =
    (if cl \<le> length body then (Ready (Inr body), s)
     else case sock_read 4096 s of
       (Pending, s) \<Rightarrow> (Pending, s)
     | (Ready (Inl e), s) \<Rightarrow> (Ready (Inl e), s)
     | (Ready (Inr b), s) \<Rightarrow> if b = [] then (Ready (Inr body), s) else read_body cl (body @ b) s)"
  by pat_completeness auto
termination by (relation "measure (\<lambda>(cl, body, s). cl - length body)") (auto simp: neq_Nil_conv)

declare read_body.simps [simp del]

definition read_request :: "(bytes \<Rightarrow> HttpStatus) \<Rightarrow> Sock \<Rightarrow> (string, Request) result Poll \<times> Sock" where
  "read_request parse s =
    (case read_head parse [] s of
       (Pending, s) \<Rightarrow> (Pending, s)
     | (Ready (Inl e), s) \<Rightarrow> (Ready (Inl e), s)
     | (Ready (Inr (buf, header_end, head)), s) \<Rightarrow>
        (let hs = map header_text (hh_headers head); cl = content_length hs
         in if MAX_BODY_BYTES < cl then (Ready (Inl ''body exceeds cap''), s)
            else (case read_body cl (drop header_end buf) s of
               (Pending, s) \<Rightarrow> (Pending, s)
             | (Ready (Inl e), s) \<Rightarrow> (Ready (Inl e), s)
             | (Ready (Inr body), s) \<Rightarrow>
                 (Ready (Inr \<lparr>rq_method = (case hh_method head of Some m \<Rightarrow> m | None \<Rightarrow> []),
                              rq_path = (case hh_path head of Some p \<Rightarrow> p | None \<Rightarrow> []),
                              rq_headers = hs, rq_body = take cl body\<rparr>), s))))"

definition write_response :: "Response \<Rightarrow> bytes" where
  "write_response r = http_response (fst r) ''application/json'' (snd r)"

text \<open>One accepted connection: what is written to the socket, or the error that ends the task.\<close>

definition api_handle :: "AdminLib \<Rightarrow> AdminEnv \<Rightarrow> Sock \<Rightarrow> AdminApiState \<Rightarrow> (string, bytes) result Poll \<times> AdminApiState" where
  "api_handle al av s st =
    (case fst (read_request (al_parse al) s) of
       Pending \<Rightarrow> (Pending, st)
     | Ready (Inl e) \<Rightarrow> (Ready (Inl e), st)
     | Ready (Inr req) \<Rightarrow>
        (let (r, st) = route al av req (auth_bearer (rq_headers req)) st in (Ready (Inr (write_response r)), st)))"

section \<open>The session table\<close>

lemma sessions_check_hit:
  "fst (sessions_check now k s) \<longleftrightarrow> (\<exists>e. DAList.lookup s k = Some e \<and> now < e)"
proof -
  let ?s = "DAList.filter (\<lambda>(_, exp). now < exp) s"
  have "fst (sessions_check now k s) \<longleftrightarrow> k \<in> fst ` set (DAList.impl_of ?s)"
    using server_eq.any_eq [of k False "map fst (DAList.impl_of ?s)"]
    by (simp add: sessions_check_def constant_time_eq_def [abs_def] Let_def)
  also have "\<dots> \<longleftrightarrow> DAList.lookup ?s k \<noteq> None"
    by (simp add: DAList.lookup.rep_eq map_of_eq_None_iff)
  also have "\<dots> \<longleftrightarrow> (\<exists>e. DAList.lookup s k = Some e \<and> now < e)"
    using lookup_live [of now s k] by auto
  finally show ?thesis .
qed

lemma sessions_check_lookup:
  "DAList.lookup (snd (sessions_check now k s)) k' = Some e \<longleftrightarrow> DAList.lookup s k' = Some e \<and> now < e"
  by (simp add: sessions_check_def Let_def lookup_live)

interpretation admin_sessions: fixed_expiry_store DAList.lookup DAList.empty "sessions_insert ttl" sessions_check ttl for ttl
  by unfold_locales
     (auto simp: sessions_insert_def sessions_check_hit sessions_check_lookup lookup_update split: if_splits)

section \<open>Histories of requests\<close>

fun serve_all :: "AdminLib \<Rightarrow> (AdminEnv \<times> Request) list \<Rightarrow> AdminApiState \<Rightarrow> AdminApiState" where
  "serve_all al [] st = st"
| "serve_all al ((av, req) # h) st = serve_all al h (snd (route al av req (auth_bearer (rq_headers req)) st))"

definition mints :: "AdminLib \<Rightarrow> AdminEnv \<Rightarrow> Request \<Rightarrow> AdminApiState \<Rightarrow> bool" where
  "mints al av req st \<longleftrightarrow> is_session_route req \<and>
    (\<exists>tok. al_body_token al (rq_body req) = Some tok \<and>
      fst (token_consume (al_blake3 al) (av_now av) tok (aa_admin_tokens st)) = Inr ())"

definition table_ops :: "AdminLib \<Rightarrow> AdminEnv \<Rightarrow> Request \<Rightarrow> AdminApiState \<Rightarrow> bytes store_op list" where
  "table_ops al av req st =
    (if mints al av req st then [Add (av_now av) (al_blake3 al (al_base32 al (av_raw av)))]
     else if is_session_route req then []
     else case auth_bearer (rq_headers req) of None \<Rightarrow> [] | Some tok \<Rightarrow> [Check (av_now av) (al_blake3 al tok)])"

fun history_ops :: "AdminLib \<Rightarrow> (AdminEnv \<times> Request) list \<Rightarrow> AdminApiState \<Rightarrow> bytes store_op list" where
  "history_ops al [] st = []"
| "history_ops al ((av, req) # h) st =
    table_ops al av req st @ history_ops al h (snd (route al av req (auth_bearer (rq_headers req)) st))"

lemma store_run_append: "store_run add check (xs @ ys) s = store_run add check ys (store_run add check xs s)"
proof (induction xs arbitrary: s)
  case (Cons op xs)
  then show ?case by (cases op) auto
qed simp

lemma bump_fields [simp]:
  "aa_keys (bump f st) = aa_keys st" "aa_registry (bump f st) = aa_registry st" "aa_admin_tokens (bump f st) = aa_admin_tokens st"
  "aa_sessions (bump f st) = aa_sessions st" "aa_session_ttl (bump f st) = aa_session_ttl st"
  by (simp_all add: bump_def)

lemma dispatch_route_sessions:
  "aa_sessions (snd (dispatch_route al av req st)) = aa_sessions st"
  "aa_session_ttl (snd (dispatch_route al av req st)) = aa_session_ttl st"
  "aa_admin_tokens (snd (dispatch_route al av req st)) = aa_admin_tokens st"
  "aa_registry (snd (dispatch_route al av req st)) = aa_registry st"
  by (simp_all add: dispatch_route_def handle_append_key_def handle_delete_key_def Let_def
      split: option.split prod.split sum.split bool.split)

lemma handle_session_table:
  "aa_sessions (snd (handle_session al av req st)) =
    (if is_session_route req \<longrightarrow> mints al av req st then
       (case al_body_token al (rq_body req) of None \<Rightarrow> aa_sessions st
        | Some tok \<Rightarrow> if fst (token_consume (al_blake3 al) (av_now av) tok (aa_admin_tokens st)) = Inr ()
            then sessions_insert (aa_session_ttl st) (av_now av) (al_blake3 al (al_base32 al (av_raw av))) (aa_sessions st)
            else aa_sessions st)
     else aa_sessions st)"
  "aa_session_ttl (snd (handle_session al av req st)) = aa_session_ttl st"
  by (auto simp: handle_session_def mint_session_def mints_def Let_def split: option.split prod.split sum.split)

lemma route_table:
  "aa_sessions (snd (route al av req (auth_bearer (rq_headers req)) st)) =
    store_run (sessions_insert (aa_session_ttl st)) sessions_check (table_ops al av req st) (aa_sessions st)"
  "aa_session_ttl (snd (route al av req (auth_bearer (rq_headers req)) st)) = aa_session_ttl st"
  by (auto simp: route_def table_ops_def handle_session_table mints_def check_session_def dispatch_route_sessions
      split: option.split prod.split)

lemma serve_all_table:
  "aa_sessions (serve_all al h st) =
    store_run (sessions_insert (aa_session_ttl st)) sessions_check (history_ops al h st) (aa_sessions st)"
  by (induction h arbitrary: st) (auto simp: store_run_append route_table)

lemma history_Add:
  assumes "Add t k \<in> set (history_ops al h st)"
  shows "\<exists>h1 av req h2. h = h1 @ (av, req) # h2 \<and> mints al av req (serve_all al h1 st) \<and> t = av_now av \<and>
    k = al_blake3 al (al_base32 al (av_raw av))"
  using assms
proof (induction h arbitrary: st)
  case (Cons x h)
  obtain av req where x: "x = (av, req)" by (cases x)
  let ?st = "snd (route al av req (auth_bearer (rq_headers req)) st)"
  from Cons.prems x consider "Add t k \<in> set (table_ops al av req st)" | "Add t k \<in> set (history_ops al h ?st)"
    by auto
  then show ?case
  proof cases
    case 1
    then have "mints al av req st \<and> t = av_now av \<and> k = al_blake3 al (al_base32 al (av_raw av))"
      by (auto simp: table_ops_def split: if_splits option.splits)
    then show ?thesis using x by (intro exI [of _ "[]"]) auto
  next
    case 2
    then obtain h1 av' req' h2 where "h = h1 @ (av', req') # h2" "mints al av' req' (serve_all al h1 ?st)" "t = av_now av'"
      "k = al_blake3 al (al_base32 al (av_raw av'))"
      using Cons.IH by blast
    then show ?thesis using x by (intro exI [of _ "x # h1"]) auto
  qed
qed simp

section \<open>Properties\<close>

text \<open>
  C29: an accepted bearer token was paid for with an admin token. From a fresh API state,
  after any history of requests, a session check succeeds only for a token that an
  earlier session request minted by using up the admin token that was valid then, and
  only within the session lifetime of that request; no later use extends it.
\<close>

theorem admin_session_from_token:
  assumes "fst (check_session al av presented (serve_all al h (admin_api_new keys registry tokens rates ttl m)))"
  shows "\<exists>h1 av' req h2. h = h1 @ (av', req) # h2 \<and>
    mints al av' req (serve_all al h1 (admin_api_new keys registry tokens rates ttl m)) \<and>
    al_blake3 al presented = al_blake3 al (al_base32 al (av_raw av')) \<and> av_now av < av_now av' + ttl"
proof -
  let ?st = "admin_api_new keys registry tokens rates ttl m"
  have "fst (sessions_check (av_now av) (al_blake3 al presented)
      (store_run (sessions_insert ttl) sessions_check (history_ops al h ?st) DAList.empty))"
    using assms serve_all_table [of al h ?st] by (simp add: check_session_def split_beta admin_api_new_def)
  then obtain t where t: "Add t (al_blake3 al presented) \<in> set (history_ops al h ?st)" "av_now av < t + ttl"
    using admin_sessions.accepted_was_minted by blast
  then show ?thesis using history_Add [OF t(1)] by blast
qed

text \<open>
  C30: every route but the session exchange is behind the bearer check. Unless the token
  presented belongs to a session that has not expired, the answer is 401, nothing of the
  keys, the tunnels, the admin token changes, only expired sessions are dropped, and the
  failure is counted.
\<close>

theorem admin_routes_need_session:
  assumes "\<not> is_session_route req" "route al av req auth st = (resp, st')"
    and "\<nexists>tok e. auth = Some tok \<and> DAList.lookup (aa_sessions st) (al_blake3 al tok) = Some e \<and> av_now av < e"
  shows "fst resp = ''401 Unauthorized'' \<and> aa_keys st' = aa_keys st \<and> aa_registry st' = aa_registry st \<and>
    aa_admin_tokens st' = aa_admin_tokens st \<and>
    admin_api_auth_failed (aa_metrics st') = admin_api_auth_failed (aa_metrics st) + 1 \<and>
    (\<forall>k e. av_now av < e \<longrightarrow> DAList.lookup (aa_sessions st') k = Some e \<longleftrightarrow> DAList.lookup (aa_sessions st) k = Some e)"
proof (cases auth)
  case None
  then show ?thesis using assms(1,2) by (auto simp: route_def error_def status_line_def bump_def)
next
  case (Some tok)
  obtain hit ss where c: "sessions_check (av_now av) (al_blake3 al tok) (aa_sessions st) = (hit, ss)"
    by (cases "sessions_check (av_now av) (al_blake3 al tok) (aa_sessions st)")
  then have "\<not> hit" using sessions_check_hit [of "av_now av" "al_blake3 al tok" "aa_sessions st"] assms(3) Some by auto
  moreover have "DAList.lookup ss k = Some e \<longleftrightarrow> DAList.lookup (aa_sessions st) k = Some e \<and> av_now av < e" for k e
    using sessions_check_lookup [of "av_now av" "al_blake3 al tok" "aa_sessions st" k e] c by simp
  ultimately show ?thesis
    using assms(1,2) Some c by (auto simp: route_def check_session_def error_def status_line_def bump_def)
qed

lemma status_204: "fst (handle_list_tunnels al st) \<noteq> ''204 No Content''" "fst (handle_list_keys al st) \<noteq> ''204 No Content''"
  "fst (handle_metrics al av st) \<noteq> ''204 No Content''" "fst (fst (handle_session al av req st)) \<noteq> ''204 No Content''"
  "fst (fst (handle_append_key al av req st)) \<noteq> ''204 No Content''" "c \<noteq> 204 \<Longrightarrow> fst (error al c msg) \<noteq> ''204 No Content''"
  by (auto simp: handle_list_tunnels_def handle_list_keys_def handle_metrics_def handle_session_def handle_append_key_def
      json_def error_def status_line_def Let_def split: option.split prod.split sum.split)

lemma error_401 [simp]: "error al 401 msg \<noteq> (''204 No Content'', body)"
  using status_204(6) [of 401 al msg] by auto

lemma delete_204:
  assumes "handle_delete_key al av b64 st = ((''204 No Content'', body), st')"
  shows "\<exists>pk. al_b64_decode al b64 = Some pk \<and> length pk = 32 \<and>
    remove_pubkey (al_b64_decode al) (av_write_ok av) pk (aa_keys st) = (Inr True, aa_keys st')"
  using assms status_204(6)
  by (auto simp: handle_delete_key_def error_def status_line_def
      split: option.splits prod.splits sum.splits bool.splits if_splits)

lemma route_204:
  assumes run: "route al av req auth st = ((''204 No Content'', body), st')"
  shows "\<exists>st1. rq_method req = ''DELETE'' \<and> starts_with (rq_path req) KEYS_PREFIX \<and> aa_keys st1 = aa_keys st \<and>
    handle_delete_key al av (drop (length KEYS_PREFIX) (rq_path req)) st1 = ((''204 No Content'', body), st')"
proof -
  have n: "\<not> is_session_route req" using run status_204(4) [of al av req st] by (auto simp: route_def)
  then obtain tok where tok: "auth = Some tok" using run by (cases auth) (auto simp: route_def)
  let ?c = "check_session al av tok st"
  have "fst ?c"
    using n tok run by (auto simp: route_def split_beta split: if_splits)
  then have d: "dispatch_route al av req (snd ?c) = ((''204 No Content'', body), st')"
    using n tok run by (simp add: route_def split_beta)
  have k: "aa_keys (snd ?c) = aa_keys st" by (simp add: check_session_def split_beta)
  have "rq_method req = ''DELETE'' \<and> starts_with (rq_path req) KEYS_PREFIX"
    using status_204 [where al = al] arg_cong [OF d, of "\<lambda>x. fst (fst x)"]
    by (auto simp: dispatch_route_def Let_def split: if_splits)
  moreover from this have "handle_delete_key al av (drop (length KEYS_PREFIX) (rq_path req)) (snd ?c) = ((''204 No Content'', body), st')"
    using d by (auto simp: dispatch_route_def)
  ultimately show ?thesis using k by blast
qed

text \<open>
  a delete answered with 204 revoked the key. On a well-formed key file, the key in the
  path is authorized no more, every other listed key keeps its entry, and a session of the
  key is told.
\<close>

theorem admin_delete_revokes:
  assumes disk: "kr_file (aa_keys st) = Some contents" "CHR 0x0D \<notin> set contents"
      "parse_file (al_b64_decode al) (kr_file (aa_keys st)) = Inr es"
    and ok: "av_write_ok av" and run: "route al av req auth st = ((''204 No Content'', body), st')"
  shows "\<exists>pk. al_b64_decode al (drop (length KEYS_PREFIX) (rq_path req)) = Some pk \<and> rq_method req = ''DELETE'' \<and>
    keys_get pk (aa_keys st') = None \<and> (\<forall>pk'. pk' \<noteq> pk \<longrightarrow> keys_get pk' (aa_keys st') = map_of es pk') \<and>
    (keys_get pk (aa_keys st) \<noteq> None \<longrightarrow> pk \<in> set (kr_revoked (aa_keys st')))"
proof -
  obtain st1 where st1: "rq_method req = ''DELETE''" "aa_keys st1 = aa_keys st"
      "handle_delete_key al av (drop (length KEYS_PREFIX) (rq_path req)) st1 = ((''204 No Content'', body), st')"
    using route_204 [OF run] by blast
  obtain pk where pk: "al_b64_decode al (drop (length KEYS_PREFIX) (rq_path req)) = Some pk"
      "remove_pubkey (al_b64_decode al) True pk (aa_keys st) = (Inr True, aa_keys st')"
    using delete_204 [OF st1(3)] st1(2) ok by auto
  then show ?thesis using remove_pubkey_spec [OF disk pk(2)] st1(1) by auto
qed

lemma read_body_segments:
  assumes "sock_ok s" "body @ sock_data s = rest" "cl \<le> length rest"
  shows "\<exists>body' s'. read_body cl body s = (Ready (Inr body'), s') \<and> take cl body' = take cl rest"
  using assms
proof (induction "cl - length body" arbitrary: body s rule: less_induct)
  case less
  show ?case
  proof (cases "cl \<le> length body")
    case True
    then show ?thesis using less.prems(2) by (auto simp: read_body.simps [of cl body])
  next
    case False
    then have "sock_data s \<noteq> []" using less.prems(2,3) by auto
    then obtain b s' where r: "sock_read 4096 s = (Ready (Inr b), s')" "b \<noteq> []" "sock_data s = b @ sock_data s'" "sock_ok s'"
      using sock_read_data [OF less.prems(1), of 4096] by (metis zero_less_numeral)
    have "read_body cl body s = read_body cl (body @ b) s'" using r(1,2) False by (simp add: read_body.simps [of cl body])
    moreover have "cl - length (body @ b) < cl - length body" using r(2) False by (cases b) auto
    ultimately show ?thesis using less.hyps [of "body @ b" s'] r(3,4) less.prems by simp
  qed
qed

text \<open>
  how a request is cut into TCP segments does not matter. Whatever the segments and
  whatever the socket does after them, a message whose head fits the cap and whose body
  is within its limit is read as the same request, bytes beyond the body are ignored.
\<close>

theorem admin_request_segmentation:
  assumes "sock_ok s" "sock_data s = msg" "head_complete parse msg n head" "0 < n" "n \<le> MAX_HEADER_BYTES"
    and cl: "cl = content_length (map header_text (hh_headers head))" "cl \<le> MAX_BODY_BYTES" "n + cl \<le> length msg"
  shows "fst (read_request parse s) =
    Ready (Inr \<lparr>rq_method = (case hh_method head of Some m \<Rightarrow> m | None \<Rightarrow> []),
                rq_path = (case hh_path head of Some p \<Rightarrow> p | None \<Rightarrow> []),
                rq_headers = map header_text (hh_headers head), rq_body = take cl (drop n msg)\<rparr>)"
proof -
  obtain buf s1 where h: "read_head parse [] s = (Ready (Inr (buf, n, head)), s1)" "buf @ sock_data s1 = msg"
      "n \<le> length buf" "sock_ok s1"
    using read_head_segments [OF assms(1), of "[]" msg parse n head] assms(2-5) by auto
  then have d: "drop n buf @ sock_data s1 = drop n msg" by auto
  have "cl \<le> length (drop n msg)" using cl(3) by simp
  then obtain body s2 where "read_body cl (drop n buf) s1 = (Ready (Inr body), s2)" "take cl body = take cl (drop n msg)"
    using read_body_segments [OF h(4) d, of cl] by blast
  then show ?thesis using h(1) cl(1,2) by (simp add: read_request_def Let_def)
qed


subsection \<open>A concrete API\<close>

definition demo_lib :: AdminLib where
  "demo_lib = \<lparr>al_parse = (\<lambda>bs. if length bs < 2 then Partial else Complete 2 \<lparr>hh_method = None, hh_path = None, hh_headers = []\<rparr>),
     al_b64_encode = (\<lambda>bs. []), al_b64_decode = demo_b64, al_base32 = to_str, al_blake3 = as_bytes,
     al_to_vec = (\<lambda>_. None), al_body_token = (\<lambda>b. Some (to_str b)), al_body_line = (\<lambda>b. Some (to_str b))\<rparr>"

definition demo_admin_env :: AdminEnv where
  "demo_admin_env = \<lparr>av_now = 5, av_unix = 5, av_raw = [98], av_write_ok = True, av_io_msg = [], av_version = []\<rparr>"

definition demo_api :: AdminApiState where
  "demo_api = admin_api_new demo_keys (registry_new (100, 200))
     \<lparr>at_state = Some \<lparr>ts_hash = [116], ts_expires_at = 10\<rparr>, at_hash_file = None\<rparr> [] 10 (metrics_new 0)"

definition demo_login :: Request where
  "demo_login = \<lparr>rq_method = ''POST'', rq_path = ''/admin/v1/session'', rq_headers = [], rq_body = [116]\<rparr>"

definition demo_delete :: Request where
  "demo_delete = \<lparr>rq_method = ''DELETE'', rq_path = ''/admin/v1/keys/A'', rq_headers = [], rq_body = []\<rparr>"

lemma demo_logged_in:
  "aa_sessions (serve_all demo_lib [(demo_admin_env, demo_login)] demo_api) = DAList.update [98] 15 DAList.empty"
  "aa_keys (serve_all demo_lib [(demo_admin_env, demo_login)] demo_api) = demo_keys"
  by (simp_all add: route_def is_session_route_def demo_login_def handle_session_def demo_lib_def demo_admin_env_def demo_api_def
      admin_api_new_def token_consume_def constant_time_eq_def constant_time_eq_public_def mint_session_def sessions_insert_def
      to_str_def as_bytes_def Let_def bump_def)

lemma demo_session_hit: "fst (sessions_check 6 [98] (DAList.update [98] 15 DAList.empty))"
  by (simp add: sessions_check_hit)

theorem admin_session_from_token_witness:
  "\<exists>h1 av' req h2. [(demo_admin_env, demo_login)] = h1 @ (av', req) # h2 \<and> av_now (demo_admin_env\<lparr>av_now := 6\<rparr>) < av_now av' + 10"
  using admin_session_from_token [of demo_lib "demo_admin_env\<lparr>av_now := 6\<rparr>" "''b''" "[(demo_admin_env, demo_login)]" demo_keys
      "registry_new (100, 200)" "\<lparr>at_state = Some \<lparr>ts_hash = [116], ts_expires_at = 10\<rparr>, at_hash_file = None\<rparr>" "[]" 10 "metrics_new 0",
      folded demo_api_def]
    demo_logged_in(1) demo_session_hit
  by (simp add: check_session_def demo_lib_def as_bytes_def split_beta)
     blast

theorem admin_routes_need_session_witness:
  "fst (fst (route demo_lib demo_admin_env demo_delete None demo_api)) = ''401 Unauthorized''"
  using admin_routes_need_session [of demo_delete demo_lib demo_admin_env None demo_api, OF _ surjective_pairing]
  by (simp add: is_session_route_def demo_delete_def)

theorem admin_delete_revokes_witness:
  "\<exists>body st'. route demo_lib demo_admin_env demo_delete (Some ''b'') (serve_all demo_lib [(demo_admin_env, demo_login)] demo_api) =
     ((''204 No Content'', body), st') \<and> keys_get (replicate 32 1) (aa_keys st') = None"
proof -
  define st where "st = serve_all demo_lib [(demo_admin_env, demo_login)] demo_api"
  note st = demo_logged_in [folded st_def]
  define st1 where "st1 = snd (check_session demo_lib demo_admin_env ''b'' st)"
  have st1: "aa_keys st1 = demo_keys" "check_session demo_lib demo_admin_env ''b'' st = (True, st1)"
    using st demo_session_hit
    by (simp_all add: check_session_def split_beta demo_lib_def as_bytes_def demo_admin_env_def sessions_check_hit st1_def)
  obtain keys where keys: "remove_pubkey demo_b64 True (replicate 32 1) demo_keys = (Inr True, keys)"
    using remove_pubkey_spec [OF demo_keys_parse(2) _ demo_keys_parse(1), of "replicate 32 1"]
    by (cases "remove_pubkey demo_b64 True (replicate 32 1) demo_keys") auto
  have al: "al_b64_decode demo_lib = demo_b64" "av_write_ok demo_admin_env" "demo_b64 ''A'' = Some (replicate 32 1)"
    by (simp_all add: demo_lib_def demo_admin_env_def demo_b64_def)
  have r: "route demo_lib demo_admin_env demo_delete (Some ''b'') st =
      ((''204 No Content'', []), bump admin_api_key_removed_update (st1\<lparr>aa_keys := keys\<rparr>))"
    using st1 keys
    by (simp add: route_def is_session_route_def demo_delete_def dispatch_route_def starts_with_def
        KEYS_PREFIX_def handle_delete_key_def al)
  have "kr_file (aa_keys st) = Some (''ed25519 A'' @ [CHR 0x0A] @ ''ed25519 BB conns=2'' @ [CHR 0x0A])"
    "parse_file (al_b64_decode demo_lib) (kr_file (aa_keys st)) =
      Inr [(replicate 32 1, default_entry), (replicate 32 2, default_entry\<lparr>ae_max_conns := Some 2\<rparr>)]"
    unfolding st(2) al(1) by (rule demo_keys_parse)+
  from admin_delete_revokes [OF this(1) _ this(2) al(2) r]
  have "keys_get (replicate 32 1) (aa_keys (bump admin_api_key_removed_update (st1\<lparr>aa_keys := keys\<rparr>))) = None"
    by (simp add: al demo_delete_def KEYS_PREFIX_def)
  with r show ?thesis unfolding st_def [symmetric] by blast
qed

theorem admin_request_segmentation_witness:
  "fst (read_request (al_parse demo_lib) \<lparr>sk_stream = \<lparr>sock_segments = [[1], [2, 3]], sock_fin = False\<rparr>, sk_error = None\<rparr>) =
    Ready (Inr \<lparr>rq_method = [], rq_path = [], rq_headers = [], rq_body = []\<rparr>)"
  using admin_request_segmentation [of "\<lparr>sk_stream = \<lparr>sock_segments = [[1], [2, 3]], sock_fin = False\<rparr>, sk_error = None\<rparr>"
      "[1, 2, 3]" "al_parse demo_lib" 2 "\<lparr>hh_method = None, hh_path = None, hh_headers = []\<rparr>" 0]
  by (simp add: sock_ok_def sock_data_def head_complete_def demo_lib_def MAX_HEADER_BYTES_def content_length_def)

end
