(* ===== verification/Sni.thy ===== *)
theory Sni
  imports Http_Text Admin
begin

text \<open>
  The ClientHello reader of the HTTPS router (\<^verbatim>\<open>krot-server/src/domain/sni.rs\<close>): the
  bounds-checked \<^verbatim>\<open>Reader\<close> with its buffer and position, the walk through the handshake
  message to the server name and the ALPN list, and \<^verbatim>\<open>peek_sni\<close>, which buffers exactly
  the first TLS record of a socket. \<^verbatim>\<open>str::to_lowercase\<close> on the name is a parameter (the
  Unicode case tables). The reference is a grammar of ClientHello messages.
\<close>

section \<open>Results\<close>

text \<open>The question mark operator.\<close>

definition and_then :: "('e, 'a) result \<Rightarrow> ('a \<Rightarrow> ('e, 'b) result) \<Rightarrow> ('e, 'b) result" where
  "and_then x f = (case x of Inl e \<Rightarrow> Inl e | Inr v \<Rightarrow> f v)"

lemma and_then_simps [simp]: "and_then (Inl e) f = Inl e" "and_then (Inr v) f = f v"
  by (simp_all add: and_then_def)

lemma and_then_cong [fundef_cong]: "x = y \<Longrightarrow> (\<And>v. y = Inr v \<Longrightarrow> f v = g v) \<Longrightarrow> and_then x f = and_then y g"
  by (auto simp: and_then_def split: sum.split)

lemma and_then_Inr: "and_then x f = Inr y \<longleftrightarrow> (\<exists>v. x = Inr v \<and> f v = Inr y)"
  by (auto simp: and_then_def split: sum.split)

section \<open>The reader\<close>

record Reader =
  rd_buf :: bytes
  rd_pos :: nat

definition reader_new :: "bytes \<Rightarrow> Reader" where
  "reader_new buf = \<lparr>rd_buf = buf, rd_pos = 0\<rparr>"

definition is_empty :: "Reader \<Rightarrow> bool" where
  "is_empty r \<longleftrightarrow> rd_pos r \<ge> length (rd_buf r)"

definition remaining :: "Reader \<Rightarrow> bytes" where
  "remaining r = drop (rd_pos r) (rd_buf r)"

definition ensure :: "nat \<Rightarrow> Reader \<Rightarrow> (ServerError, unit) result" where
  "ensure n r = (if length (rd_buf r) - rd_pos r < n then Inl (SE_Protocol ''truncated ClientHello field'') else Inr ())"

definition be16 :: "u8 \<Rightarrow> u8 \<Rightarrow> u16" where
  "be16 a b = or (push_bit 8 (ucast a)) (ucast b)"

definition take_u8 :: "Reader \<Rightarrow> (ServerError, u8 \<times> Reader) result" where
  "take_u8 r = and_then (ensure 1 r) (\<lambda>_. Inr (rd_buf r ! rd_pos r, r\<lparr>rd_pos := rd_pos r + 1\<rparr>))"

definition take_u16 :: "Reader \<Rightarrow> (ServerError, u16 \<times> Reader) result" where
  "take_u16 r = and_then (ensure 2 r) (\<lambda>_.
     Inr (be16 (rd_buf r ! rd_pos r) (rd_buf r ! (rd_pos r + 1)), r\<lparr>rd_pos := rd_pos r + 2\<rparr>))"

definition take_u24 :: "Reader \<Rightarrow> (ServerError, u32 \<times> Reader) result" where
  "take_u24 r = and_then (ensure 3 r) (\<lambda>_.
     Inr (or (or (push_bit 16 (ucast (rd_buf r ! rd_pos r))) (push_bit 8 (ucast (rd_buf r ! (rd_pos r + 1)))))
             (ucast (rd_buf r ! (rd_pos r + 2))),
          r\<lparr>rd_pos := rd_pos r + 3\<rparr>))"

definition skip :: "nat \<Rightarrow> Reader \<Rightarrow> (ServerError, Reader) result" where
  "skip n r = and_then (ensure n r) (\<lambda>_. Inr (r\<lparr>rd_pos := rd_pos r + n\<rparr>))"

definition take_sub :: "nat \<Rightarrow> Reader \<Rightarrow> (ServerError, Reader \<times> Reader) result" where
  "take_sub n r = and_then (ensure n r) (\<lambda>_.
     Inr (reader_new (take n (drop (rd_pos r) (rd_buf r))), r\<lparr>rd_pos := rd_pos r + n\<rparr>))"

lemma take_progress:
  "take_u8 r = Inr (v, r') \<Longrightarrow> rd_buf r' = rd_buf r \<and> rd_pos r < rd_pos r' \<and> rd_pos r' \<le> length (rd_buf r)"
  "take_u16 r = Inr (w, r') \<Longrightarrow> rd_buf r' = rd_buf r \<and> rd_pos r < rd_pos r' \<and> rd_pos r' \<le> length (rd_buf r)"
  "take_sub n r = Inr (s, r') \<Longrightarrow> rd_buf r' = rd_buf r \<and> rd_pos r \<le> rd_pos r'"
  by (auto simp: take_u8_def take_u16_def take_sub_def ensure_def split: if_splits)

section \<open>Parsing\<close>

function sni_names :: "(string \<Rightarrow> string) \<Rightarrow> Reader \<Rightarrow> (ServerError, string) result" where
  "sni_names lower list =
    (if is_empty list then Inl (SE_Protocol ''no host_name in SNI extension'')
     else and_then (take_u8 list) (\<lambda>(name_type, list).
          and_then (take_u16 list) (\<lambda>(name_len, list).
          and_then (take_sub (unat name_len) list) (\<lambda>(name_bytes, list).
            if name_type = 0
            then (case from_utf8 (remaining name_bytes) of
                    Some s \<Rightarrow> Inr (lower s)
                  | None \<Rightarrow> Inl (SE_Protocol ''non-utf8 SNI''))
            else sni_names lower list))))"
  by pat_completeness auto
termination
  by (relation "measure (\<lambda>(lower, r). length (rd_buf r) - rd_pos r)")
     (auto simp: is_empty_def dest!: take_progress)

declare sni_names.simps [simp del]

definition parse_sni_extension :: "(string \<Rightarrow> string) \<Rightarrow> bytes \<Rightarrow> (ServerError, string) result" where
  "parse_sni_extension lower data =
    and_then (take_u16 (reader_new data)) (\<lambda>(list_len, r).
    and_then (take_sub (unat list_len) r) (\<lambda>(list, r). sni_names lower list))"

function alpn_names :: "Reader \<Rightarrow> bytes list \<Rightarrow> (ServerError, bytes list) result" where
  "alpn_names list out =
    (if is_empty list then Inr out
     else and_then (take_u8 list) (\<lambda>(name_len, list).
          and_then (take_sub (unat name_len) list) (\<lambda>(name, list).
            alpn_names list (out @ [remaining name]))))"
  by pat_completeness auto
termination
  by (relation "measure (\<lambda>(r, out). length (rd_buf r) - rd_pos r)")
     (auto simp: is_empty_def dest!: take_progress)

declare alpn_names.simps [simp del]

definition parse_alpn_extension :: "bytes \<Rightarrow> (ServerError, bytes list) result" where
  "parse_alpn_extension data =
    and_then (take_u16 (reader_new data)) (\<lambda>(list_len, r).
    and_then (take_sub (unat list_len) r) (\<lambda>(list, r). alpn_names list []))"

function parse_exts ::
  "(string \<Rightarrow> string) \<Rightarrow> Reader \<Rightarrow> string option \<Rightarrow> bytes list \<Rightarrow> (ServerError, string \<times> bytes list) result" where
  "parse_exts lower exts server_name alpn =
    (if is_empty exts
     then (case server_name of
             None \<Rightarrow> Inl (SE_Protocol ''no SNI extension in ClientHello'')
           | Some s \<Rightarrow> Inr (s, alpn))
     else and_then (take_u16 exts) (\<lambda>(ext_type, exts).
          and_then (take_u16 exts) (\<lambda>(ext_data_len, exts).
          and_then (take_sub (unat ext_data_len) exts) (\<lambda>(ext_data, exts).
            if ext_type = 0
            then and_then (parse_sni_extension lower (remaining ext_data)) (\<lambda>s. parse_exts lower exts (Some s) alpn)
            else if ext_type = 0x10
            then and_then (parse_alpn_extension (remaining ext_data)) (\<lambda>a. parse_exts lower exts server_name a)
            else parse_exts lower exts server_name alpn))))"
  by pat_completeness auto
termination
  by (relation "measure (\<lambda>(lower, r, sn, al). length (rd_buf r) - rd_pos r)")
     (auto simp: is_empty_def dest!: take_progress)

declare parse_exts.simps [simp del]

definition parse_client_hello :: "(string \<Rightarrow> string) \<Rightarrow> bytes \<Rightarrow> (ServerError, string \<times> bytes list) result" where
  "parse_client_hello lower fragment =
    and_then (take_u8 (reader_new fragment)) (\<lambda>(msg_type, r).
    if msg_type \<noteq> 0x01 then Inl (SE_Protocol ''not a ClientHello'')
    else
    and_then (take_u24 r) (\<lambda>(hs_len, r).
    and_then (take_sub (unat hs_len) r) (\<lambda>(body, r).
    and_then (skip 2 body) (\<lambda>body.
    and_then (skip 32 body) (\<lambda>body.
    and_then (take_u8 body) (\<lambda>(sid_len, body).
    and_then (skip (unat sid_len) body) (\<lambda>body.
    and_then (take_u16 body) (\<lambda>(cs_len, body).
    and_then (skip (unat cs_len) body) (\<lambda>body.
    and_then (take_u8 body) (\<lambda>(cm_len, body).
    and_then (skip (unat cm_len) body) (\<lambda>body.
    and_then (take_u16 body) (\<lambda>(ext_len, body).
    and_then (take_sub (unat ext_len) body) (\<lambda>(exts, body).
    parse_exts lower exts None [])))))))))))))"

section \<open>Buffering the record\<close>

definition MAX_HELLO :: nat where "MAX_HELLO = 16 * 1024"

function read_at_least :: "bytes \<Rightarrow> nat \<Rightarrow> Sock \<Rightarrow> (ServerError, bytes) result Poll \<times> Sock" where
  "read_at_least buf needed s =
    (if needed \<le> length buf then (Ready (Inr buf), s)
     else case sock_read (needed - length buf) s of
       (Pending, s) \<Rightarrow> (Pending, s)
     | (Ready (Inl e), s) \<Rightarrow> (Ready (Inl SE_Io), s)
     | (Ready (Inr b), s) \<Rightarrow>
         if b = [] then (Ready (Inl (SE_Protocol ''eof while reading ClientHello'')), s)
         else read_at_least (buf @ b) needed s)"
  by pat_completeness auto
termination by (relation "measure (\<lambda>(buf, needed, s). needed - length buf)") (auto simp: neq_Nil_conv)

declare read_at_least.simps [simp del]

record SniPeek =
  sp_server_name :: string
  sp_alpn :: "bytes list"
  sp_buffered :: bytes

definition peek_sni :: "(string \<Rightarrow> string) \<Rightarrow> Sock \<Rightarrow> (ServerError, SniPeek) result Poll \<times> Sock" where
  "peek_sni lower s =
    (case read_at_least [] 5 s of
       (Pending, s) \<Rightarrow> (Pending, s)
     | (Ready (Inl e), s) \<Rightarrow> (Ready (Inl e), s)
     | (Ready (Inr buf), s) \<Rightarrow>
        if buf ! 0 \<noteq> 0x16 then (Ready (Inl (SE_Protocol ''not a TLS handshake record'')), s)
        else let record_len = unat (be16 (buf ! 3) (buf ! 4)) in
          if record_len = 0 \<or> record_len > MAX_HELLO
          then (Ready (Inl (SE_Protocol ''implausible TLS record length'')), s)
          else let needed = 5 + record_len in
            (case read_at_least buf needed s of
               (Pending, s) \<Rightarrow> (Pending, s)
             | (Ready (Inl e), s) \<Rightarrow> (Ready (Inl e), s)
             | (Ready (Inr buf), s) \<Rightarrow>
                (case parse_client_hello lower (take record_len (drop 5 buf)) of
                   Inl e \<Rightarrow> (Ready (Inl e), s)
                 | Inr (server_name, alpn) \<Rightarrow>
                    (Ready (Inr \<lparr>sp_server_name = server_name, sp_alpn = alpn, sp_buffered = buf\<rparr>), s))))"

section \<open>The reader on lists\<close>

text \<open>
  The reader never leaves its buffer: the position stays within it, so no index is out of
  range and the length that \<^verbatim>\<open>ensure\<close> computes does not underflow.
\<close>

definition reader_ok :: "Reader \<Rightarrow> bool" where
  "reader_ok r \<longleftrightarrow> rd_pos r \<le> length (rd_buf r)"

abbreviation truncated :: "(ServerError, 'a) result" where
  "truncated \<equiv> Inl (SE_Protocol ''truncated ClientHello field'')"

definition be24 :: "u8 \<Rightarrow> u8 \<Rightarrow> u8 \<Rightarrow> u32" where
  "be24 a b c = or (or (push_bit 16 (ucast a)) (push_bit 8 (ucast b))) (ucast c)"

lemma reader_new_ok [simp]: "reader_ok (reader_new b)" "remaining (reader_new b) = b"
  by (simp_all add: reader_ok_def reader_new_def remaining_def)

lemma is_empty_remaining: "is_empty r \<longleftrightarrow> remaining r = []"
  by (simp add: is_empty_def remaining_def)

lemma drop_Cons_nth: "drop n xs = y # ys \<Longrightarrow> xs ! n = y \<and> drop (Suc n) xs = ys"
  by (metis drop_Suc nth_via_drop tl_drop list.sel(3))

lemma sim_u8:
  assumes "reader_ok r" "\<And>v r'. reader_ok r' \<Longrightarrow> length (remaining r') < length (remaining r) \<Longrightarrow> f (v, r') = g v (remaining r')"
  shows "and_then (take_u8 r) f = (case remaining r of v # bs \<Rightarrow> g v bs | _ \<Rightarrow> truncated)"
proof (cases "remaining r")
  case Nil
  then show ?thesis by (auto simp: take_u8_def ensure_def remaining_def)
next
  case (Cons v bs)
  then have "length (rd_buf r) - rd_pos r = Suc (length bs)" by (metis remaining_def length_drop length_Cons)
  moreover have "rd_buf r ! rd_pos r = v" "remaining (r\<lparr>rd_pos := rd_pos r + 1\<rparr>) = bs"
    using Cons drop_Cons_nth [of "rd_pos r" "rd_buf r" v bs] by (simp_all add: remaining_def)
  ultimately show ?thesis using Cons assms(2) [of "r\<lparr>rd_pos := rd_pos r + 1\<rparr>"] by (simp add: take_u8_def ensure_def reader_ok_def)
qed

lemma sim_u16:
  assumes "reader_ok r" "\<And>v r'. reader_ok r' \<Longrightarrow> length (remaining r') < length (remaining r) \<Longrightarrow> f (v, r') = g v (remaining r')"
  shows "and_then (take_u16 r) f = (case remaining r of a # b # bs \<Rightarrow> g (be16 a b) bs | _ \<Rightarrow> truncated)"
proof (cases "\<exists>a b bs. remaining r = a # b # bs")
  case False
  then have "length (remaining r) < 2" by (cases "remaining r"; cases "tl (remaining r)") auto
  then have "length (rd_buf r) - rd_pos r < 2" by (simp add: remaining_def)
  then show ?thesis using False by (auto simp: take_u16_def ensure_def split: list.split)
next
  case True
  then obtain a b bs where r: "remaining r = a # b # bs" by blast
  then have "length (rd_buf r) - rd_pos r = Suc (Suc (length bs))" by (metis remaining_def length_drop length_Cons)
  moreover have "rd_buf r ! rd_pos r = a" "rd_buf r ! (rd_pos r + 1) = b" "remaining (r\<lparr>rd_pos := rd_pos r + 2\<rparr>) = bs"
    using r drop_Cons_nth [of "rd_pos r" "rd_buf r" a "b # bs"] drop_Cons_nth [of "Suc (rd_pos r)" "rd_buf r" b bs]
    by (simp_all add: remaining_def)
  ultimately show ?thesis
    using r assms(2) [of "r\<lparr>rd_pos := rd_pos r + 2\<rparr>"] by (simp add: take_u16_def ensure_def reader_ok_def)
qed

lemma sim_u24:
  assumes "reader_ok r" "\<And>v r'. reader_ok r' \<Longrightarrow> length (remaining r') < length (remaining r) \<Longrightarrow> f (v, r') = g v (remaining r')"
  shows "and_then (take_u24 r) f = (case remaining r of a # b # c # bs \<Rightarrow> g (be24 a b c) bs | _ \<Rightarrow> truncated)"
proof (cases "\<exists>a b c bs. remaining r = a # b # c # bs")
  case False
  then have "length (remaining r) < 3"
    by (cases "remaining r"; cases "tl (remaining r)"; cases "tl (tl (remaining r))") auto
  then have "length (rd_buf r) - rd_pos r < 3" by (simp add: remaining_def)
  then show ?thesis using False by (auto simp: take_u24_def ensure_def split: list.split)
next
  case True
  then obtain a b c bs where r: "remaining r = a # b # c # bs" by blast
  then have "length (rd_buf r) - rd_pos r = Suc (Suc (Suc (length bs)))" by (metis remaining_def length_drop length_Cons)
  moreover have "rd_buf r ! rd_pos r = a" "rd_buf r ! (rd_pos r + 1) = b" "rd_buf r ! (rd_pos r + 2) = c"
    "remaining (r\<lparr>rd_pos := rd_pos r + 3\<rparr>) = bs"
    using r drop_Cons_nth [of "rd_pos r" "rd_buf r" a "b # c # bs"] drop_Cons_nth [of "Suc (rd_pos r)" "rd_buf r" b "c # bs"]
      drop_Cons_nth [of "Suc (Suc (rd_pos r))" "rd_buf r" c bs]
    by (simp_all add: remaining_def numeral_eq_Suc)
  ultimately show ?thesis
    using r assms(2) [of "r\<lparr>rd_pos := rd_pos r + 3\<rparr>"] by (simp add: take_u24_def ensure_def reader_ok_def be24_def)
qed

lemma sim_skip:
  assumes "reader_ok r" "\<And>r'. reader_ok r' \<Longrightarrow> f r' = g (remaining r')"
  shows "and_then (skip n r) f = (if length (remaining r) < n then truncated else g (drop n (remaining r)))"
  using assms(1) assms(2) [of "r\<lparr>rd_pos := rd_pos r + n\<rparr>"]
  by (auto simp: skip_def ensure_def remaining_def reader_ok_def add.commute)

lemma sim_sub:
  assumes "reader_ok r" "\<And>b r'. reader_ok r' \<Longrightarrow> length (remaining r') \<le> length (remaining r) \<Longrightarrow> f (reader_new b, r') = g b (remaining r')"
  shows "and_then (take_sub n r) f =
    (if length (remaining r) < n then truncated else g (take n (remaining r)) (drop n (remaining r)))"
  using assms(1) assms(2) [of "r\<lparr>rd_pos := rd_pos r + n\<rparr>"]
  by (auto simp: take_sub_def ensure_def remaining_def reader_ok_def add.commute)

section \<open>The grammar of messages\<close>

definition len16 :: "nat \<Rightarrow> bytes" where "len16 n = [of_nat (n div 256), of_nat n]"

definition len24 :: "nat \<Rightarrow> bytes" where "len24 n = [of_nat (n div 65536), of_nat (n div 256), of_nat n]"

lemma or_shift: "(y :: nat) < 2 ^ k \<Longrightarrow> or (push_bit k x) y = x * 2 ^ k + y"
proof -
  assume y: "y < 2 ^ k"
  have "\<not> bit y n" if "k \<le> n" for n
    using y that by (metis bit_take_bit_iff take_bit_nat_eq_self not_less)
  then have "and (push_bit k x) y = 0"
    by (auto simp: bit_eq_iff bit_and_iff bit_push_bit_iff)
  then show ?thesis by (simp add: disjunctive_add_eq_or [symmetric] push_bit_eq_mult)
qed

lemma unat_u8: "unat (a :: u8) < 256"
  using unsigned_less [of a] by simp

lemma unat_be16: "unat (be16 a b) = unat a * 256 + unat b"
proof -
  have "push_bit 8 (unat a) < 2 ^ 16" using unat_u8 [of a] by (simp add: push_bit_eq_mult)
  then have "unat (be16 a b) = or (push_bit 8 (unat a)) (unat b)"
    using unat_u8 [of a] unat_u8 [of b]
    by (simp add: be16_def unsigned_or_eq unsigned_push_bit_eq unsigned_ucast_eq take_bit_nat_eq_self)
  then show ?thesis using or_shift [of "unat b" 8 "unat a"] unat_u8 [of b] by simp
qed

lemma unat_be24: "unat (be24 a b c) = unat a * 65536 + unat b * 256 + unat c"
proof -
  have "push_bit 8 (unat b) < 2 ^ 16" "push_bit 16 (unat a) < 2 ^ 32" "push_bit 8 (unat b) < 2 ^ 32"
    using unat_u8 [of a] unat_u8 [of b] by (simp_all add: push_bit_eq_mult)
  then have "unat (be24 a b c) = or (or (push_bit 16 (unat a)) (push_bit 8 (unat b))) (unat c)"
    using unat_u8 [of a] unat_u8 [of b] unat_u8 [of c]
    by (simp add: be24_def unsigned_or_eq unsigned_push_bit_eq unsigned_ucast_eq take_bit_nat_eq_self)
  also have "\<dots> = or (push_bit 16 (unat a)) (or (push_bit 8 (unat b)) (unat c))" by (simp add: or.assoc)
  also have "or (push_bit 8 (unat b)) (unat c) = unat b * 256 + unat c"
    using or_shift [of "unat c" 8 "unat b"] unat_u8 [of c] by simp
  also have "or (push_bit 16 (unat a)) (unat b * 256 + unat c) = unat a * 65536 + (unat b * 256 + unat c)"
    using or_shift [of "unat b * 256 + unat c" 16 "unat a"] unat_u8 [of b] unat_u8 [of c] by simp
  finally show ?thesis by simp
qed

lemma byte_wrap: "(256 :: u8) = 0" "(65536 :: u8) = 0"
  by (simp_all add: word_unat_eq_iff)

lemma len16_iff: "len16 n = [a, b] \<and> n < 65536 \<longleftrightarrow> n = unat (be16 a b)"
proof
  assume "n = unat (be16 a b)"
  then show "len16 n = [a, b] \<and> n < 65536"
    using unat_u8 [of a] unat_u8 [of b] by (simp add: unat_be16 len16_def byte_wrap)
next
  assume "len16 n = [a, b] \<and> n < 65536"
  then have "unat a = n div 256" "unat b = n mod 256"
    by (auto simp: len16_def unat_of_nat)
  then show "n = unat (be16 a b)" by (simp add: unat_be16)
qed

lemma len24_iff: "len24 n = [a, b, c] \<and> n < 16777216 \<longleftrightarrow> n = unat (be24 a b c)"
proof
  assume n: "n = unat (be24 a b c)"
  have "n div 65536 = unat a"  "n div 256 = unat a * 256 + unat b"
    using unat_u8 [of a] unat_u8 [of b] unat_u8 [of c] by (simp_all add: n unat_be24)
  then show "len24 n = [a, b, c] \<and> n < 16777216"
    using unat_u8 [of a] unat_u8 [of b] unat_u8 [of c] by (simp add: n unat_be24 len24_def byte_wrap)
next
  assume "len24 n = [a, b, c] \<and> n < 16777216"
  then have "unat a = n div 65536" "unat b = n div 256 mod 256" "unat c = n mod 256"
    by (auto simp: len24_def unat_of_nat)
  moreover have "n div 256 = n div 65536 * 256 + n div 256 mod 256"
    using div_mult_mod_eq [of "n div 256" 256] by (simp add: div_mult2_eq [symmetric])
  ultimately show "n = unat (be24 a b c)" using div_mult_mod_eq [of n 256] unfolding unat_be24 by linarith
qed

text \<open>A length-prefixed block.\<close>

definition vec8 :: "bytes \<Rightarrow> bytes" where "vec8 b = of_nat (length b) # b"

definition vec16 :: "bytes \<Rightarrow> bytes" where "vec16 b = len16 (length b) @ b"

definition split8 :: "bytes \<Rightarrow> (bytes \<times> bytes) option" where
  "split8 bs = (case bs of v # xs \<Rightarrow> if length xs < unat v then None else Some (take (unat v) xs, drop (unat v) xs) | _ \<Rightarrow> None)"

definition split16 :: "bytes \<Rightarrow> (bytes \<times> bytes) option" where
  "split16 bs =
    (case bs of a # b # xs \<Rightarrow> (let n = unat (be16 a b) in if length xs < n then None else Some (take n xs, drop n xs))
     | _ \<Rightarrow> None)"

lemma split8_iff: "split8 bs = Some (d, rest) \<longleftrightarrow> bs = vec8 d @ rest \<and> length d < 256"
proof
  assume "split8 bs = Some (d, rest)"
  then obtain v xs where "bs = v # xs" "unat v \<le> length xs" "d = take (unat v) xs" "rest = drop (unat v) xs"
    by (auto simp: split8_def split: list.splits if_splits)
  then show "bs = vec8 d @ rest \<and> length d < 256" using unat_u8 [of v] by (simp add: vec8_def)
qed (auto simp: split8_def vec8_def unat_of_nat)

lemma split16_iff: "split16 bs = Some (d, rest) \<longleftrightarrow> bs = vec16 d @ rest \<and> length d < 65536"
proof
  assume "split16 bs = Some (d, rest)"
  then obtain a b xs where s: "bs = a # b # xs" "unat (be16 a b) \<le> length xs" "d = take (unat (be16 a b)) xs"
      "rest = drop (unat (be16 a b)) xs"
    by (auto simp: split16_def Let_def split: list.splits if_splits)
  then show "bs = vec16 d @ rest \<and> length d < 65536" using len16_iff [of "unat (be16 a b)" a b] by (simp add: vec16_def)
next
  assume d: "bs = vec16 d @ rest \<and> length d < 65536"
  obtain a b where ab: "len16 (length d) = [a, b]" by (simp add: len16_def)
  then have "length d = unat (be16 a b)" using len16_iff [of "length d" a b] d by simp
  then show "split16 bs = Some (d, rest)" using d ab by (auto simp: split16_def vec16_def)
qed

interpretation vec8_codec: exact_codec vec8 split8 "\<lambda>d. length d < 256"
  by unfold_locales (auto simp: split8_iff vec8_def)

interpretation vec16_codec: exact_codec vec16 split16 "\<lambda>d. length d < 65536"
  by unfold_locales (auto simp: split16_iff vec16_def len16_def)

lemma sim_vec16:
  assumes ok: "reader_ok r"
    and sim: "\<And>b r'. reader_ok r' \<Longrightarrow> length (remaining r') < length (remaining r) \<Longrightarrow> f (reader_new b, r') = g b (remaining r')"
  shows "and_then (take_u16 r) (\<lambda>(n, r). and_then (take_sub (unat n) r) f) =
    (case split16 (remaining r) of None \<Rightarrow> truncated | Some (d, rest) \<Rightarrow> g d rest)"
proof -
  have "and_then (take_sub (unat n) r') f =
      (if length (remaining r') < unat n then truncated else g (take (unat n) (remaining r')) (drop (unat n) (remaining r')))"
    if "reader_ok r'" "length (remaining r') < length (remaining r)" for n :: u16 and r'
    using that sim by (intro sim_sub) auto
  then have "and_then (take_u16 r) (\<lambda>(n, r). and_then (take_sub (unat n) r) f) =
      (case remaining r of a # b # bs \<Rightarrow> if length bs < unat (be16 a b) then truncated else g (take (unat (be16 a b)) bs) (drop (unat (be16 a b)) bs) | _ \<Rightarrow> truncated)"
    by (subst sim_u16 [OF ok, where g = "\<lambda>n bs. if length bs < unat n then truncated else g (take (unat n) bs) (drop (unat n) bs)"])
       auto
  then show ?thesis by (auto simp: split16_def Let_def split: list.split)
qed

lemma sim_vec8:
  assumes ok: "reader_ok r"
    and sim: "\<And>b r'. reader_ok r' \<Longrightarrow> length (remaining r') < length (remaining r) \<Longrightarrow> f (reader_new b, r') = g b (remaining r')"
  shows "and_then (take_u8 r) (\<lambda>(n, r). and_then (take_sub (unat n) r) f) =
    (case split8 (remaining r) of None \<Rightarrow> truncated | Some (d, rest) \<Rightarrow> g d rest)"
proof -
  have "and_then (take_sub (unat n) r') f =
      (if length (remaining r') < unat n then truncated else g (take (unat n) (remaining r')) (drop (unat n) (remaining r')))"
    if "reader_ok r'" "length (remaining r') < length (remaining r)" for n :: u8 and r'
    using that sim by (intro sim_sub) auto
  then have "and_then (take_u8 r) (\<lambda>(n, r). and_then (take_sub (unat n) r) f) =
      (case remaining r of v # bs \<Rightarrow> if length bs < unat v then truncated else g (take (unat v) bs) (drop (unat v) bs) | _ \<Rightarrow> truncated)"
    by (subst sim_u8 [OF ok, where g = "\<lambda>n bs. if length bs < unat n then truncated else g (take (unat n) bs) (drop (unat n) bs)"])
       auto
  then show ?thesis by (auto simp: split8_def split: list.split)
qed

section \<open>The parser on lists\<close>

lemma split_shorter: "split8 bs = Some (d, rest) \<Longrightarrow> length rest < length bs" "split16 bs = Some (d, rest) \<Longrightarrow> length rest < length bs"
  by (auto simp: split8_iff split16_iff vec8_def vec16_def len16_def)

function names_of :: "(string \<Rightarrow> string) \<Rightarrow> bytes \<Rightarrow> (ServerError, string) result" where
  "names_of lower bs =
    (case bs of
       [] \<Rightarrow> Inl (SE_Protocol ''no host_name in SNI extension'')
     | t # bs \<Rightarrow>
        (case split16 bs of
           None \<Rightarrow> truncated
         | Some (nm, rest) \<Rightarrow>
            if t = 0 then (case from_utf8 nm of Some s \<Rightarrow> Inr (lower s) | None \<Rightarrow> Inl (SE_Protocol ''non-utf8 SNI''))
            else names_of lower rest))"
  by pat_completeness auto
termination by (relation "measure (\<lambda>(lower, bs). length bs)") (auto dest: split_shorter)

declare names_of.simps [simp del]

lemma sni_names_eq: "reader_ok r \<Longrightarrow> sni_names lower r = names_of lower (remaining r)"
proof (induction "length (remaining r)" arbitrary: r rule: less_induct)
  case less
  show ?case
  proof (cases "is_empty r")
    case True
    then show ?thesis by (simp add: sni_names.simps [of lower r] is_empty_remaining names_of.simps)
  next
    case False
    then obtain t bs where r: "remaining r = t # bs" by (cases "remaining r") (auto simp: is_empty_remaining)
    let ?last = "\<lambda>t nm rest. if t = 0 then (case from_utf8 nm of Some s \<Rightarrow> Inr (lower s) | None \<Rightarrow> Inl (SE_Protocol ''non-utf8 SNI''))
            else names_of lower rest"
    have "and_then (take_u16 r') (\<lambda>(n, r). and_then (take_sub (unat n) r) (\<lambda>(nm, r). if t = 0
            then (case from_utf8 (remaining nm) of Some s \<Rightarrow> Inr (lower s) | None \<Rightarrow> Inl (SE_Protocol ''non-utf8 SNI''))
            else sni_names lower r)) = (case split16 (remaining r') of None \<Rightarrow> truncated | Some (nm, rest) \<Rightarrow> ?last t nm rest)"
      if "reader_ok r'" "length (remaining r') < length (remaining r)" for r' t
      using that less.hyps by (intro sim_vec16) auto
    then have "sni_names lower r =
        (case remaining r of t # bs \<Rightarrow> (case split16 bs of None \<Rightarrow> truncated | Some (nm, rest) \<Rightarrow> ?last t nm rest) | _ \<Rightarrow> truncated)"
      using False unfolding sni_names.simps [of lower r]
      by (subst sim_u8 [OF less.prems, where g = "\<lambda>t bs. case split16 bs of None \<Rightarrow> truncated | Some (nm, rest) \<Rightarrow> ?last t nm rest"]) auto
    then show ?thesis using r by (simp add: names_of.simps [of lower "t # bs"])
  qed
qed

function protos_of :: "bytes \<Rightarrow> bytes list \<Rightarrow> (ServerError, bytes list) result" where
  "protos_of bs out =
    (if bs = [] then Inr out
     else case split8 bs of None \<Rightarrow> truncated | Some (nm, rest) \<Rightarrow> protos_of rest (out @ [nm]))"
  by pat_completeness auto
termination by (relation "measure (\<lambda>(bs, out). length bs)") (auto dest: split_shorter)

declare protos_of.simps [simp del]

lemma alpn_names_eq: "reader_ok r \<Longrightarrow> alpn_names r out = protos_of (remaining r) out"
proof (induction "length (remaining r)" arbitrary: r out rule: less_induct)
  case less
  show ?case
  proof (cases "is_empty r")
    case True
    then show ?thesis by (simp add: alpn_names.simps [of r] is_empty_remaining protos_of.simps)
  next
    case False
    have "and_then (take_u8 r) (\<lambda>(n, r). and_then (take_sub (unat n) r) (\<lambda>(nm, r). alpn_names r (out @ [remaining nm]))) =
        (case split8 (remaining r) of None \<Rightarrow> truncated | Some (nm, rest) \<Rightarrow> protos_of rest (out @ [nm]))"
      using less by (intro sim_vec8) auto
    then show ?thesis
      using False by (simp add: alpn_names.simps [of r] is_empty_remaining protos_of.simps [of "remaining r"])
  qed
qed

lemma parse_sni_extension_eq:
  "parse_sni_extension lower data = (case split16 data of None \<Rightarrow> truncated | Some (l, _) \<Rightarrow> names_of lower l)"
  unfolding parse_sni_extension_def
  by (subst sim_vec16 [where g = "\<lambda>l _. names_of lower l"]) (auto simp: sni_names_eq)

lemma parse_alpn_extension_eq:
  "parse_alpn_extension data = (case split16 data of None \<Rightarrow> truncated | Some (l, _) \<Rightarrow> protos_of l [])"
  unfolding parse_alpn_extension_def
  by (subst sim_vec16 [where g = "\<lambda>l _. protos_of l []"]) (auto simp: alpn_names_eq)

text \<open>What one extension does to the name and the protocols found so far.\<close>

definition apply_ext ::
  "(string \<Rightarrow> string) \<Rightarrow> u16 \<Rightarrow> bytes \<Rightarrow> string option \<times> bytes list \<Rightarrow> (ServerError, string option \<times> bytes list) result" where
  "apply_ext lower t d = (\<lambda>(sn, al).
     if t = 0 then and_then (parse_sni_extension lower d) (\<lambda>s. Inr (Some s, al))
     else if t = 0x10 then and_then (parse_alpn_extension d) (\<lambda>a. Inr (sn, a))
     else Inr (sn, al))"

definition conclude :: "string option \<times> bytes list \<Rightarrow> (ServerError, string \<times> bytes list) result" where
  "conclude = (\<lambda>(sn, al). case sn of None \<Rightarrow> Inl (SE_Protocol ''no SNI extension in ClientHello'') | Some s \<Rightarrow> Inr (s, al))"

function exts_of ::
  "(string \<Rightarrow> string) \<Rightarrow> bytes \<Rightarrow> string option \<times> bytes list \<Rightarrow> (ServerError, string \<times> bytes list) result" where
  "exts_of lower bs acc =
    (if bs = [] then conclude acc
     else case bs of
       a # b # bs \<Rightarrow>
         (case split16 bs of
            None \<Rightarrow> truncated
          | Some (d, rest) \<Rightarrow> and_then (apply_ext lower (be16 a b) d acc) (\<lambda>acc. exts_of lower rest acc))
     | _ \<Rightarrow> truncated)"
  by pat_completeness auto
termination by (relation "measure (\<lambda>(lower, bs, acc). length bs)") (auto dest: split_shorter)

declare exts_of.simps [simp del]

lemma parse_exts_eq: "reader_ok r \<Longrightarrow> parse_exts lower r sn al = exts_of lower (remaining r) (sn, al)"
proof (induction "length (remaining r)" arbitrary: r sn al rule: less_induct)
  case less
  let ?g = "\<lambda>t d rest. and_then (apply_ext lower t d (sn, al)) (\<lambda>acc. exts_of lower rest acc)"
  let ?f = "\<lambda>t (d, r). if t = 0 then and_then (parse_sni_extension lower (remaining d)) (\<lambda>s. parse_exts lower r (Some s) al)
            else if t = 0x10 then and_then (parse_alpn_extension (remaining d)) (\<lambda>a. parse_exts lower r sn a)
            else parse_exts lower r sn al"
  show ?case
  proof (cases "is_empty r")
    case True
    then show ?thesis by (simp add: parse_exts.simps [of lower r] is_empty_remaining exts_of.simps conclude_def)
  next
    case False
    have "and_then (take_u16 r') (\<lambda>(n, r). and_then (take_sub (unat n) r) (?f t)) =
        (case split16 (remaining r') of None \<Rightarrow> truncated | Some (d, rest) \<Rightarrow> ?g t d rest)"
      if "reader_ok r'" "length (remaining r') < length (remaining r)" for r' t
      using that less.hyps
      by (intro sim_vec16) (auto simp: apply_ext_def and_then_def split: sum.split)
    then have "parse_exts lower r sn al =
        (case remaining r of a # b # bs \<Rightarrow> (case split16 bs of None \<Rightarrow> truncated | Some (d, rest) \<Rightarrow> ?g (be16 a b) d rest)
         | _ \<Rightarrow> truncated)"
      using False unfolding parse_exts.simps [of lower r]
      by (subst sim_u16 [OF less.prems, where g = "\<lambda>t bs. case split16 bs of None \<Rightarrow> truncated | Some (d, rest) \<Rightarrow> ?g t d rest"]) auto
    then show ?thesis
      using False by (simp add: exts_of.simps [of lower "remaining r"] is_empty_remaining)
  qed
qed

lemma sim_skip8:
  assumes "reader_ok r" "\<And>r'. reader_ok r' \<Longrightarrow> f r' = g (remaining r')"
  shows "and_then (take_u8 r) (\<lambda>(n, r). and_then (skip (unat n) r) f) =
    (case split8 (remaining r) of None \<Rightarrow> truncated | Some (d, rest) \<Rightarrow> g rest)"
  using sim_skip [of _ f g, OF _ assms(2)]
  by (subst sim_u8 [OF assms(1), where g = "\<lambda>n bs. if length bs < unat n then truncated else g (drop (unat n) bs)"])
     (auto simp: split8_def split: list.split)

lemma sim_skip16:
  assumes "reader_ok r" "\<And>r'. reader_ok r' \<Longrightarrow> f r' = g (remaining r')"
  shows "and_then (take_u16 r) (\<lambda>(n, r). and_then (skip (unat n) r) f) =
    (case split16 (remaining r) of None \<Rightarrow> truncated | Some (d, rest) \<Rightarrow> g rest)"
  using sim_skip [of _ f g, OF _ assms(2)]
  by (subst sim_u16 [OF assms(1), where g = "\<lambda>n bs. if length bs < unat n then truncated else g (drop (unat n) bs)"])
     (auto simp: split16_def Let_def split: list.split)

definition opt_then :: "('a \<times> bytes) option \<Rightarrow> ('a \<Rightarrow> bytes \<Rightarrow> (ServerError, 'b) result) \<Rightarrow> (ServerError, 'b) result" where
  "opt_then x f = (case x of None \<Rightarrow> truncated | Some (d, rest) \<Rightarrow> f d rest)"

definition body_of :: "(string \<Rightarrow> string) \<Rightarrow> bytes \<Rightarrow> (ServerError, string \<times> bytes list) result" where
  "body_of lower bs =
    (if length bs < 2 then truncated else
     if length (drop 2 bs) < 32 then truncated else
     opt_then (split8 (drop 32 (drop 2 bs))) (\<lambda>_ bs.
     opt_then (split16 bs) (\<lambda>_ bs.
     opt_then (split8 bs) (\<lambda>_ bs.
     opt_then (split16 bs) (\<lambda>exts _. exts_of lower exts (None, []))))))"

definition hello_of :: "(string \<Rightarrow> string) \<Rightarrow> bytes \<Rightarrow> (ServerError, string \<times> bytes list) result" where
  "hello_of lower bs =
    (case bs of
       [] \<Rightarrow> truncated
     | t # bs \<Rightarrow>
        if t \<noteq> 1 then Inl (SE_Protocol ''not a ClientHello'')
        else case bs of
          a # b # c # bs \<Rightarrow>
            if length bs < unat (be24 a b c) then truncated else body_of lower (take (unat (be24 a b c)) bs)
        | _ \<Rightarrow> truncated)"

lemma parse_body_eq:
  assumes "reader_ok body"
  shows "and_then (skip 2 body) (\<lambda>body.
    and_then (skip 32 body) (\<lambda>body.
    and_then (take_u8 body) (\<lambda>(sid_len, body).
    and_then (skip (unat sid_len) body) (\<lambda>body.
    and_then (take_u16 body) (\<lambda>(cs_len, body).
    and_then (skip (unat cs_len) body) (\<lambda>body.
    and_then (take_u8 body) (\<lambda>(cm_len, body).
    and_then (skip (unat cm_len) body) (\<lambda>body.
    and_then (take_u16 body) (\<lambda>(ext_len, body).
    and_then (take_sub (unat ext_len) body) (\<lambda>(exts, body).
    parse_exts lower exts None [])))))))))) = body_of lower (remaining body)"
proof -
  define f4 where "f4 = (\<lambda>bs. opt_then (split16 bs) (\<lambda>exts _. exts_of lower exts (None, [])))"
  define f3 where "f3 = (\<lambda>bs. opt_then (split8 bs) (\<lambda>_. f4))"
  define f2 where "f2 = (\<lambda>bs. opt_then (split16 bs) (\<lambda>_. f3))"
  define f1 where "f1 = (\<lambda>bs. opt_then (split8 bs) (\<lambda>_. f2))"
  have s4: "and_then (take_u16 r) (\<lambda>(ext_len, body). and_then (take_sub (unat ext_len) body) (\<lambda>(exts, body). parse_exts lower exts None [])) =
      f4 (remaining r)" if "reader_ok r" for r
    unfolding f4_def opt_then_def using that by (intro sim_vec16) (auto simp: parse_exts_eq)
  have s3: "and_then (take_u8 r) (\<lambda>(cm_len, body). and_then (skip (unat cm_len) body) (\<lambda>body.
      and_then (take_u16 body) (\<lambda>(ext_len, body). and_then (take_sub (unat ext_len) body) (\<lambda>(exts, body). parse_exts lower exts None [])))) =
      f3 (remaining r)" if "reader_ok r" for r
    unfolding f3_def opt_then_def using that s4 by (intro sim_skip8) auto
  have s2: "and_then (take_u16 r) (\<lambda>(cs_len, body). and_then (skip (unat cs_len) body) (\<lambda>body.
      and_then (take_u8 body) (\<lambda>(cm_len, body). and_then (skip (unat cm_len) body) (\<lambda>body.
      and_then (take_u16 body) (\<lambda>(ext_len, body). and_then (take_sub (unat ext_len) body) (\<lambda>(exts, body). parse_exts lower exts None [])))))) =
      f2 (remaining r)" if "reader_ok r" for r
    unfolding f2_def opt_then_def using that s3 by (intro sim_skip16) auto
  have s1: "and_then (take_u8 r) (\<lambda>(sid_len, body). and_then (skip (unat sid_len) body) (\<lambda>body.
      and_then (take_u16 body) (\<lambda>(cs_len, body). and_then (skip (unat cs_len) body) (\<lambda>body.
      and_then (take_u8 body) (\<lambda>(cm_len, body). and_then (skip (unat cm_len) body) (\<lambda>body.
      and_then (take_u16 body) (\<lambda>(ext_len, body). and_then (take_sub (unat ext_len) body) (\<lambda>(exts, body). parse_exts lower exts None [])))))))) =
      f1 (remaining r)" if "reader_ok r" for r
    unfolding f1_def opt_then_def using that s2 by (intro sim_skip8) auto
  define f0 where "f0 = (\<lambda>bs. if length bs < 32 then truncated else f1 (drop 32 bs))"
  have s0: "and_then (skip 32 r) (\<lambda>body. and_then (take_u8 body) (\<lambda>(sid_len, body). and_then (skip (unat sid_len) body) (\<lambda>body.
      and_then (take_u16 body) (\<lambda>(cs_len, body). and_then (skip (unat cs_len) body) (\<lambda>body.
      and_then (take_u8 body) (\<lambda>(cm_len, body). and_then (skip (unat cm_len) body) (\<lambda>body.
      and_then (take_u16 body) (\<lambda>(ext_len, body). and_then (take_sub (unat ext_len) body) (\<lambda>(exts, body). parse_exts lower exts None []))))))))) =
      f0 (remaining r)" if "reader_ok r" for r
    unfolding f0_def using that s1 by (intro sim_skip) auto
  have "body_of lower (remaining body) = (if length (remaining body) < 2 then truncated else f0 (drop 2 (remaining body)))"
    by (simp add: body_of_def f0_def f1_def f2_def f3_def f4_def)
  then show ?thesis using assms s0 by (simp only:) (intro sim_skip, auto)
qed

lemma parse_client_hello_eq: "parse_client_hello lower fragment = hello_of lower fragment"
proof -
  let ?body = "\<lambda>body. and_then (skip 2 body) (\<lambda>body.
    and_then (skip 32 body) (\<lambda>body. and_then (take_u8 body) (\<lambda>(sid_len, body). and_then (skip (unat sid_len) body) (\<lambda>body.
      and_then (take_u16 body) (\<lambda>(cs_len, body). and_then (skip (unat cs_len) body) (\<lambda>body.
      and_then (take_u8 body) (\<lambda>(cm_len, body). and_then (skip (unat cm_len) body) (\<lambda>body.
      and_then (take_u16 body) (\<lambda>(ext_len, body). and_then (take_sub (unat ext_len) body) (\<lambda>(exts, body). parse_exts lower exts None []))))))))))"
  define f2 where "f2 = (\<lambda>bs. case bs of a # b # c # bs \<Rightarrow>
     if length bs < unat (be24 a b c) then truncated else body_of lower (take (unat (be24 a b c)) bs) | _ \<Rightarrow> truncated)"
  have s3: "and_then (take_sub n r) (\<lambda>(body, r). ?body body) =
      (if length (remaining r) < n then truncated else body_of lower (take n (remaining r)))" if "reader_ok r" for n r
    using that parse_body_eq by (intro sim_sub) auto
  have s2: "and_then (take_u24 r) (\<lambda>(hs_len, r). and_then (take_sub (unat hs_len) r) (\<lambda>(body, r). ?body body)) = f2 (remaining r)"
    if "reader_ok r" for r
    unfolding f2_def using that s3 by (intro sim_u24) auto
  have "parse_client_hello lower fragment =
      (case remaining (reader_new fragment) of
         t # bs \<Rightarrow> if t \<noteq> 1 then Inl (SE_Protocol ''not a ClientHello'') else f2 bs
       | _ \<Rightarrow> truncated)"
    unfolding parse_client_hello_def using s2 by (intro sim_u8) auto
  then show ?thesis by (simp add: hello_of_def f2_def split: list.split)
qed

section \<open>Grammar\<close>

definition name_entry :: "u8 \<times> bytes \<Rightarrow> bytes" where
  "name_entry e = fst e # vec16 (snd e)"

definition ext_bytes :: "u16 \<times> bytes \<Rightarrow> bytes" where
  "ext_bytes e = len16 (unat (fst e)) @ vec16 (snd e)"

record ClientHello =
  ch_version :: bytes
  ch_random :: bytes
  ch_session_id :: bytes
  ch_cipher_suites :: bytes
  ch_compression :: bytes
  ch_extensions :: "(u16 \<times> bytes) list"

definition hello_ok :: "ClientHello \<Rightarrow> bool" where
  "hello_ok h \<longleftrightarrow> length (ch_version h) = 2 \<and> length (ch_random h) = 32 \<and> length (ch_session_id h) < 256 \<and>
    length (ch_cipher_suites h) < 65536 \<and> length (ch_compression h) < 256 \<and>
    list_all (\<lambda>e. length (snd e) < 65536) (ch_extensions h) \<and> length (concat (map ext_bytes (ch_extensions h))) < 65536"

definition hello_body :: "ClientHello \<Rightarrow> bytes" where
  "hello_body h = ch_version h @ ch_random h @ vec8 (ch_session_id h) @ vec16 (ch_cipher_suites h) @ vec8 (ch_compression h) @
     vec16 (concat (map ext_bytes (ch_extensions h)))"

text \<open>The handshake message; the code reads on neither after the extensions nor after the message.\<close>

definition hello_bytes :: "ClientHello \<Rightarrow> bytes \<Rightarrow> bytes" where
  "hello_bytes h trail = 1 # len24 (length (hello_body h @ trail)) @ hello_body h @ trail"

fun fold_exts ::
  "(string \<Rightarrow> string) \<Rightarrow> (u16 \<times> bytes) list \<Rightarrow> string option \<times> bytes list \<Rightarrow> (ServerError, string \<times> bytes list) result" where
  "fold_exts lower [] acc = conclude acc"
| "fold_exts lower ((t, d) # es) acc = and_then (apply_ext lower t d acc) (\<lambda>acc. fold_exts lower es acc)"

definition name_split :: "bytes \<Rightarrow> ((u8 \<times> bytes) \<times> bytes) option" where
  "name_split bs =
    (case bs of [] \<Rightarrow> None | t # bs \<Rightarrow> (case split16 bs of None \<Rightarrow> None | Some (d, rest) \<Rightarrow> Some ((t, d), rest)))"

definition ext_split :: "bytes \<Rightarrow> ((u16 \<times> bytes) \<times> bytes) option" where
  "ext_split bs =
    (case bs of a # b # bs \<Rightarrow> (case split16 bs of None \<Rightarrow> None | Some (d, rest) \<Rightarrow> Some ((be16 a b, d), rest)) | _ \<Rightarrow> None)"

lemma name_split_iff: "name_split bs = Some (e, rest) \<longleftrightarrow> length (snd e) < 65536 \<and> bs = name_entry e @ rest"
proof (cases bs)
  case (Cons t xs)
  obtain t' d where e: "e = (t', d)" by (cases e)
  have "name_split bs = Some (e, rest) \<longleftrightarrow> t = t' \<and> split16 xs = Some (d, rest)"
    using Cons e by (auto simp: name_split_def split: option.split)
  then show ?thesis using Cons e by (auto simp: split16_iff name_entry_def)
qed (simp add: name_split_def name_entry_def)

lemma ext_split_iff: "ext_split bs = Some (e, rest) \<longleftrightarrow> length (snd e) < 65536 \<and> bs = ext_bytes e @ rest"
proof (cases "\<exists>a b xs. bs = a # b # xs")
  case False
  then show ?thesis by (auto simp: ext_split_def ext_bytes_def len16_def split: list.split)
next
  case True
  then obtain a b xs where bs: "bs = a # b # xs" by blast
  obtain t d where e: "e = (t, d)" by (cases e)
  have "be16 a b = t \<longleftrightarrow> [a, b] = len16 (unat t)"
    using len16_iff [of "unat t" a b] unsigned_less [of t] by (auto simp: word_unat_eq_iff)
  moreover have "ext_split bs = Some (e, rest) \<longleftrightarrow> be16 a b = t \<and> split16 xs = Some (d, rest)"
    using bs e by (auto simp: ext_split_def split: option.split)
  ultimately show ?thesis using bs e by (auto simp: split16_iff ext_bytes_def len16_def)
qed

interpretation name_codec: exact_codec name_entry name_split "\<lambda>e. length (snd e) < 65536"
  by unfold_locales (auto simp: name_split_iff name_entry_def)

interpretation ext_codec: exact_codec ext_bytes ext_split "\<lambda>e. length (snd e) < 65536"
  by unfold_locales (auto simp: ext_split_iff ext_bytes_def len16_def)

text \<open>The first entry of type 0, which has to be text.\<close>

fun first_host :: "(string \<Rightarrow> string) \<Rightarrow> (u8 \<times> bytes) list \<Rightarrow> string option" where
  "first_host lower [] = None"
| "first_host lower ((t, d) # es) =
    (if t = 0 then map_option lower (from_utf8 d) else first_host lower es)"

lemma names_of_complete:
  "(\<exists>es. bs = concat (map name_entry es) \<and> list_all (\<lambda>e. length (snd e) < 65536) es \<and> first_host lower es = Some s) \<Longrightarrow>
    names_of lower bs = Inr s"
proof (induction lower bs rule: names_of.induct)
  case (1 lower bs)
  let ?Q = "\<lambda>bs Q. \<exists>es. bs = concat (map name_entry es) \<and> list_all (\<lambda>e. length (snd e) < 65536) es \<and> Q es"
  from "1.prems" name_codec.items_step [of bs "\<lambda>es. first_host lower es = Some s"]
  obtain e rest where e: "name_split bs = Some (e, rest)" "?Q rest (\<lambda>es. first_host lower (e # es) = Some s)"
    by (auto simp del: first_host.simps(2) split: if_splits option.splits)
  then obtain t d xs where bs: "e = (t, d)" "bs = t # xs" "split16 xs = Some (d, rest)"
    by (auto simp: name_split_def split: list.splits option.splits)
  have eq: "names_of lower bs =
      (if t = 0 then (case from_utf8 d of Some s \<Rightarrow> Inr (lower s) | None \<Rightarrow> Inl (SE_Protocol ''non-utf8 SNI'')) else names_of lower rest)"
    unfolding names_of.simps [of lower bs] using bs by simp
  show ?case
  proof (cases "t = 0")
    case True
    then show ?thesis unfolding eq using bs(1) e(2) by auto
  next
    case False
    then have "?Q rest (\<lambda>es. first_host lower es = Some s)" using e(2) bs(1) by simp
    then show ?thesis using "1.IH" [OF bs(2) bs(3) refl False] False by (simp add: eq)
  qed
qed

lemma protos_of_iff:
  "protos_of bs out = Inr ps \<longleftrightarrow> (\<exists>ns. bs = concat (map vec8 ns) \<and> list_all (\<lambda>n. length n < 256) ns \<and> ps = out @ ns)"
proof (induction bs out rule: protos_of.induct)
  case (1 bs out)
  show ?case
    unfolding vec8_codec.items_step [of bs "\<lambda>ns. ps = out @ ns"]
    using 1 by (auto simp: protos_of.simps [of bs] split: option.split)
qed

lemma exts_of_iff:
  "exts_of lower bs acc = Inr r \<longleftrightarrow>
    (\<exists>es. bs = concat (map ext_bytes es) \<and> list_all (\<lambda>e. length (snd e) < 65536) es \<and> fold_exts lower es acc = Inr r)"
proof (induction lower bs acc rule: exts_of.induct)
  case (1 lower bs acc)
  show ?case
  proof (cases "ext_split bs")
    case None
    then show ?thesis
      unfolding ext_codec.items_step [of bs "\<lambda>es. fold_exts lower es acc = Inr r"]
      by (auto simp: exts_of.simps [of lower bs] ext_split_def split: list.splits option.splits)
  next
    case (Some p)
    then obtain a b xs d rest where bs: "bs = a # b # xs" "split16 xs = Some (d, rest)" "p = ((be16 a b, d), rest)"
      by (auto simp: ext_split_def split: list.splits option.splits)
    have "exts_of lower bs acc = and_then (apply_ext lower (be16 a b) d acc) (\<lambda>acc. exts_of lower rest acc)"
      unfolding exts_of.simps [of lower bs] using bs by simp
    moreover have "exts_of lower rest acc' = Inr r \<longleftrightarrow>
        (\<exists>es. rest = concat (map ext_bytes es) \<and> list_all (\<lambda>e. length (snd e) < 65536) es \<and> fold_exts lower es acc' = Inr r)"
      if "apply_ext lower (be16 a b) d acc = Inr acc'" for acc'
      using "1.IH" [OF _ bs(1) refl bs(2) refl that] bs(1) by blast
    ultimately show ?thesis
      unfolding ext_codec.items_step [of bs "\<lambda>es. fold_exts lower es acc = Inr r"]
      using bs(1) Some bs(3) by (auto simp: and_then_Inr)
  qed
qed

lemma opt_then_Inr: "opt_then x f = Inr y \<longleftrightarrow> (\<exists>d rest. x = Some (d, rest) \<and> f d rest = Inr y)"
  by (auto simp: opt_then_def split: option.split)

lemma body_of_iff:
  "body_of lower bs = Inr r \<longleftrightarrow>
    (\<exists>h trail. hello_ok h \<and> bs = hello_body h @ trail \<and> fold_exts lower (ch_extensions h) (None, []) = Inr r)"
proof
  assume "body_of lower bs = Inr r"
  then obtain sid cs cm exts b1 b2 b3 b4 where
      len: "2 \<le> length bs" "32 \<le> length (drop 2 bs)" and
      sp: "split8 (drop 32 (drop 2 bs)) = Some (sid, b1)" "split16 b1 = Some (cs, b2)" "split8 b2 = Some (cm, b3)"
        "split16 b3 = Some (exts, b4)" "exts_of lower exts (None, []) = Inr r"
    by (auto simp: body_of_def opt_then_Inr split: if_splits)
  then obtain es where es: "exts = concat (map ext_bytes es)" "list_all (\<lambda>e. length (snd e) < 65536) es"
      "fold_exts lower es (None, []) = Inr r"
    by (auto simp: exts_of_iff)
  let ?h = "\<lparr>ch_version = take 2 bs, ch_random = take 32 (drop 2 bs), ch_session_id = sid, ch_cipher_suites = cs,
    ch_compression = cm, ch_extensions = es\<rparr>"
  have "bs = take 2 bs @ take 32 (drop 2 bs) @ drop 32 (drop 2 bs)" by (metis append_take_drop_id)
  then have "bs = hello_body ?h @ b4"
    using sp(1-4) es(1) by (simp add: split8_iff split16_iff hello_body_def)
  moreover have "hello_ok ?h" using sp(1-4) es(1,2) len by (simp add: split8_iff split16_iff hello_ok_def)
  ultimately show "\<exists>h trail. hello_ok h \<and> bs = hello_body h @ trail \<and> fold_exts lower (ch_extensions h) (None, []) = Inr r"
    using es(3) by (intro exI [of _ ?h] exI [of _ b4]) simp
next
  assume "\<exists>h trail. hello_ok h \<and> bs = hello_body h @ trail \<and> fold_exts lower (ch_extensions h) (None, []) = Inr r"
  then obtain h trail where h: "hello_ok h" "bs = hello_body h @ trail" "fold_exts lower (ch_extensions h) (None, []) = Inr r"
    by blast
  have "exts_of lower (concat (map ext_bytes (ch_extensions h))) (None, []) = Inr r"
    using h by (auto simp: exts_of_iff hello_ok_def)
  then show "body_of lower bs = Inr r"
    using h by (simp add: body_of_def hello_body_def hello_ok_def opt_then_def vec8_codec.dec_enc vec16_codec.dec_enc)
qed

lemma client_hello_iff:
  "parse_client_hello lower fragment = Inr r \<longleftrightarrow>
    (\<exists>h trail rest. hello_ok h \<and> length (hello_body h @ trail) < 2 ^ 24 \<and> fragment = hello_bytes h trail @ rest \<and>
       fold_exts lower (ch_extensions h) (None, []) = Inr r)"
proof
  assume "parse_client_hello lower fragment = Inr r"
  then obtain a b c bs where f: "fragment = 1 # a # b # c # bs" "unat (be24 a b c) \<le> length bs"
      "body_of lower (take (unat (be24 a b c)) bs) = Inr r"
    by (auto simp: parse_client_hello_eq hello_of_def split: list.splits if_splits)
  then obtain h trail where h: "hello_ok h" "take (unat (be24 a b c)) bs = hello_body h @ trail"
      "fold_exts lower (ch_extensions h) (None, []) = Inr r"
    by (auto simp: body_of_iff)
  have n: "length (hello_body h @ trail) = unat (be24 a b c)" using arg_cong [OF h(2), of length] f(2) by simp
  then have "len24 (length (hello_body h @ trail)) = [a, b, c]" "length (hello_body h @ trail) < 2 ^ 24"
    using len24_iff [of "unat (be24 a b c)" a b c] by simp_all
  moreover have "bs = (hello_body h @ trail) @ drop (unat (be24 a b c)) bs" using h(2) by (metis append_take_drop_id)
  ultimately show "\<exists>h trail rest. hello_ok h \<and> length (hello_body h @ trail) < 2 ^ 24 \<and> fragment = hello_bytes h trail @ rest \<and>
       fold_exts lower (ch_extensions h) (None, []) = Inr r"
    using f(1) h(1,3)
    by (intro exI [of _ h] exI [of _ trail] exI [of _ "drop (unat (be24 a b c)) bs"]) (simp add: hello_bytes_def)
next
  assume "\<exists>h trail rest. hello_ok h \<and> length (hello_body h @ trail) < 2 ^ 24 \<and> fragment = hello_bytes h trail @ rest \<and>
       fold_exts lower (ch_extensions h) (None, []) = Inr r"
  then obtain h trail rest where h: "hello_ok h" "length (hello_body h @ trail) < 2 ^ 24" "fragment = hello_bytes h trail @ rest"
       "fold_exts lower (ch_extensions h) (None, []) = Inr r" by blast
  obtain a b c where abc: "len24 (length (hello_body h @ trail)) = [a, b, c]" by (simp add: len24_def)
  then have "length (hello_body h @ trail) = unat (be24 a b c)" using len24_iff [of "length (hello_body h @ trail)" a b c] h(2) by simp
  moreover have "body_of lower (hello_body h @ trail) = Inr r" using h(1,4) by (auto simp: body_of_iff)
  ultimately show "parse_client_hello lower fragment = Inr r"
    using h(3) abc by (simp add: parse_client_hello_eq hello_of_def hello_bytes_def)
qed

lemma fold_exts_skip:
  "list_all (\<lambda>e. fst e \<noteq> 0 \<and> fst e \<noteq> 0x10) es \<Longrightarrow> fold_exts lower (es @ es') acc = fold_exts lower es' acc"
  by (induction es) (auto simp: apply_ext_def split: prod.split)

lemma read_at_least_segments:
  assumes "sock_ok s" "needed \<le> length (buf @ sock_data s)" "length buf \<le> needed"
  shows "\<exists>s'. read_at_least buf needed s = (Ready (Inr (take needed (buf @ sock_data s))), s') \<and>
    sock_data s' = drop needed (buf @ sock_data s) \<and> sock_ok s' \<and> sk_error s' = sk_error s"
  using assms
proof (induction "needed - length buf" arbitrary: buf s rule: less_induct)
  case less
  show ?case
  proof (cases "needed \<le> length buf")
    case True
    then show ?thesis using less.prems by (simp add: read_at_least.simps [of buf])
  next
    case False
    then have "sock_data s \<noteq> []" using less.prems(2) by auto
    then obtain b s' where r: "sock_read (needed - length buf) s = (Ready (Inr b), s')" "b \<noteq> []" "sock_data s = b @ sock_data s'"
        "sock_ok s'" "length b \<le> needed - length buf" "sk_error s' = sk_error s"
      using sock_read_data [OF less.prems(1), of "needed - length buf"] False by (metis not_le zero_less_diff)
    have "read_at_least buf needed s = read_at_least (buf @ b) needed s'"
      using r(1,2) False by (simp add: read_at_least.simps [of buf])
    moreover have "needed - length (buf @ b) < needed - length buf" using r(2) False by (cases b) auto
    ultimately show ?thesis using less.hyps [of "buf @ b" s'] r less.prems False by simp
  qed
qed

definition tls_record :: "u8 \<Rightarrow> u8 \<Rightarrow> bytes \<Rightarrow> bytes" where
  "tls_record v1 v2 fragment = 0x16 # v1 # v2 # vec16 fragment"

section \<open>Properties\<close>


text \<open>
  the name and the protocols a client offers are found. For every ClientHello with one
  server-name and one ALPN extension, in any position among other extensions, the parser
  returns the first host name, lower-cased, and the protocols in order.
\<close>

theorem client_hello_found:
  assumes "hello_ok h" "length (hello_body h @ trail) < 2 ^ 24"
    and exts: "ch_extensions h = xs @ (0, vec16 (concat (map name_entry names))) # ys @ (0x10, vec16 (concat (map vec8 protos))) # zs"
    and others: "list_all (\<lambda>e. fst e \<noteq> 0 \<and> fst e \<noteq> 0x10) (xs @ ys @ zs)"
    and names: "list_all (\<lambda>e. length (snd e) < 65536) names" "length (concat (map name_entry names)) < 65536"
      "first_host lower names = Some s"
    and protos: "list_all (\<lambda>p. length p < 256) protos" "length (concat (map vec8 protos)) < 65536"
  shows "parse_client_hello lower (hello_bytes h trail @ rest) = Inr (s, protos)"
proof -
  have "names_of lower (concat (map name_entry names)) = Inr s" using names_of_complete names(1,3) by blast
  then have sni: "parse_sni_extension lower (vec16 (concat (map name_entry names))) = Inr s"
    using vec16_codec.dec_enc [of "concat (map name_entry names)" "[]"] names(2) by (simp add: parse_sni_extension_eq)
  have "protos_of (concat (map vec8 protos)) [] = Inr protos" using protos(1) by (auto simp: protos_of_iff)
  then have alpn: "parse_alpn_extension (vec16 (concat (map vec8 protos))) = Inr protos"
    using vec16_codec.dec_enc [of "concat (map vec8 protos)" "[]"] protos(2) by (simp add: parse_alpn_extension_eq)
  have zs: "fold_exts lower zs (Some s, protos) = Inr (s, protos)"
    using fold_exts_skip [of zs lower "[]"] others by (simp add: conclude_def)
  have "fold_exts lower (ch_extensions h) (None, []) = Inr (s, protos)"
    using others sni alpn zs by (simp add: exts fold_exts_skip apply_ext_def)
  then show ?thesis using assms(1,2) by (auto simp: client_hello_iff)
qed

text \<open>
  C25: peeking takes the first record and nothing else. However the bytes arrive, a
  handshake record of at most 16 KiB is buffered whole and exactly, the answer depends on
  the record alone, and the socket stands at the byte after it; so the buffered bytes
  followed by what the socket still has are the stream the client sent.
\<close>

theorem peek_sni_exact:
  assumes "sock_ok s" "sock_data s = tls_record v1 v2 fragment @ rest" "fragment \<noteq> []" "length fragment \<le> MAX_HELLO"
  shows "\<exists>s'. peek_sni lower s =
      (Ready (case parse_client_hello lower fragment of
                Inl e \<Rightarrow> Inl e
              | Inr (name, alpn) \<Rightarrow>
                  Inr \<lparr>sp_server_name = name, sp_alpn = alpn, sp_buffered = tls_record v1 v2 fragment\<rparr>), s') \<and>
    sock_data s' = rest \<and> sock_ok s' \<and> sk_error s' = sk_error s"
proof -
  obtain a b where ab: "len16 (length fragment) = [a, b]" by (simp add: len16_def)
  then have n: "length fragment = unat (be16 a b)"
    using len16_iff [of "length fragment" a b] assms(4) by (simp add: MAX_HELLO_def)
  define r5 where "r5 = [0x16, v1, v2, a, b]"
  have rec: "tls_record v1 v2 fragment = r5 @ fragment" by (simp add: tls_record_def vec16_def ab r5_def)
  then have d: "sock_data s = r5 @ fragment @ rest" "length r5 = 5" using assms(2) by (simp_all add: r5_def)
  obtain s1 where s1: "read_at_least [] 5 s = (Ready (Inr r5), s1)" "sock_data s1 = fragment @ rest" "sock_ok s1"
      "sk_error s1 = sk_error s"
    using read_at_least_segments [OF assms(1), of 5 "[]"] d by auto
  obtain s2 where s2: "read_at_least r5 (5 + length fragment) s1 = (Ready (Inr (r5 @ fragment)), s2)" "sock_data s2 = rest"
      "sock_ok s2" "sk_error s2 = sk_error s1"
    using read_at_least_segments [OF s1(3), of "5 + length fragment" r5] s1(2) d(2) by auto
  have "r5 ! 0 = 0x16" "unat (be16 (r5 ! 3) (r5 ! 4)) = length fragment" "drop 5 r5 = []"
    using n by (simp_all add: r5_def)
  then show ?thesis
    using s1(1,4) s2 assms(3,4) d(2) rec
    by (auto simp: peek_sni_def Let_def split: sum.split)
qed


definition demo_hello :: ClientHello where
  "demo_hello = \<lparr>ch_version = [3, 3], ch_random = replicate 32 0, ch_session_id = [], ch_cipher_suites = [], ch_compression = [],
     ch_extensions = [(0, vec16 (name_entry (0, [97]))), (0x10, vec16 (vec8 [104, 50]))]\<rparr>"

theorem client_hello_found_witness:
  "parse_client_hello (\<lambda>s. s) (hello_bytes demo_hello [] @ [9]) = Inr (''a'', [[104, 50]])"
  using client_hello_found [of demo_hello "[]" "[]" "[(0, [97])]" "[]" "[[104, 50]]" "[]" "\<lambda>s. s" "''a''" "[9]"]
  by (simp add: demo_hello_def hello_ok_def hello_body_def vec16_def vec8_def len16_def name_entry_def ext_bytes_def
      from_utf8_def utf8_valid.simps to_str_def char_of_def bit_0)

theorem peek_sni_exact_witness:
  "fst (peek_sni (\<lambda>s. s) \<lparr>sk_stream = \<lparr>sock_segments = [[0x16, 3], [1, 0, 1, 2, 7]], sock_fin = False\<rparr>, sk_error = None\<rparr>) =
    Ready (Inl (SE_Protocol ''not a ClientHello''))"
  using peek_sni_exact [of "\<lparr>sk_stream = \<lparr>sock_segments = [[0x16, 3], [1, 0, 1, 2, 7]], sock_fin = False\<rparr>, sk_error = None\<rparr>"
      3 1 "[2]" "[7]" "\<lambda>s. s"]
  by (auto simp: sock_ok_def sock_data_def tls_record_def vec16_def len16_def MAX_HELLO_def parse_client_hello_eq hello_of_def)

end
