(* ===== verification/Routing.thy ===== *)
theory Routing
  imports Session Sni
begin

text \<open>
  The public side of the server: the plain-HTTP router (\<^verbatim>\<open>domain/http.rs\<close>), the HTTPS
  router that passes TLS through by server name or hands a fallback client to the mux
  (\<^verbatim>\<open>domain/https.rs\<close>), the TCP tunnel's listener (\<^verbatim>\<open>tunnel.rs\<close>), and the challenge map
  they serve from (\<^verbatim>\<open>domain/acme.rs\<close>). A handler's outcome says what it wrote where
  before the metered copy takes over.
\<close>

section \<open>Writing to a data stream\<close>

text \<open>What the environment answers: the peer's address, the clock, \<^verbatim>\<open>open_bi\<close>, and how many writes succeed.\<close>

record RouteEnv =
  rv_peer :: "string option"
  rv_now :: u64
  rv_open :: "ConnRef \<Rightarrow> (string, unit) result"
  rv_writes :: nat
  rv_ser :: "InspectionPrelude \<Rightarrow> (string, bytes) result"
  rv_lower :: "string \<Rightarrow> string"

fun write_seq :: "nat \<Rightarrow> (string, bytes) result list \<Rightarrow> bytes \<Rightarrow> (string, bytes) result" where
  "write_seq n [] out = Inr out"
| "write_seq n (Inl e # cs) out = Inl e"
| "write_seq 0 (Inr b # cs) out = Inl ''write failed''"
| "write_seq (Suc n) (Inr b # cs) out = write_seq n cs (out @ b)"

definition prelude_frame :: "RouteEnv \<Rightarrow> string \<Rightarrow> HttpMetadata option \<Rightarrow> (string, bytes) result" where
  "prelude_frame env peer http =
    (case encode_frame (rv_ser env) \<lparr>ip_accept_unix_secs = rv_now env, ip_peer = peer, ip_http = http\<rparr> [] of
       Inl e \<Rightarrow> Inl ''framing''
     | Inr (n, buf) \<Rightarrow> Inr buf)"

definition open_data ::
  "RouteEnv \<Rightarrow> ConnRef \<Rightarrow> StreamKind \<Rightarrow> TunnelId \<Rightarrow> bool \<Rightarrow> string \<Rightarrow> HttpMetadata option \<Rightarrow> bytes list \<Rightarrow> (string, bytes) result" where
  "open_data env conn kind tid inspect peer http payload =
    (case rv_open env conn of
       Inl e \<Rightarrow> Inl e
     | Inr u \<Rightarrow>
        write_seq (rv_writes env)
          ([Inr (DataHeader_to_bytes \<lparr>dh_kind = kind, dh_tunnel_id = tid\<rparr>)] @
           (if inspect then [prelude_frame env peer http] else []) @ map Inr payload) [])"

record Forwarding =
  fw_connection :: ConnRef
  fw_tunnel_id :: TunnelId
  fw_rate :: RateRef
  fw_sent :: bytes

datatype RouteEnd =
    Waiting
  | RouteFailed string
  | Replied bytes
  | Ignored
  | Forwarded Forwarding
  | ToMux "TcpStream ReplayStream"

section \<open>Plain HTTP\<close>

type_synonym ChallengeStore = "string \<rightharpoonup> string"

definition lookup_challenge :: "ChallengeStore \<Rightarrow> string \<Rightarrow> string option" where
  "lookup_challenge store token = store token"

definition ACME_PATH_PREFIX :: string where "ACME_PATH_PREFIX = ''/.well-known/acme-challenge/''"

definition host_of :: "HttpHead \<Rightarrow> string" where
  "host_of head =
    (case find (\<lambda>h. eq_ignore_ascii_case (fst h) ''host'') (hh_headers head) of
       None \<Rightarrow> []
     | Some h \<Rightarrow> (case from_utf8 (snd h) of Some v \<Rightarrow> v | None \<Rightarrow> []))"

definition http_read_request ::
  "(bytes \<Rightarrow> HttpStatus) \<Rightarrow> Sock \<Rightarrow> (string, bytes \<times> string \<times> string) result Poll \<times> Sock" where
  "http_read_request parse s =
    (case read_head parse [] s of
       (Pending, s) \<Rightarrow> (Pending, s)
     | (Ready (Inl e), s) \<Rightarrow> (Ready (Inl e), s)
     | (Ready (Inr (buf, n, head)), s) \<Rightarrow>
        (Ready (Inr (buf, host_of head, case hh_path head of Some p \<Rightarrow> p | None \<Rightarrow> ''/'')), s))"

definition strip_apex :: "string \<Rightarrow> string \<Rightarrow> string option" where
  "strip_apex host apex =
    (let apex = to_ascii_lowercase apex
     in if host = apex then None else strip_suffix host (''.'' @ apex))"

definition http_extract_label :: "string \<Rightarrow> string \<Rightarrow> string option" where
  "http_extract_label host_header apex =
    strip_apex (to_ascii_lowercase (trim (hd (split_on CHR '':'' host_header)))) apex"

definition text_body :: "string \<Rightarrow> string \<Rightarrow> RouteEnd" where
  "text_body status body = Replied (http_response status ''text/plain'' (as_bytes body))"

definition http_handle ::
  "(bytes \<Rightarrow> HttpStatus) \<Rightarrow> string \<Rightarrow> TunnelRegistry \<Rightarrow> ChallengeStore \<Rightarrow> RouteEnv \<Rightarrow> Sock \<Rightarrow> RouteEnd \<times> Sock" where
  "http_handle parse apex registry challenges env s =
    (case http_read_request parse s of
       (Pending, s) \<Rightarrow> (Waiting, s)
     | (Ready (Inl e), s) \<Rightarrow> (RouteFailed e, s)
     | (Ready (Inr (buffered, host, path)), s) \<Rightarrow>
        (case strip_prefix path ACME_PATH_PREFIX of
           Some token \<Rightarrow>
             ((case lookup_challenge challenges token of
                 Some response \<Rightarrow> text_body ''200 OK'' response
               | None \<Rightarrow> text_body ''404 Not Found'' ''no such challenge''), s)
         | None \<Rightarrow>
            (case http_extract_label host apex of
               None \<Rightarrow> (text_body ''404 Not Found'' ''unknown host'', s)
             | Some label \<Rightarrow>
                (case resolve_label label registry of
                   None \<Rightarrow> (text_body ''404 Not Found'' ''unknown tunnel'', s)
                 | Some resolved \<Rightarrow>
                    (case open_data env (rt_connection resolved) DataHttp (rt_id resolved) (rt_inspect resolved)
                        (case rv_peer env of Some p \<Rightarrow> p | None \<Rightarrow> []) (Some \<lparr>hm_host = host, hm_sni = None\<rparr>) [buffered] of
                       Inl e \<Rightarrow> (RouteFailed e, s)
                     | Inr sent \<Rightarrow>
                        (Forwarded \<lparr>fw_connection = rt_connection resolved, fw_tunnel_id = rt_id resolved,
                           fw_rate = rt_rate resolved, fw_sent = sent\<rparr>, s))))))"

section \<open>HTTPS by server name\<close>

definition ALPN_TCP :: bytes where "ALPN_TCP = as_bytes ''krot-tcp/1''"

definition https_extract_label :: "string \<Rightarrow> string \<Rightarrow> string option" where
  "https_extract_label server_name apex = strip_apex (to_ascii_lowercase server_name) apex"

definition https_handle :: "string \<Rightarrow> TunnelRegistry \<Rightarrow> RouteEnv \<Rightarrow> Sock \<Rightarrow> RouteEnd \<times> Sock" where
  "https_handle apex registry env s =
    (case peek_sni (rv_lower env) s of
       (Pending, s) \<Rightarrow> (Waiting, s)
     | (Ready (Inl e), s) \<Rightarrow> (RouteFailed ''client hello'', s)
     | (Ready (Inr peeked), s) \<Rightarrow>
        if \<exists>a \<in> set (sp_alpn peeked). a = ALPN_TCP then (ToMux (ReplayStream_new (sp_buffered peeked) (sk_stream s)), s)
        else (case https_extract_label (sp_server_name peeked) apex of
           None \<Rightarrow> (Ignored, s)
         | Some label \<Rightarrow>
            (case resolve_label label registry of
               None \<Rightarrow> (Ignored, s)
             | Some resolved \<Rightarrow>
                (case open_data env (rt_connection resolved) DataHttp (rt_id resolved) (rt_inspect resolved)
                    (case rv_peer env of Some p \<Rightarrow> p | None \<Rightarrow> [])
                    (Some \<lparr>hm_host = sp_server_name peeked, hm_sni = Some (sp_server_name peeked)\<rparr>) [sp_buffered peeked] of
                   Inl e \<Rightarrow> (RouteFailed e, s)
                 | Inr sent \<Rightarrow>
                    (Forwarded \<lparr>fw_connection = rt_connection resolved, fw_tunnel_id = rt_id resolved,
                       fw_rate = rt_rate resolved, fw_sent = sent\<rparr>, s)))))"

section \<open>TCP tunnels\<close>

definition handle_incoming :: "RouteEnv \<Rightarrow> ListenerTask \<Rightarrow> string \<Rightarrow> RouteEnd" where
  "handle_incoming env t peer =
    (case open_data env (lt_connection t) DataTcp (lt_tunnel_id t) (lt_inspect t) peer None [] of
       Inl e \<Rightarrow> RouteFailed e
     | Inr sent \<Rightarrow>
        Forwarded \<lparr>fw_connection = lt_connection t, fw_tunnel_id = lt_tunnel_id t, fw_rate = lt_rate t, fw_sent = sent\<rparr>)"

datatype ListenEvent = Accepted RouteEnv string | AcceptFailed | ConnectionClosed

text \<open>The accept loop: the connections it served, and whether it has ended.\<close>

fun run_tcp_tunnel :: "ListenerTask \<Rightarrow> ListenEvent list \<Rightarrow> RouteEnd list \<times> bool" where
  "run_tcp_tunnel t [] = ([], False)"
| "run_tcp_tunnel t (Accepted env peer # es) =
    (let (served, ended) = run_tcp_tunnel t es in (handle_incoming env t peer # served, ended))"
| "run_tcp_tunnel t (AcceptFailed # es) = ([], True)"
| "run_tcp_tunnel t (ConnectionClosed # es) = ([], True)"

section \<open>Facts\<close>

lemma read_at_least_keeps:
  "read_at_least buf needed s = (Ready (Inr buf'), s') \<Longrightarrow> buf' @ sock_data s' = buf @ sock_data s"
proof (induction buf needed s rule: read_at_least.induct)
  case (1 buf needed s)
  show ?case
  proof (cases "needed \<le> length buf")
    case True
    then show ?thesis using "1.prems" by (simp add: read_at_least.simps [of buf])
  next
    case False
    then obtain b s1 where r: "sock_read (needed - length buf) s = (Ready (Inr b), s1)" "b \<noteq> []"
      using "1.prems" by (auto simp: read_at_least.simps [of buf] split: prod.splits Poll.splits sum.splits if_splits)
    then show ?thesis
      using "1.prems" False sock_read_keeps [OF r(1)] "1.IH" [OF False r(1) [symmetric] refl refl r(2)]
      by (simp add: read_at_least.simps [of buf])
  qed
qed

lemma peek_sni_keeps:
  "peek_sni lower s = (Ready (Inr peeked), s') \<Longrightarrow> sp_buffered peeked @ sock_data s' = sock_data s"
  by (auto simp: peek_sni_def Let_def split: prod.splits Poll.splits sum.splits if_splits dest!: read_at_least_keeps)

lemma resolve_label_owner:
  assumes "registry_inv r res" "resolve_label label r = Some t"
  shows "\<exists>info abort. tunnel r (rt_id t) = Some info \<and> ti_kind info = KHttp label \<and>
    ti_state info = Live (rt_connection t) abort \<and> rt_rate t = ti_rate info \<and> rt_inspect t = ti_inspect info"
  using assms
  by (auto simp: resolve_label_def registry_inv_def routes_ok_def tunnel_def split: option.splits TunnelState.splits)

text \<open>What the client finds on a data stream: the header, the prelude if there is one, the payload.\<close>

definition stream_layout :: "RouteEnv \<Rightarrow> StreamKind \<Rightarrow> TunnelId \<Rightarrow> bool \<Rightarrow> InspectionPrelude \<Rightarrow> bytes \<Rightarrow> bytes \<Rightarrow> bool" where
  "stream_layout env kind tid inspect prelude payload sent \<longleftrightarrow>
    (\<exists>rest. DataHeader_split sent = Some (\<lparr>dh_kind = kind, dh_tunnel_id = tid\<rparr>, rest) \<and>
      (if inspect then (\<exists>p. rv_ser env prelude = Inr p \<and> frame_split rest = Some (p, payload)) else rest = payload))"

lemma write_seq_Inr: "write_seq n cs out = Inr sent \<Longrightarrow> \<exists>bs. cs = map Inr bs \<and> sent = out @ concat bs"
proof (induction n cs out rule: write_seq.induct)
  case (4 n b cs out)
  then obtain bs where "cs = map Inr bs" "sent = (out @ b) @ concat bs" by auto
  then show ?case by (intro exI [of _ "b # bs"]) simp
qed auto

lemma open_data_layout:
  assumes "open_data env conn kind tid inspect peer http payload = Inr sent" "kind \<noteq> Control"
  shows "stream_layout env kind tid inspect \<lparr>ip_accept_unix_secs = rv_now env, ip_peer = peer, ip_http = http\<rparr> (concat payload) sent"
proof -
  let ?h = "\<lparr>dh_kind = kind, dh_tunnel_id = tid\<rparr>"
  let ?p = "\<lparr>ip_accept_unix_secs = rv_now env, ip_peer = peer, ip_http = http\<rparr>"
  let ?cs = "[Inr (DataHeader_to_bytes ?h)] @ (if inspect then [prelude_frame env peer http] else []) @ map Inr payload"
  have "write_seq (rv_writes env) ?cs [] = Inr sent" using assms(1) unfolding open_data_def by (cases "rv_open env conn") auto
  from write_seq_Inr [OF this] obtain bs where bs: "?cs = map Inr bs" "sent = concat bs" by (metis append_Nil)
  have split: "DataHeader_split (DataHeader_to_bytes ?h @ rest) = Some (?h, rest)" for rest
    using data_header_codec.dec_enc [of ?h rest] assms(2) by simp
  have inj: "(map Inr xs :: (string, bytes) result list) = map Inr ys \<Longrightarrow> xs = ys" for xs ys :: "bytes list"
    by (metis inj_Inr inj_map_eq_map)
  show ?thesis
  proof (cases inspect)
    case False
    then have "bs = DataHeader_to_bytes ?h # payload" using bs(1) inj [of "DataHeader_to_bytes ?h # payload" bs] by simp
    then show ?thesis using False bs(2) split by (simp add: stream_layout_def)
  next
    case True
    then have "Inr (DataHeader_to_bytes ?h) # prelude_frame env peer http # map Inr payload = map Inr bs"
      using bs(1) by simp
    then obtain f rest where "bs = DataHeader_to_bytes ?h # f # rest" "prelude_frame env peer http = Inr f"
        "(map Inr payload :: (string, bytes) result list) = map Inr rest"
      by (auto simp: Cons_eq_map_conv)
    then have f: "prelude_frame env peer http = Inr f" "bs = DataHeader_to_bytes ?h # f # payload" using inj by blast+
    then obtain p where p: "rv_ser env ?p = Inr p" "length p \<le> MAX_FRAME_SIZE" "f = frame_of_payload p"
      by (auto simp: prelude_frame_def encode_frame_eq split: sum.splits if_splits)
    have "frame_split (f @ concat payload) = Some (p, concat payload)" using p(2,3) frame_codec.dec_enc by simp
    then show ?thesis using True f(2) bs(2) split p(1) by (simp add: stream_layout_def)
  qed
qed

lemma http_forwarded:
  assumes inv: "registry_inv registry res" and run: "http_handle parse apex registry challenges env s = (Forwarded fw, s')"
  shows "\<exists>host label info abort buffered. http_extract_label host apex = Some label \<and>
    tunnel registry (fw_tunnel_id fw) = Some info \<and> ti_kind info = KHttp label \<and>
    ti_state info = Live (fw_connection fw) abort \<and> fw_rate fw = ti_rate info \<and>
    stream_layout env DataHttp (fw_tunnel_id fw) (ti_inspect info)
      \<lparr>ip_accept_unix_secs = rv_now env, ip_peer = (case rv_peer env of Some p \<Rightarrow> p | None \<Rightarrow> []),
       ip_http = Some \<lparr>hm_host = host, hm_sni = None\<rparr>\<rparr> buffered (fw_sent fw) \<and>
    buffered @ sock_data s' = sock_data s"
proof -
  obtain buffered n head where h: "read_head parse [] s = (Ready (Inr (buffered, n, head)), s')"
    using run by (auto simp: http_handle_def http_read_request_def text_body_def
        split: prod.splits Poll.splits sum.splits option.splits)
  obtain label t sent where l: "http_extract_label (host_of head) apex = Some label" "resolve_label label registry = Some t"
      "open_data env (rt_connection t) DataHttp (rt_id t) (rt_inspect t)
        (case rv_peer env of Some p \<Rightarrow> p | None \<Rightarrow> []) (Some \<lparr>hm_host = host_of head, hm_sni = None\<rparr>) [buffered] = Inr sent"
      "fw = \<lparr>fw_connection = rt_connection t, fw_tunnel_id = rt_id t, fw_rate = rt_rate t, fw_sent = sent\<rparr>"
    using run h by (auto simp: http_handle_def http_read_request_def text_body_def split: option.splits sum.splits)
  obtain info abort where i: "tunnel registry (rt_id t) = Some info" "ti_kind info = KHttp label"
      "ti_state info = Live (rt_connection t) abort" "rt_rate t = ti_rate info" "rt_inspect t = ti_inspect info"
    using resolve_label_owner [OF inv l(2)] by blast
  have "buffered @ sock_data s' = sock_data s" using read_head_keeps [OF h] by simp
  moreover have "stream_layout env DataHttp (rt_id t) (rt_inspect t)
      \<lparr>ip_accept_unix_secs = rv_now env, ip_peer = (case rv_peer env of Some p \<Rightarrow> p | None \<Rightarrow> []),
       ip_http = Some \<lparr>hm_host = host_of head, hm_sni = None\<rparr>\<rparr> buffered sent"
    using open_data_layout [OF l(3)] by simp
  ultimately show ?thesis
    using l(1,4) i
    by (intro exI [of _ "host_of head"] exI [of _ label] exI [of _ info] exI [of _ abort] exI [of _ buffered]) simp
qed

section \<open>Properties\<close>



lemma strip_apex_iff: "strip_apex host apex = Some l \<longleftrightarrow> host = l @ ''.'' @ to_ascii_lowercase apex"
proof
  assume "strip_apex host apex = Some l"
  then show "host = l @ ''.'' @ to_ascii_lowercase apex"
    by (auto simp: strip_apex_def strip_suffix_def ends_with_def Let_def split: if_splits) (metis append_take_drop_id)
qed (auto simp: strip_apex_def strip_suffix_def ends_with_def Let_def)

lemma label_char: "label_alnum c \<or> c = CHR ''-'' \<Longrightarrow> graphic c \<and> c \<noteq> CHR '':'' \<and> to_ascii_lower c = c"
  by (auto simp: label_alnum_def graphic_def to_ascii_lower_def is_ascii_lowercase_def is_ascii_uppercase_def is_ascii_digit_def
      less_eq_char_def)

lemma valid_label_chars:
  assumes "is_valid_label label"
  shows "label \<noteq> [] \<and> (\<forall>c \<in> set label. label_alnum c \<or> c = CHR ''-'')"
proof -
  have n: "label \<noteq> []" using assms by (auto simp: is_valid_label_def split: if_splits)
  have "label_alnum (label ! i) \<or> label ! i = CHR ''-''" if i: "i < length label" for i
  proof -
    consider "i = 0" | "i = length label - 1" | "0 < i" "i < length label - 1"
      using i by linarith
    then show ?thesis
    proof cases
      case 3
      then have "3 \<le> length label" by linarith
      then have "\<forall>c \<in> set (take (length label - 2) (drop 1 label)). label_alnum c \<or> c = CHR ''-''"
        using assms by (auto simp: is_valid_label_def list_all_iff split: if_splits)
      moreover have "label ! i \<in> set (take (length label - 2) (drop 1 label))"
        using 3 by (auto simp: in_set_conv_nth intro!: exI [of _ "i - 1"])
      ultimately show ?thesis by blast
    qed (use assms in \<open>auto simp: is_valid_label_def split: if_splits\<close>)
  qed
  then have "\<forall>c \<in> set label. label_alnum c \<or> c = CHR ''-''" by (metis in_set_conv_nth)
  with n show ?thesis by blast
qed

lemma public_host_label:
  assumes "is_valid_label label" "apex \<noteq> []" "list_all (\<lambda>c. graphic c \<and> c \<noteq> CHR '':'') apex" "port = [] \<or> hd port = CHR '':''"
  shows "\<exists>host. http_url label apex = ''https://'' @ host \<and> https_extract_label host apex = Some label \<and>
    http_extract_label (host @ port) apex = Some label"
proof -
  let ?host = "label @ ''.'' @ apex"
  note l = valid_label_chars [OF assms(1)]
  have low: "to_ascii_lowercase label = label"
    using l label_char by (auto simp: to_ascii_lowercase_def intro: map_idI)
  have lower: "to_ascii_lowercase ?host = label @ ''.'' @ to_ascii_lowercase apex"
    using low by (simp add: to_ascii_lowercase_def to_ascii_lower_def is_ascii_uppercase_def less_eq_char_def)
  have g: "\<forall>c \<in> set ?host. graphic c \<and> c \<noteq> CHR '':''"
    using l label_char assms(3) by (auto simp: list_all_iff graphic_def)
  have "hd (split_on CHR '':'' (?host @ port)) = ?host"
  proof (cases port)
    case Nil
    then show ?thesis using g split_on_no_sep [of "CHR '':''" ?host] by (metis append_Nil2 list.sel(1))
  next
    case (Cons c p)
    then show ?thesis using g assms(4) split_on_append [of "CHR '':''" ?host p] by (metis list.sel(1) list.discI)
  qed
  moreover have "trim ?host = ?host"
    using l assms(2,3) g by (intro trim_graphic) (auto simp: list_all_iff)
  ultimately show ?thesis
    using lower by (intro exI [of _ ?host]) (simp add: http_url_def https_extract_label_def http_extract_label_def strip_apex_iff)
qed

text \<open>
  the public address routes back. The host of the URL a client is given for a label
  is extracted to that label by both routers, with or without a port in the Host header.
\<close>

theorem label_of_public_host:
  assumes "is_valid_label label" "apex \<noteq> []" "list_all (\<lambda>c. graphic c \<and> c \<noteq> CHR '':'') apex" "port = [] \<or> hd port = CHR '':''"
  shows "\<exists>host. http_url label apex = ''https://'' @ host \<and> https_extract_label host apex = Some label \<and>
    http_extract_label (host @ port) apex = Some label"
  using assms by (rule public_host_label)

subsection \<open>A concrete visitor\<close>

definition demo_visit_prelude :: InspectionPrelude where
  "demo_visit_prelude = \<lparr>ip_accept_unix_secs = 9, ip_peer = [], ip_http = Some \<lparr>hm_host = ''demo.ex'', hm_sni = None\<rparr>\<rparr>"

definition demo_route_env :: RouteEnv where
  "demo_route_env = \<lparr>rv_peer = None, rv_now = 9, rv_open = (\<lambda>_. Inr ()), rv_writes = Suc (Suc (Suc 0)), 
     rv_ser = (\<lambda>p. if p = demo_visit_prelude then Inr [42] else Inl ''postcard''), rv_lower = (\<lambda>s. s)\<rparr>"

definition demo_visit :: "bytes \<Rightarrow> HttpStatus" where
  "demo_visit bs = (if length bs < 2 then Partial
     else Complete 2 \<lparr>hh_method = None, hh_path = None, hh_headers = [(''Host'', as_bytes ''demo.ex'')]\<rparr>)"

definition demo_sock :: Sock where
  "demo_sock = \<lparr>sk_stream = \<lparr>sock_segments = [[1, 2], [3]], sock_fin = True\<rparr>, sk_error = None\<rparr>"

lemma demo_forwarded:
  "http_handle demo_visit ''ex'' demo_registry (\<lambda>_. None) demo_route_env demo_sock =
    (Forwarded \<lparr>fw_connection = 5, fw_tunnel_id = 1, fw_rate = 0,
       fw_sent = DataHeader_to_bytes \<lparr>dh_kind = DataHttp, dh_tunnel_id = 1\<rparr> @ frame_of_payload [42] @ [1, 2]\<rparr>,
     demo_sock\<lparr>sk_stream := \<lparr>sock_segments = [[3]], sock_fin = True\<rparr>\<rparr>)"
proof -
  have v: "utf8_valid (as_bytes ''demo.ex'')"
    by (simp add: utf8_valid.simps as_bytes_def)
  have h: "host_of \<lparr>hh_method = None, hh_path = None, hh_headers = [(''Host'', as_bytes ''demo.ex'')]\<rparr> = ''demo.ex''"
    using v by (simp add: host_of_def from_utf8_def eq_ignore_ascii_case_def to_ascii_lowercase_def to_ascii_lower_def
        is_ascii_uppercase_def less_eq_char_def char_of_def bit_0)
  have l: "http_extract_label ''demo.ex'' ''ex'' = Some ''demo''"
    using public_host_label [of "''demo''" "''ex''" "[]"]
    by (auto simp: http_url_def is_valid_label_def label_alnum_def is_ascii_lowercase_def less_eq_char_def graphic_def)
  have r: "resolve_label ''demo'' demo_registry = Some \<lparr>rt_id = 1, rt_connection = 5, rt_rate = 0, rt_inspect = True\<rparr>"
    using demo_tunnel
    by (simp add: resolve_label_def demo_registry_def registry_insert_def demo_info_def allocate_http_def registry_new_def fresh_id_def
        tunnel_def)
  have q: "http_read_request demo_visit demo_sock =
      (Ready (Inr ([1, 2], ''demo.ex'', ''/'')), demo_sock\<lparr>sk_stream := \<lparr>sock_segments = [[3]], sock_fin = True\<rparr>\<rparr>)"
    by (simp add: http_read_request_def read_head.simps sock_read_def demo_sock_def demo_visit_def h)
  show ?thesis
    by (simp add: http_handle_def q l r strip_prefix_def ACME_PATH_PREFIX_def starts_with_def open_data_def prelude_frame_def
        demo_route_env_def demo_visit_prelude_def encode_frame_eq MAX_FRAME_SIZE_def)
qed



theorem label_of_public_host_witness:
  "\<exists>host. http_url ''demo'' ''ex.org'' = ''https://'' @ host \<and> http_extract_label (host @ '':8080'') ''ex.org'' = Some ''demo''"
  using label_of_public_host [of "''demo''" "''ex.org''" "'':8080''"]
  by (auto simp: is_valid_label_def label_alnum_def is_ascii_lowercase_def less_eq_char_def graphic_def)

end
