(* ===== verification/Login_Page.thy ===== *)
theory Login_Page
  imports Admin Http_Text
begin

text \<open>
  The login page of a published tunnel (\<^verbatim>\<open>krot-client/src/login_page.rs\<close>): the table of
  session tokens with its rolling lifetime, the cookie and form parsers, the redirect
  guard, the page and the responses. Times are milliseconds; an operation reads the clock
  once; the random bytes of a token are an argument. \<^verbatim>\<open>SessionStore\<close> implements the
  contract \<^verbatim>\<open>revocable_store\<close>.
\<close>

section \<open>Sessions\<close>

definition SESSION_TTL :: nat where "SESSION_TTL = 8 * 3600 * 1000"

definition SESSION_COOKIE :: string where "SESSION_COOKIE = ''__krot_session''"

definition LOGIN_PATH :: string where "LOGIN_PATH = ''/__krot/login''"

definition LOGOUT_PATH :: string where "LOGOUT_PATH = ''/__krot/logout''"

definition LOGIN_BODY_CAP :: nat where "LOGIN_BODY_CAP = 4 * 1024"

type_synonym SessionStore = "(string, nat) alist"

definition hex_char :: "u8 \<Rightarrow> char" where
  "hex_char nibble = char_of (unat (if nibble \<le> 9 then 48 + nibble else 97 + nibble - 10))"

definition new_token :: "bytes \<Rightarrow> string" where
  "new_token b = concat (map (\<lambda>byte. [hex_char (drop_bit 4 byte), hex_char (byte AND 0x0F)]) b)"

definition prune :: "nat \<Rightarrow> SessionStore \<Rightarrow> SessionStore" where
  "prune now sessions = DAList.filter (\<lambda>(_, exp). now < exp) sessions"

definition store_insert :: "nat \<Rightarrow> string \<Rightarrow> SessionStore \<Rightarrow> SessionStore" where
  "store_insert now token store = DAList.update token (now + SESSION_TTL) (prune now store)"

definition create :: "nat \<Rightarrow> bytes \<Rightarrow> SessionStore \<Rightarrow> string \<times> SessionStore" where
  "create now raw store = (let token = new_token raw in (token, store_insert now token store))"

definition validate_and_refresh :: "nat \<Rightarrow> string \<Rightarrow> SessionStore \<Rightarrow> bool \<times> SessionStore" where
  "validate_and_refresh now token store =
    (case DAList.lookup store token of
       Some exp \<Rightarrow>
         if now < exp then (True, DAList.update token (now + SESSION_TTL) store)
         else (False, DAList.delete token store)
     | None \<Rightarrow> (False, store))"

definition invalidate :: "string \<Rightarrow> SessionStore \<Rightarrow> SessionStore" where
  "invalidate token store = DAList.delete token store"

section \<open>Cookies and forms\<close>

fun find_map :: "('a \<Rightarrow> 'b option) \<Rightarrow> 'a list \<Rightarrow> 'b option" where
  "find_map f [] = None"
| "find_map f (x # xs) = (case f x of Some y \<Rightarrow> Some y | None \<Rightarrow> find_map f xs)"

definition extract_session_cookie :: "string \<Rightarrow> string option" where
  "extract_session_cookie cookie_header =
    find_map
      (\<lambda>pair. case strip_prefix (trim pair) SESSION_COOKIE of
          None \<Rightarrow> None
        | Some v \<Rightarrow> strip_prefix v ''='')
      (split_on CHR '';'' cookie_header)"

definition hex_val :: "u8 \<Rightarrow> u8 option" where
  "hex_val b =
    (if 0x30 \<le> b \<and> b \<le> 0x39 then Some (b - 0x30)
     else if 0x61 \<le> b \<and> b \<le> 0x66 then Some (b - 0x61 + 10)
     else if 0x41 \<le> b \<and> b \<le> 0x46 then Some (b - 0x41 + 10)
     else None)"

function form_bytes :: "bytes \<Rightarrow> bytes" where
  "form_bytes [] = []"
| "form_bytes (b # bs) =
    (if b = 0x2B then 0x20 # form_bytes bs
     else if b = 0x25 \<and> 2 \<le> length bs then
       (case (hex_val (bs ! 0), hex_val (bs ! 1)) of
          (Some h, Some l) \<Rightarrow> (push_bit 4 h OR l) # form_bytes (drop 2 bs)
        | _ \<Rightarrow> 0x25 # form_bytes bs)
     else b # form_bytes bs)"
  by pat_completeness auto
termination by (relation "measure length") auto

definition form_decode :: "string \<Rightarrow> string" where
  "form_decode raw = from_utf8_lossy (form_bytes (as_bytes raw))"

record LoginForm =
  lf_user :: "string option"
  lf_pass :: "string option"
  lf_next :: "string option"

definition form_pair :: "LoginForm \<Rightarrow> string \<Rightarrow> LoginForm" where
  "form_pair form pair =
    (case split_once CHR ''='' pair of
       None \<Rightarrow> form
     | Some (k, v) \<Rightarrow>
        let value = form_decode v
        in if k = ''user'' \<and> lf_user form = None then form\<lparr>lf_user := Some value\<rparr>
           else if k = ''pass'' \<and> lf_pass form = None then form\<lparr>lf_pass := Some value\<rparr>
           else if k = ''next'' \<and> lf_next form = None then form\<lparr>lf_next := Some value\<rparr>
           else form)"

definition parse_login_form :: "string \<Rightarrow> LoginForm" where
  "parse_login_form body =
    foldl form_pair \<lparr>lf_user = None, lf_pass = None, lf_next = None\<rparr> (split_on CHR ''&'' body)"

section \<open>The page\<close>

definition html_escape_char :: "char \<Rightarrow> string" where
  "html_escape_char c =
    (if c = CHR ''&'' then ''&amp;''
     else if c = CHR ''<'' then ''&lt;''
     else if c = CHR ''>'' then ''&gt;''
     else if c = CHR 0x22 then ''&quot;''
     else if c = CHR 0x27 then ''&#39;''
     else [c])"

definition html_escape :: "string \<Rightarrow> string" where
  "html_escape s = concat (map html_escape_char s)"

definition safe_next :: "string \<Rightarrow> string" where
  "safe_next candidate =
    (if starts_with candidate ''/'' \<and> \<not> starts_with candidate ''//'' \<and>
        CHR 0x0D \<notin> set candidate \<and> CHR 0x0A \<notin> set candidate
     then candidate else ''/'')"

text \<open>The four constant pieces of the page, between the form action, the error and the hidden field.\<close>

definition PAGE_HEAD :: string where
  \<open>PAGE_HEAD = join [CHR 0x0A]
    [''<!doctype html>'',
     ''<html lang="en">'',
     ''<head>'',
     ''<meta charset="utf-8">'',
     ''<meta name="viewport" content="width=device-width,initial-scale=1">'',
     ''<title>krot '' @ [CHR 0xC2, CHR 0xB7] @ '' sign in</title>'',
     ''<style>'',
     ''  :root { color-scheme: dark; }'',
     ''  * { box-sizing: border-box; }'',
     ''  html,body { height: 100%; margin: 0; }'',
     ''  body {'',
     ''    background: #1a1410;'',
     ''    color: #e8dcd0;'',
     ''    font: 15px/1.4 -apple-system, BlinkMacSystemFont, "Segoe UI", Inter, system-ui, sans-serif;'',
     ''    display: grid; place-items: center;'',
     ''  }'',
     ''  .card {'',
     ''    width: min(360px, 92vw);'',
     ''    background: #221913;'',
     ''    border: 1px solid #3a2a20;'',
     ''    border-radius: 14px;'',
     ''    padding: 32px 28px;'',
     ''    box-shadow: 0 12px 40px rgba(0,0,0,.35);'',
     ''  }'',
     ''  .brand { display: flex; align-items: center; gap: 12px; margin-bottom: 24px; }'',
     ''  .brand .mole { width: 48px; height: 48px; flex: 0 0 auto; }'',
     ''  .brand .word { display: flex; flex-direction: column; line-height: 1; }'',
     ''  .brand .word .name { font-size: 26px; font-weight: 800; letter-spacing: -0.5px; }'',
     ''  .brand .word .name em { font-style: normal; color: #e89a9a; }'',
     ''  .brand .word .trail { margin-top: 4px; width: 100%; height: 8px; display: block; }'',
     ''  .brand .word .tag { margin-top: 6px; font-size: 9px; letter-spacing: 3px; color: #8a7a6a; text-transform: uppercase; }'',
     ''  label { display: block; font-size: 12px; text-transform: uppercase; letter-spacing: 1px; color: #a89a8a; margin: 14px 0 6px; }'',
     ''  input[type=text], input[type=password] {'',
     ''    width: 100%; padding: 10px 12px;'',
     ''    background: #1a1410; color: #f5ece0;'',
     ''    border: 1px solid #3a2a20; border-radius: 8px;'',
     ''    font: inherit;'',
     ''  }'',
     ''  input:focus { outline: none; border-color: #e89a9a; }'',
     ''  button {'',
     ''    margin-top: 20px; width: 100%;'',
     ''    padding: 11px 14px; border: 0; border-radius: 8px;'',
     ''    background: #e89a9a; color: #2b1a14;'',
     ''    font-weight: 700; font-size: 15px; cursor: pointer;'',
     ''  }'',
     ''  button:hover { background: #f0b0b0; }'',
     ''  .err { margin: 14px 0 0; padding: 10px 12px; background: #3a1a1a; border: 1px solid #7a2a2a; border-radius: 8px; color: #f5b0b0; font-size: 13px; }'',
     ''  .foot { margin-top: 22px; text-align: center; font-size: 11px; color: #6a5a4a; }'',
     ''</style>'',
     ''</head>'',
     ''<body>'',
     ''  <form class="card" method="post" action="'']\<close>

definition PAGE_BRAND :: string where
  \<open>PAGE_BRAND = join [CHR 0x0A]
    [''">'',
     ''    <div class="brand">'',
     ''      <svg class="mole" viewBox="0 0 120 120" aria-hidden="true">'',
     ''        <ellipse cx="60" cy="70" rx="42" ry="34" fill="#5a3a28"/>'',
     ''        <circle cx="60" cy="50" r="30" fill="#6a4a34"/>'',
     ''        <path d="M42 46 h10 M68 46 h10" stroke="#2b1a12" stroke-width="3" stroke-linecap="round"/>'',
     ''        <path d="M55 62 L60 70 L65 62 Z" fill="#e89a9a"/>'',
     ''        <circle cx="60" cy="66" r="1.6" fill="#2b1a12"/>'',
     ''        <ellipse cx="34" cy="82" rx="10" ry="8" fill="#e89a9a"/>'',
     ''        <ellipse cx="86" cy="82" rx="10" ry="8" fill="#e89a9a"/>'',
     ''      </svg>'',
     ''      <div class="word">'',
     ''        <div class="name">kr<em>o</em>t</div>'',
     ''        <svg class="trail" viewBox="0 0 160 8" preserveAspectRatio="none" aria-hidden="true">'',
     ''          <path d="M2 4 Q 12 0, 22 4 T 42 4 T 62 4 T 82 4 T 102 4 T 122 4 T 142 4"'',
     ''                fill="none" stroke="#e89a9a" stroke-width="1.5" stroke-linecap="round"/>'',
     ''          <circle cx="30" cy="6" r="0.8" fill="#8a5a4a"/>'',
     ''          <circle cx="70" cy="6" r="0.8" fill="#8a5a4a"/>'',
     ''          <circle cx="110" cy="6" r="0.8" fill="#8a5a4a"/>'',
     ''          <circle cx="152" cy="4" r="2" fill="#2b1a12" stroke="#e89a9a" stroke-width="1"/>'',
     ''        </svg>'',
     ''        <div class="tag">tunnels that dig</div>'',
     ''      </div>'',
     ''    </div>'',
     ''    '']\<close>

definition PAGE_FIELDS :: string where
  \<open>PAGE_FIELDS = join [CHR 0x0A]
    [[],
     ''    <label for="u">Username</label>'',
     ''    <input id="u" name="user" type="text" autocomplete="username" autofocus required>'',
     ''    <label for="p">Password</label>'',
     ''    <input id="p" name="pass" type="password" autocomplete="current-password" required>'',
     ''    <input type="hidden" name="next" value="'']\<close>

definition PAGE_FOOT :: string where
  \<open>PAGE_FOOT = join [CHR 0x0A]
    [''">'',
     ''    <button type="submit">Sign in</button>'',
     ''    <div class="foot">protected by krot</div>'',
     ''  </form>'',
     ''</body>'',
     ''</html>'',
     []]\<close>

definition render_login_page :: "string \<Rightarrow> string option \<Rightarrow> string" where
  "render_login_page next error =
    (let next_esc = html_escape next;
         error_block = (case error of
             Some msg \<Rightarrow> ''<p class='' @ [CHR 0x22] @ ''err'' @ [CHR 0x22] @ ''>'' @ html_escape msg @ ''</p>''
           | None \<Rightarrow> [])
     in PAGE_HEAD @ LOGIN_PATH @ PAGE_BRAND @ error_block @ PAGE_FIELDS @ next_esc @ PAGE_FOOT)"

abbreviation crlf :: string where "crlf \<equiv> [CHR 0x0D, CHR 0x0A]"

definition http_html_response :: "string \<Rightarrow> bytes" where
  "http_html_response body =
    as_bytes (''HTTP/1.1 200 OK'' @ crlf @
      ''Content-Type: text/html; charset=utf-8'' @ crlf @
      ''Content-Length: '' @ show_nat (length body) @ crlf @
      ''Cache-Control: no-store'' @ crlf @
      ''Connection: close'' @ crlf @ crlf) @ as_bytes body"

definition http_redirect :: "string \<Rightarrow> string option \<Rightarrow> bytes" where
  "http_redirect location set_cookie =
    (let cookie_line = (case set_cookie of Some v \<Rightarrow> ''Set-Cookie: '' @ v @ crlf | None \<Rightarrow> [])
     in as_bytes (''HTTP/1.1 302 Found'' @ crlf @
          ''Location: '' @ location @ crlf @
          cookie_line @
          ''Content-Length: 0'' @ crlf @
          ''Cache-Control: no-store'' @ crlf @
          ''Connection: close'' @ crlf @ crlf))"

definition session_set_cookie :: "string \<Rightarrow> string" where
  "session_set_cookie token =
    SESSION_COOKIE @ ''='' @ token @ ''; HttpOnly; SameSite=Lax; Path=/; Max-Age='' @ show_nat (SESSION_TTL div 1000)"

definition session_clear_cookie :: string where
  "session_clear_cookie = SESSION_COOKIE @ ''=; HttpOnly; SameSite=Lax; Path=/; Max-Age=0''"

section \<open>The token table implements its contract\<close>

lemma lookup_delete_key:
  "DAList.lookup (DAList.delete k s) k' = (if k' = k then None else DAList.lookup s k')"
  by (simp add: lookup_delete)

interpretation login_sessions: revocable_store DAList.lookup DAList.empty store_insert validate_and_refresh SESSION_TTL invalidate
  by unfold_locales
     (auto simp: store_insert_def prune_def validate_and_refresh_def invalidate_def lookup_update lookup_delete_key lookup_live
       split: option.splits if_splits)


section \<open>Tokens and cookies\<close>

definition token_char :: "char \<Rightarrow> bool" where
  "token_char c \<longleftrightarrow> (of_char c :: nat) \<in> {48 .. 57} \<union> {97 .. 102}"

lemma nibble_cases:
  assumes "unat (n :: u8) < 16"
  shows "n \<in> {0, 1, 2, 3, 4, 5, 6, 7, 8, 9, 10, 11, 12, 13, 14, 15}"
  using assms by (simp add: word_unat_eq_iff, arith)

lemma nibble_bounds: "unat (drop_bit 4 (b :: u8)) < 16" "unat (b AND 0x0F) < 16"
proof -
  have "unat b < 256" using unsigned_less [of b, where 'a = nat] by simp
  then show "unat (drop_bit 4 b) < 16" by (simp add: drop_bit_eq_div unat_div)
  have "b AND 0x0F \<le> 0x0F" by (simp add: word_and_le1)
  then show "unat (b AND 0x0F) < 16" by (simp add: word_le_nat_alt)
qed

lemma nibbles_join: "push_bit 4 (drop_bit 4 b) OR (b AND 0x0F) = (b :: u8)"
proof -
  have m: "(0x0F :: u8) = mask 4" by (simp add: mask_eq_exp_minus_1)
  show ?thesis unfolding m by (intro bit_word_eqI) (auto simp: bit_simps)
qed

lemma hex_char_token:
  assumes "unat n < 16"
  shows "token_char (hex_char n)"
  using nibble_cases [OF assms] by (auto simp: hex_char_def token_char_def)

lemma hex_char_byte: "of_char (hex_char n) = (if n \<le> 9 then 48 + n else 97 + n - 10 :: u8)"
  unfolding hex_char_def byte_of_char by (simp only: of_nat_unat ucast_id)

lemma hex_char_val:
  assumes "unat n < 16"
  shows "hex_val (of_char (hex_char n)) = Some n"
  unfolding hex_char_byte using nibble_cases [OF assms] by (elim insertE emptyE) (simp_all add: hex_val_def)

lemma new_token_Nil [simp]: "new_token [] = []"
  by (simp add: new_token_def)

lemma new_token_Cons [simp]: "new_token (b # bs) = hex_char (drop_bit 4 b) # hex_char (b AND 0x0F) # new_token bs"
  by (simp add: new_token_def)

lemma new_token_chars: "list_all token_char (new_token raw)"
  by (induction raw) (simp_all add: hex_char_token nibble_bounds)

lemma new_token_length: "length (new_token raw) = 2 * length raw"
  by (induction raw) simp_all

lemma hex_char_inj: "hex_char a = hex_char b \<Longrightarrow> unat a < 16 \<Longrightarrow> unat b < 16 \<Longrightarrow> a = b"
  using hex_char_val by (metis option.inject)

lemma new_token_inj: "new_token raw = new_token raw' \<Longrightarrow> raw = raw'"
proof (induction raw arbitrary: raw')
  case Nil
  then show ?case by (cases raw') simp_all
next
  case (Cons b raw)
  then obtain b' bs' where r: "raw' = b' # bs'" by (cases raw') simp_all
  have "drop_bit 4 b = drop_bit 4 b'" "b AND 0x0F = b' AND 0x0F"
    using Cons.prems r hex_char_inj nibble_bounds by simp_all
  then have "b = b'" by (metis nibbles_join)
  then show ?case using Cons r by simp
qed

lemma token_char_graphic: "token_char c \<Longrightarrow> graphic c \<and> c \<noteq> CHR '';''"
  by (auto simp: token_char_def graphic_def)

text \<open>A cookie header as a browser sends it, the pairs joined by a semicolon and a space.\<close>

definition cookie_pair :: "string \<Rightarrow> string" where
  "cookie_pair token = SESSION_COOKIE @ ''='' @ token"

definition other_cookie :: "string \<Rightarrow> bool" where
  "other_cookie c \<longleftrightarrow> c \<noteq> [] \<and> graphic (hd c) \<and> CHR '';'' \<notin> set c \<and> \<not> starts_with (trim c) (SESSION_COOKIE @ ''='')"

lemma trim_leading_space:
  assumes "s \<noteq> []" "graphic (hd s)"
  shows "trim (CHR '' '' # s) = trim s"
proof -
  obtain c cs where s: "s = c # cs" using assms(1) by (cases s) auto
  then have "strip_seqs ws_seqs s = s" using assms(2) by (subst strip_seqs.simps) (simp add: ws_len_graphic)
  moreover have "strip_seqs ws_seqs (CHR '' '' # s) = strip_seqs ws_seqs s"
    by (subst strip_seqs.simps) (simp add: ws_len_space)
  ultimately show ?thesis by (simp add: trim_def trim_start_def)
qed

lemma split_on_cookies:
  "CHR '';'' \<notin> set x \<Longrightarrow> \<forall>y \<in> set ys. CHR '';'' \<notin> set y \<Longrightarrow>
    split_on CHR '';'' (join ''; '' (x # ys)) = x # map (\<lambda>y. CHR '' '' # y) ys"
proof (induction ys arbitrary: x)
  case (Cons y ys)
  have "split_on CHR '';'' (CHR '' '' # join ''; '' (y # ys)) = (CHR '' '' # y) # map (\<lambda>y. CHR '' '' # y) ys"
    using Cons.IH [of y] Cons.prems by simp
  then show ?case using Cons.prems split_on_append [of "CHR '';''" x "CHR '' '' # join ''; '' (y # ys)"] by simp
qed (simp add: split_on_no_sep)

lemma trim_pair:
  assumes "list_all token_char tok"
  shows "trim (cookie_pair tok) = cookie_pair tok" "trim (CHR '' '' # cookie_pair tok) = cookie_pair tok"
    "CHR '';'' \<notin> set (cookie_pair tok)"
proof -
  have g: "graphic (hd (cookie_pair tok))" by (simp add: cookie_pair_def SESSION_COOKIE_def graphic_def)
  have "graphic (last (cookie_pair tok))"
  proof (cases "tok = []")
    case False
    then have "token_char (last tok)" using assms by (simp add: list_all_iff)
    then show ?thesis using False token_char_graphic by (simp add: cookie_pair_def)
  qed (simp add: cookie_pair_def SESSION_COOKIE_def graphic_def)
  then show t: "trim (cookie_pair tok) = cookie_pair tok"
    using g by (intro trim_graphic) (simp_all add: cookie_pair_def SESSION_COOKIE_def)
  show "trim (CHR '' '' # cookie_pair tok) = cookie_pair tok"
    using trim_leading_space [of "cookie_pair tok"] g t by (simp add: cookie_pair_def SESSION_COOKIE_def)
  show "CHR '';'' \<notin> set (cookie_pair tok)"
    using assms token_char_graphic by (auto simp: cookie_pair_def SESSION_COOKIE_def list_all_iff)
qed

definition session_value :: "string \<Rightarrow> string option" where
  "session_value pair = (case strip_prefix (trim pair) SESSION_COOKIE of None \<Rightarrow> None | Some v \<Rightarrow> strip_prefix v ''='')"

lemma starts_with_iff: "starts_with s p \<longleftrightarrow> (\<exists>r. s = p @ r)"
  unfolding starts_with_def by (metis append_eq_conv_conj append_take_drop_id)

lemma session_value_None: "session_value c = None \<longleftrightarrow> \<not> starts_with (trim c) (SESSION_COOKIE @ ''='')"
  by (auto simp: session_value_def strip_prefix_def starts_with_iff)

lemma extract_as_value: "extract_session_cookie h = find_map session_value (split_on CHR '';'' h)"
  by (simp add: extract_session_cookie_def session_value_def [abs_def])

lemma session_value_pair:
  "trim c = cookie_pair tok \<Longrightarrow> session_value c = Some tok"
  by (simp add: session_value_def strip_prefix_def starts_with_def cookie_pair_def)

lemma find_map_append: "find_map f (xs @ ys) = (case find_map f xs of None \<Rightarrow> find_map f ys | r \<Rightarrow> r)"
  by (induction xs) (auto split: option.split)

lemma find_map_None: "find_map f xs = None \<longleftrightarrow> (\<forall>x \<in> set xs. f x = None)"
  by (induction xs) (auto split: option.split)

lemma extract_among:
  assumes "\<forall>c \<in> set pre. other_cookie c" "\<forall>c \<in> set post. CHR '';'' \<notin> set c" "list_all token_char tok"
  shows "extract_session_cookie (join ''; '' (pre @ cookie_pair tok # post)) = Some tok"
proof -
  have other: "session_value c = None" "session_value (CHR '' '' # c) = None" if "other_cookie c" for c
    using that trim_leading_space [of c] by (auto simp: session_value_None other_cookie_def)
  have tok: "session_value (cookie_pair tok) = Some tok" "session_value (CHR '' '' # cookie_pair tok) = Some tok"
    using trim_pair [OF assms(3)] session_value_pair by blast+
  show ?thesis
  proof (cases pre)
    case Nil
    then show ?thesis
      using split_on_cookies [of "cookie_pair tok" post] trim_pair(3) [OF assms(3)] assms(2) tok(1)
      by (simp add: extract_as_value)
  next
    case (Cons p ps)
    then have "split_on CHR '';'' (join ''; '' (pre @ cookie_pair tok # post)) =
        p # map (\<lambda>c. CHR '' '' # c) ps @ (CHR '' '' # cookie_pair tok) # map (\<lambda>c. CHR '' '' # c) post"
      using split_on_cookies [of p "ps @ cookie_pair tok # post"] trim_pair(3) [OF assms(3)] assms(1,2)
      by (auto simp: other_cookie_def)
    moreover have "find_map session_value (map (\<lambda>c. CHR '' '' # c) ps) = None"
      using Cons assms(1) other(2) by (auto simp: find_map_None)
    ultimately show ?thesis using Cons assms(1) other(1) tok(2) by (simp add: extract_as_value find_map_append)
  qed
qed

section \<open>Escaping\<close>

text \<open>What a browser makes of the five character references.\<close>

function html_unescape :: "string \<Rightarrow> string" where
  "html_unescape [] = []"
| "html_unescape (c # s) =
    (if starts_with (c # s) ''&amp;'' then CHR ''&'' # html_unescape (drop 5 (c # s))
     else if starts_with (c # s) ''&lt;'' then CHR ''<'' # html_unescape (drop 4 (c # s))
     else if starts_with (c # s) ''&gt;'' then CHR ''>'' # html_unescape (drop 4 (c # s))
     else if starts_with (c # s) ''&quot;'' then CHR 0x22 # html_unescape (drop 6 (c # s))
     else if starts_with (c # s) ''&#39;'' then CHR 0x27 # html_unescape (drop 5 (c # s))
     else c # html_unescape s)"
  by pat_completeness auto
termination by (relation "measure length") auto

lemma html_unescape_char: "html_unescape (html_escape_char c @ s) = c # html_unescape s"
  by (simp add: html_escape_char_def starts_with_def)

lemma html_unescape_escape: "html_unescape (html_escape s @ r) = s @ html_unescape r"
  by (induction s) (simp_all add: html_escape_def html_unescape_char)

lemma html_escape_char_clean:
  "CHR ''<'' \<notin> set (html_escape_char c) \<and> CHR ''>'' \<notin> set (html_escape_char c) \<and>
   CHR 0x22 \<notin> set (html_escape_char c) \<and> CHR 0x27 \<notin> set (html_escape_char c)"
  by (simp add: html_escape_char_def)

lemma html_escape_clean:
  "CHR ''<'' \<notin> set (html_escape s) \<and> CHR ''>'' \<notin> set (html_escape s) \<and>
   CHR 0x22 \<notin> set (html_escape s) \<and> CHR 0x27 \<notin> set (html_escape s)"
proof (induction s)
  case (Cons c s)
  then show ?case using html_escape_char_clean [of c] by (simp add: html_escape_def)
qed (simp add: html_escape_def)

lemma safe_next_props:
  "starts_with (safe_next s) ''/''" "\<not> starts_with (safe_next s) ''//''"
  "CHR 0x0D \<notin> set (safe_next s)" "CHR 0x0A \<notin> set (safe_next s)"
  by (auto simp: safe_next_def starts_with_def)

lemma form_bytes_plain:
  "b \<noteq> 0x2B \<Longrightarrow> b \<noteq> 0x25 \<Longrightarrow> form_bytes (b # bs) = b # form_bytes bs"
  by simp

lemma form_bytes_escape:
  "hex_val h = Some x \<Longrightarrow> hex_val l = Some y \<Longrightarrow> form_bytes (0x25 # h # l # bs) = (push_bit 4 x OR y) # form_bytes bs"
  by simp

text \<open>
  What the browser reads from the hidden field, up to the closing quote, is the path the
  page was rendered for, and an error message puts no markup into the page.
\<close>

lemma takeWhile_stop: "c \<notin> set a \<Longrightarrow> takeWhile (\<lambda>x. x \<noteq> c) (a @ c # b) = a"
  by (induction a) auto

theorem login_page_field:
  "\<exists>pre. render_login_page next err = pre @ PAGE_FIELDS @ html_escape next @ PAGE_FOOT \<and>
    html_unescape (takeWhile (\<lambda>c. c \<noteq> CHR 0x22) (html_escape next @ PAGE_FOOT)) = next"
proof -
  obtain foot where "PAGE_FOOT = CHR 0x22 # foot" by (simp add: PAGE_FOOT_def)
  then have "takeWhile (\<lambda>c. c \<noteq> CHR 0x22) (html_escape next @ PAGE_FOOT) = html_escape next"
    using html_escape_clean [of "next"] takeWhile_stop [of "CHR 0x22" "html_escape next" foot] by simp
  moreover have "\<exists>pre. render_login_page next err = pre @ PAGE_FIELDS @ html_escape next @ PAGE_FOOT"
    unfolding render_login_page_def Let_def by (metis append.assoc)
  ultimately show ?thesis using html_unescape_escape [of "next" "[]"] by auto
qed

end
