(* ===== verification/Local_Auth.thy ===== *)
theory Local_Auth
  imports Login_Page
begin

text \<open>
  The visitor authentication of a published HTTP tunnel (\<^verbatim>\<open>krot-client/src/local_auth.rs\<close>):
  the decision on a request under a login policy, the API-key check, and the command-line
  sources of credentials. The session table that a policy shares by reference is an explicit
  argument and result; the clock and the random bytes of a request are arguments. A slice
  off a character boundary panics, which is the left side of a result. Debug assertions are
  off, as in a release build.
\<close>

section \<open>Policies and outcomes\<close>

datatype AuthPolicy = PolicySession (ap_user: string) (ap_pass: string) | PolicyApiKey (ap_key: string)

record AuthConfig =
  ac_policy :: AuthPolicy
  ac_realm :: string

definition DEFAULT_REALM :: string where "DEFAULT_REALM = ''KROT Protected Tunnel''"

datatype Outcome = KeyOk | KeyMissing | KeyBadCreds

datatype SessionAction =
    Forward
  | ServeLoginPage string "string option"
  | Redirect string "string option"

type_synonym HeaderList = "(string \<times> bytes) list"

section \<open>Helpers\<close>

definition constant_time_eq_auth :: "bytes \<Rightarrow> bytes \<Rightarrow> bool" where
  "constant_time_eq_auth a b =
    (if length a \<noteq> length b then False
     else foldl (\<lambda>acc (x, y). acc OR (x XOR y)) 0 (zip a b) = 0)"

interpretation auth_eq: byte_eq constant_time_eq_auth
  by unfold_locales (auto simp: constant_time_eq_auth_def foldl_or_xor_zero)

definition hex_upper :: "u8 \<Rightarrow> char" where
  "hex_upper n = char_of (unat (if n \<le> 9 then 48 + n else 65 + n - 10))"

definition path_plain :: "u8 \<Rightarrow> bool" where
  "path_plain b \<longleftrightarrow>
    0x41 \<le> b \<and> b \<le> 0x5A \<or> 0x61 \<le> b \<and> b \<le> 0x7A \<or> 0x30 \<le> b \<and> b \<le> 0x39 \<or>
    b \<in> set (as_bytes ''-_.~/:@,;='')"

definition percent_encode_path :: "string \<Rightarrow> string" where
  "percent_encode_path s =
    concat (map
      (\<lambda>b. if path_plain b then [char_of (unat b)]
           else [CHR ''%'', hex_upper (drop_bit 4 b), hex_upper (b AND 0x0F)])
      (as_bytes s))"

definition current_session_token :: "HeaderList \<Rightarrow> string option" where
  "current_session_token headers =
    find_map
      (\<lambda>(name, value).
        if eq_ignore_ascii_case name ''cookie'' then
          (case from_utf8 value of Some v \<Rightarrow> extract_session_cookie v | None \<Rightarrow> None)
        else None)
      headers"

definition is_char_boundary :: "string \<Rightarrow> nat \<Rightarrow> bool" where
  "is_char_boundary s i \<longleftrightarrow> i = 0 \<or> i = length s \<or> i < length s \<and> \<not> continuation (of_char (s ! i))"

definition strip_scheme_ci :: "string \<Rightarrow> string \<Rightarrow> (string, string option) result" where
  "strip_scheme_ci value scheme =
    (if length value \<le> length scheme then Inr None
     else if \<not> is_char_boundary value (length scheme) then Inl ''split_at: not a char boundary''
     else
       let head = take (length scheme) value; tail = drop (length scheme) value
       in if \<not> eq_ignore_ascii_case head scheme then Inr None
          else if ws_len ws_seqs tail = 0 then Inr None
          else Inr (Some tail))"

section \<open>The session policy\<close>

definition decide_session_inner ::
  "string \<Rightarrow> string \<Rightarrow> nat \<Rightarrow> bytes \<Rightarrow> string \<Rightarrow> string \<Rightarrow> HeaderList \<Rightarrow> bytes \<Rightarrow> SessionStore \<Rightarrow> SessionAction \<times> SessionStore" where
  "decide_session_inner user pass now raw method path headers body store =
    (let (path_only, query) = (case split_once CHR ''?'' path of Some (p, q) \<Rightarrow> (p, Some q) | None \<Rightarrow> (path, None))
     in if path_only = LOGOUT_PATH then
          (Redirect ''/'' (Some session_clear_cookie),
           case current_session_token headers of Some tok \<Rightarrow> invalidate tok store | None \<Rightarrow> store)
        else if path_only = LOGIN_PATH \<and> eq_ignore_ascii_case method ''POST'' then
          let body_str = (case from_utf8 body of Some s \<Rightarrow> s | None \<Rightarrow> []);
              form = parse_login_form body_str;
              ok = (lf_user form = Some user \<and>
                constant_time_eq_auth (as_bytes (case lf_pass form of Some p \<Rightarrow> p | None \<Rightarrow> [])) (as_bytes pass));
              next = (case lf_next form of None \<Rightarrow> ''/'' | Some n \<Rightarrow> safe_next n)
          in if ok then
               let (token, store) = create now raw store
               in (Redirect next (Some (session_set_cookie token)), store)
             else (ServeLoginPage next (Some ''Invalid username or password.''), store)
        else if path_only = LOGIN_PATH then
          let next_raw = (case query of
                  None \<Rightarrow> None
                | Some q \<Rightarrow> find_map (\<lambda>pair. strip_prefix pair ''next='') (split_on CHR ''&'' q))
          in (ServeLoginPage (case next_raw of None \<Rightarrow> ''/'' | Some n \<Rightarrow> safe_next (form_decode n)) None, store)
        else
          let redirect = Redirect (LOGIN_PATH @ ''?next='' @ percent_encode_path path) None
          in case current_session_token headers of
            None \<Rightarrow> (redirect, store)
          | Some tok \<Rightarrow>
              (case validate_and_refresh now tok store of
                 (True, store) \<Rightarrow> (Forward, store)
               | (False, store) \<Rightarrow> (redirect, store)))"

definition decide_session ::
  "AuthPolicy \<Rightarrow> nat \<Rightarrow> bytes \<Rightarrow> string \<Rightarrow> string \<Rightarrow> HeaderList \<Rightarrow> bytes \<Rightarrow> SessionStore \<Rightarrow> SessionAction \<times> SessionStore" where
  "decide_session policy now raw method path headers body store =
    (case policy of
       PolicySession user pass \<Rightarrow> decide_session_inner user pass now raw method path headers body store
     | PolicyApiKey _ \<Rightarrow> (Redirect ''/'' None, store))"

section \<open>The API-key policy\<close>

fun check_key_headers :: "string \<Rightarrow> bool \<Rightarrow> HeaderList \<Rightarrow> (string, Outcome) result" where
  "check_key_headers key saw_header [] = Inr (if saw_header then KeyBadCreds else KeyMissing)"
| "check_key_headers key saw_header ((name, value) # headers) =
    (if eq_ignore_ascii_case name ''x-api-key'' then
       (case from_utf8 value of
          None \<Rightarrow> Inr KeyBadCreds
        | Some v \<Rightarrow>
            if constant_time_eq_auth (as_bytes (trim v)) (as_bytes key) then Inr KeyOk
            else check_key_headers key True headers)
     else if eq_ignore_ascii_case name ''authorization'' then
       (case from_utf8 value of
          None \<Rightarrow> Inr KeyBadCreds
        | Some v \<Rightarrow>
            (case strip_scheme_ci (trim v) ''bearer'' of
               Inl panic \<Rightarrow> Inl panic
             | Inr None \<Rightarrow> check_key_headers key True headers
             | Inr (Some rest) \<Rightarrow>
                 if constant_time_eq_auth (as_bytes (trim rest)) (as_bytes key) then Inr KeyOk
                 else check_key_headers key True headers))
     else check_key_headers key saw_header headers)"

definition check_api_key :: "string \<Rightarrow> HeaderList \<Rightarrow> (string, Outcome) result" where
  "check_api_key key headers = check_key_headers key False headers"

definition policy_check_api_key :: "AuthPolicy \<Rightarrow> HeaderList \<Rightarrow> (string, Outcome) result" where
  "policy_check_api_key policy headers =
    (case policy of PolicyApiKey key \<Rightarrow> check_api_key key headers | PolicySession _ _ \<Rightarrow> Inr KeyBadCreds)"

definition api_key_reject_response :: bytes where
  "api_key_reject_response =
    (let body = as_bytes ''Forbidden''
     in as_bytes (''HTTP/1.1 403 Forbidden'' @ crlf @
          ''Content-Type: text/plain'' @ crlf @
          ''Content-Length: '' @ show_nat (length body) @ crlf @
          ''Connection: close'' @ crlf @ crlf) @ body)"

definition looks_like_tls :: "u8 \<Rightarrow> bool" where
  "looks_like_tls first_byte \<longleftrightarrow> first_byte = 0x16"

section \<open>Credentials from the command line\<close>

datatype AuthConfigError = MissingColon | EmptyUser | EnvUnset string | FileRead string string | FileEmpty string

definition session_from_userpass :: "string \<Rightarrow> (AuthConfigError, AuthPolicy) result" where
  "session_from_userpass s =
    (case split_once CHR '':'' s of
       None \<Rightarrow> Inl MissingColon
     | Some (user, pass) \<Rightarrow> if user = [] then Inl EmptyUser else Inr (PolicySession user pass))"

definition api_key_from_str :: "string \<Rightarrow> AuthPolicy" where
  "api_key_from_str s = PolicyApiKey (trim s)"

text \<open>The environment and the file system are functions; \<^verbatim>\<open>None\<close> is a variable that is unset or not Unicode.\<close>

definition read_env :: "(string \<Rightarrow> string option) \<Rightarrow> string \<Rightarrow> (AuthConfigError, string) result" where
  "read_env env var =
    (case env var of
       None \<Rightarrow> Inl (EnvUnset var)
     | Some value \<Rightarrow> if value = [] then Inl (EnvUnset var) else Inr value)"

definition read_file :: "(string \<Rightarrow> (string, string) result) \<Rightarrow> string \<Rightarrow> (AuthConfigError, string) result" where
  "read_file fs path =
    (case fs path of
       Inl e \<Rightarrow> Inl (FileRead path e)
     | Inr raw \<Rightarrow>
        let trimmed = rev (dropWhile (\<lambda>c. c = CHR 0x0D \<or> c = CHR 0x0A) (rev raw))
        in if trimmed = [] then Inl (FileEmpty path) else Inr trimmed)"


section \<open>Percent encoding and form decoding\<close>

lemma hex_upper_byte: "of_char (hex_upper n) = (if n \<le> 9 then 48 + n else 65 + n - 10 :: u8)"
  unfolding hex_upper_def byte_of_char by (simp only: of_nat_unat ucast_id)

lemma hex_upper_val:
  assumes "unat n < 16"
  shows "hex_val (of_char (hex_upper n)) = Some n"
  unfolding hex_upper_byte using nibble_cases [OF assms] by (elim insertE emptyE) (simp_all add: hex_val_def)

lemma as_bytes_append [simp]: "as_bytes (a @ b) = as_bytes a @ as_bytes b"
  by (simp add: as_bytes_def)

lemma as_bytes_Cons: "as_bytes (c # s) = of_char c # as_bytes s"
  by (simp add: as_bytes_def)

definition encode_byte :: "u8 \<Rightarrow> string" where
  "encode_byte b = (if path_plain b then [char_of (unat b)] else [CHR ''%'', hex_upper (drop_bit 4 b), hex_upper (b AND 0x0F)])"

lemma percent_encode_Cons: "percent_encode_path (c # s) = encode_byte (of_char c) @ percent_encode_path s"
  by (simp add: percent_encode_path_def encode_byte_def as_bytes_def)

lemma percent_encode_Nil: "percent_encode_path [] = []"
  by (simp add: percent_encode_path_def as_bytes_def)

lemma plain_not_special: "path_plain b \<Longrightarrow> b \<noteq> 0x2B \<and> b \<noteq> 0x25"
  by (auto simp: path_plain_def as_bytes_def)

lemma form_bytes_encode_byte: "form_bytes (as_bytes (encode_byte b) @ bs) = b # form_bytes bs"
proof (cases "path_plain b")
  case True
  then have "as_bytes (encode_byte b) = [b]" by (simp add: encode_byte_def as_bytes_def)
  then show ?thesis using plain_not_special [OF True] by simp
next
  case False
  then have "as_bytes (encode_byte b) = [0x25, of_char (hex_upper (drop_bit 4 b)), of_char (hex_upper (b AND 0x0F))]"
    by (simp add: encode_byte_def as_bytes_def)
  then show ?thesis
    using form_bytes_escape [OF hex_upper_val [OF nibble_bounds(1)] hex_upper_val [OF nibble_bounds(2)], of b b bs] nibbles_join [of b]
    by (simp del: form_bytes.simps)
qed

lemma form_bytes_percent_encode: "form_bytes (as_bytes (percent_encode_path s)) = as_bytes s"
  by (induction s) (simp_all add: percent_encode_Nil percent_encode_Cons as_bytes_Cons form_bytes_encode_byte del: form_bytes.simps(2),
      simp add: as_bytes_def)

lemma form_decode_percent_encode:
  "utf8_valid (as_bytes s) \<Longrightarrow> form_decode (percent_encode_path s) = s"
  by (simp add: form_decode_def form_bytes_percent_encode from_utf8_lossy_valid)

definition encoded :: "u8 \<Rightarrow> bool" where
  "encoded b \<longleftrightarrow> 0x20 < unat b \<and> unat b < 0x80 \<and> b \<noteq> 0x26 \<and> b \<noteq> 0x3F"

lemma hex_upper_encoded:
  assumes "unat n < 16"
  shows "encoded (of_char (hex_upper n))"
  unfolding hex_upper_byte using nibble_cases [OF assms] by (elim insertE emptyE) (simp_all add: encoded_def)

lemma path_plain_encoded: "path_plain b \<Longrightarrow> encoded b"
  by (auto simp: path_plain_def encoded_def as_bytes_def word_le_nat_alt word_unat_eq_iff)

lemma encode_byte_encoded: "list_all encoded (as_bytes (encode_byte b))"
  using path_plain_encoded [of b] hex_upper_encoded [OF nibble_bounds(1), of b] hex_upper_encoded [OF nibble_bounds(2), of b]
  by (auto simp: encode_byte_def as_bytes_def) (simp add: encoded_def)

lemma percent_encode_encoded: "list_all encoded (as_bytes (percent_encode_path s))"
  by (induction s) (simp_all add: percent_encode_Nil percent_encode_Cons encode_byte_encoded, simp add: as_bytes_def)

lemma encoded_not_in:
  assumes "\<not> encoded (of_char c)"
  shows "c \<notin> set (percent_encode_path s)"
  using assms percent_encode_encoded [of s] by (auto simp: as_bytes_def list_all_iff)

lemma encoded_utf8: "list_all (\<lambda>b. unat b < 0x80) (as_bytes (percent_encode_path s))"
  using percent_encode_encoded [of s] by (auto simp: list_all_iff encoded_def)


section \<open>Histories of requests\<close>

record VisitorRequest =
  vr_now :: nat
  vr_raw :: bytes
  vr_method :: string
  vr_path :: string
  vr_headers :: HeaderList
  vr_body :: bytes

definition visit :: "AuthPolicy \<Rightarrow> VisitorRequest \<Rightarrow> SessionStore \<Rightarrow> SessionAction \<times> SessionStore" where
  "visit policy rq = decide_session policy (vr_now rq) (vr_raw rq) (vr_method rq) (vr_path rq) (vr_headers rq) (vr_body rq)"

fun visits :: "AuthPolicy \<Rightarrow> VisitorRequest list \<Rightarrow> SessionStore \<Rightarrow> SessionStore" where
  "visits policy [] store = store"
| "visits policy (rq # h) store = visits policy h (snd (visit policy rq store))"

definition path_only :: "string \<Rightarrow> string" where
  "path_only path = (case split_once CHR ''?'' path of Some (p, _) \<Rightarrow> p | None \<Rightarrow> path)"

text \<open>A request that logs in with the right credentials, one that logs a token out, one that uses a token.\<close>

definition login_form :: "VisitorRequest \<Rightarrow> LoginForm" where
  "login_form rq = parse_login_form (case from_utf8 (vr_body rq) of Some s \<Rightarrow> s | None \<Rightarrow> [])"

definition logs_in :: "string \<Rightarrow> string \<Rightarrow> VisitorRequest \<Rightarrow> bool" where
  "logs_in user pass rq \<longleftrightarrow> path_only (vr_path rq) = LOGIN_PATH \<and> eq_ignore_ascii_case (vr_method rq) ''POST'' \<and>
    lf_user (login_form rq) = Some user \<and> (case lf_pass (login_form rq) of Some p \<Rightarrow> p | None \<Rightarrow> []) = pass"

definition logs_out :: "string \<Rightarrow> VisitorRequest \<Rightarrow> bool" where
  "logs_out tok rq \<longleftrightarrow> path_only (vr_path rq) = LOGOUT_PATH \<and> current_session_token (vr_headers rq) = Some tok"

definition is_gated :: "VisitorRequest \<Rightarrow> bool" where
  "is_gated rq \<longleftrightarrow> path_only (vr_path rq) \<noteq> LOGIN_PATH \<and> path_only (vr_path rq) \<noteq> LOGOUT_PATH"

definition visit_ops :: "string \<Rightarrow> string \<Rightarrow> VisitorRequest \<Rightarrow> string revocable_op list" where
  "visit_ops user pass rq =
    (if logs_in user pass rq then [Do (Add (vr_now rq) (new_token (vr_raw rq)))]
     else case current_session_token (vr_headers rq) of
       None \<Rightarrow> []
     | Some tok \<Rightarrow>
        if path_only (vr_path rq) = LOGOUT_PATH then [Revoke tok]
        else if is_gated rq then [Do (Check (vr_now rq) tok)] else [])"

lemma login_logout_differ [simp]: "LOGIN_PATH \<noteq> LOGOUT_PATH" "LOGOUT_PATH \<noteq> LOGIN_PATH"
  by (simp_all add: LOGIN_PATH_def LOGOUT_PATH_def)

lemma path_query:
  "(case split_once CHR ''?'' path of Some (p, q) \<Rightarrow> (p, Some q) | None \<Rightarrow> (path, None)) =
    (path_only path, map_option snd (split_once CHR ''?'' path))"
  by (auto simp: path_only_def split: option.split)

lemma as_bytes_eq_iff [simp]: "as_bytes a = as_bytes b \<longleftrightarrow> a = b"
  by (metis to_str_as_bytes)

text \<open>What a request does, by cases.\<close>

lemma visit_logout:
  "path_only (vr_path rq) = LOGOUT_PATH \<Longrightarrow> visit (PolicySession user pass) rq store =
    (Redirect ''/'' (Some session_clear_cookie),
     case current_session_token (vr_headers rq) of Some tok \<Rightarrow> invalidate tok store | None \<Rightarrow> store)"
  by (simp add: visit_def decide_session_def decide_session_inner_def path_query)

lemma visit_login_ok:
  assumes "logs_in user pass rq"
  shows "visit (PolicySession user pass) rq store =
    (Redirect (case lf_next (login_form rq) of None \<Rightarrow> ''/'' | Some n \<Rightarrow> safe_next n)
       (Some (session_set_cookie (new_token (vr_raw rq)))),
     store_insert (vr_now rq) (new_token (vr_raw rq)) store)"
  using assms
  by (simp add: visit_def decide_session_def decide_session_inner_def path_query logs_in_def login_form_def auth_eq.eq_iff create_def Let_def)

lemma visit_login_other:
  assumes "path_only (vr_path rq) = LOGIN_PATH" "\<not> logs_in user pass rq"
  shows "\<exists>next err. visit (PolicySession user pass) rq store = (ServeLoginPage (safe_next next) err, store)"
proof -
  have "''/'' = safe_next ''/''" by (simp add: safe_next_def starts_with_def)
  then show ?thesis using assms
    by (cases "eq_ignore_ascii_case (vr_method rq) ''POST''")
       (auto simp: visit_def decide_session_def decide_session_inner_def path_query logs_in_def login_form_def auth_eq.eq_iff Let_def
         split: option.split)
qed

lemma visit_gated:
  assumes "is_gated rq"
  shows "visit (PolicySession user pass) rq store =
    (case current_session_token (vr_headers rq) of
       None \<Rightarrow> (Redirect (LOGIN_PATH @ ''?next='' @ percent_encode_path (vr_path rq)) None, store)
     | Some tok \<Rightarrow>
        (if fst (validate_and_refresh (vr_now rq) tok store) then Forward
         else Redirect (LOGIN_PATH @ ''?next='' @ percent_encode_path (vr_path rq)) None,
         snd (validate_and_refresh (vr_now rq) tok store)))"
  using assms
  by (auto simp: visit_def decide_session_def decide_session_inner_def path_query is_gated_def Let_def
      split: option.split prod.split bool.split)

lemma visit_table:
  "snd (visit (PolicySession user pass) rq store) =
    revocable_run store_insert validate_and_refresh invalidate (visit_ops user pass rq) store"
proof -
  consider "logs_in user pass rq" | "path_only (vr_path rq) = LOGOUT_PATH" "\<not> logs_in user pass rq"
    | "path_only (vr_path rq) = LOGIN_PATH" "\<not> logs_in user pass rq" | "is_gated rq" "\<not> logs_in user pass rq"
    by (auto simp: is_gated_def)
  then show ?thesis
  proof cases
    case 1
    then show ?thesis by (simp add: visit_login_ok visit_ops_def)
  next
    case 2
    then show ?thesis by (simp add: visit_logout visit_ops_def split: option.split)
  next
    case 3
    then show ?thesis using visit_login_other [OF 3, of store] by (auto simp: visit_ops_def is_gated_def split: option.split)
  next
    case 4
    then show ?thesis by (simp add: visit_gated visit_ops_def split: option.split) (simp add: is_gated_def)
  qed
qed

lemma visits_table:
  "visits (PolicySession user pass) h store =
    revocable_run store_insert validate_and_refresh invalidate (concat (map (visit_ops user pass) h)) store"
  by (induction h arbitrary: store) (simp_all add: revocable_run_append visit_table)

lemma visit_ops_mem:
  "Do (Add t tok) \<in> set (visit_ops user pass rq) \<longleftrightarrow> logs_in user pass rq \<and> t = vr_now rq \<and> tok = new_token (vr_raw rq)"
  "Revoke tok \<in> set (visit_ops user pass rq) \<longleftrightarrow> logs_out tok rq"
  "Do (Check t tok) \<in> set (visit_ops user pass rq) \<longleftrightarrow>
    is_gated rq \<and> current_session_token (vr_headers rq) = Some tok \<and> t = vr_now rq"
  by (auto simp: visit_ops_def logs_in_def logs_out_def is_gated_def split: option.splits if_splits)

lemma visit_ops_single: "x \<in> set (visit_ops user pass rq) \<Longrightarrow> visit_ops user pass rq = [x]"
  by (auto simp: visit_ops_def split: option.splits if_splits)

lemma concat_singles_split:
  assumes "\<And>r x. x \<in> set (f r) \<Longrightarrow> f r = [x]" "concat (map f h) = a @ x # b"
  shows "\<exists>h1 r h2. h = h1 @ r # h2 \<and> f r = [x] \<and> a = concat (map f h1) \<and> b = concat (map f h2)"
  using assms(2)
proof (induction h arbitrary: a)
  case (Cons r h)
  show ?case
  proof (cases "f r")
    case Nil
    then obtain h1 r' h2 where "h = h1 @ r' # h2" "f r' = [x]" "a = concat (map f h1)" "b = concat (map f h2)"
      using Cons.IH [of a] Cons.prems by auto
    then show ?thesis using Nil by (intro exI [of _ "r # h1"] exI [of _ r'] exI [of _ h2]) simp
  next
    case fr: (Cons y ys)
    then have r: "f r = [y]" using assms(1) [of y r] by simp
    show ?thesis
    proof (cases a)
      case Nil
      then show ?thesis using Cons.prems r by (intro exI [of _ "[]"] exI [of _ r] exI [of _ h]) simp
    next
      case a: (Cons z zs)
      then obtain h1 r' h2 where "h = h1 @ r' # h2" "f r' = [x]" "zs = concat (map f h1)" "b = concat (map f h2)"
        using Cons.IH [of zs] Cons.prems r by auto
      then show ?thesis using Cons.prems a r by (intro exI [of _ "r # h1"] exI [of _ r'] exI [of _ h2]) simp
    qed
  qed
qed simp

text \<open>
  C12: a request reaches the local service only within a session that a login with the
  right password opened. From the empty table, after any history of requests, a forwarded
  request carries a cookie whose token was made by an earlier login with the configured user
  and password; no logout presented that token since; and the request comes within the
  session lifetime of that login or of a later request that used the token.
\<close>

theorem forward_needs_login:
  assumes "fst (visit (PolicySession user pass) rq (visits (PolicySession user pass) h DAList.empty)) = Forward"
  shows "\<exists>tok h1 r h2. current_session_token (vr_headers rq) = Some tok \<and> h = h1 @ r # h2 \<and>
    logs_in user pass r \<and> tok = new_token (vr_raw r) \<and> (\<forall>x \<in> set h2. \<not> logs_out tok x) \<and>
    (\<exists>u \<in> set (r # h2). vr_now rq < vr_now u + SESSION_TTL \<and>
      (logs_in user pass u \<and> tok = new_token (vr_raw u) \<or> is_gated u \<and> current_session_token (vr_headers u) = Some tok))"
proof -
  let ?store = "visits (PolicySession user pass) h DAList.empty"
  have g: "is_gated rq"
  proof (rule ccontr)
    assume "\<not> is_gated rq"
    then consider "path_only (vr_path rq) = LOGOUT_PATH" | "logs_in user pass rq"
      | "path_only (vr_path rq) = LOGIN_PATH" "\<not> logs_in user pass rq"
      by (auto simp: is_gated_def)
    then show False
      using assms visit_login_other [of rq user pass ?store] by cases (auto simp: visit_logout visit_login_ok)
  qed
  obtain tok where tok: "current_session_token (vr_headers rq) = Some tok"
      "fst (validate_and_refresh (vr_now rq) tok ?store)"
    using assms visit_gated [OF g, of user pass ?store] by (auto split: option.splits if_splits)
  obtain a t b where split: "concat (map (visit_ops user pass) h) = a @ Do (Add t tok) # b" "Revoke tok \<notin> set b"
      "\<exists>t'. (t' = t \<or> Do (Add t' tok) \<in> set b \<or> Do (Check t' tok) \<in> set b) \<and> vr_now rq < t' + SESSION_TTL"
    using login_sessions.accepted_since_add [OF tok(2) [unfolded visits_table]] by blast
  obtain h1 r h2 where h: "h = h1 @ r # h2" "visit_ops user pass r = [Do (Add t tok)]" "b = concat (map (visit_ops user pass) h2)"
    using concat_singles_split [OF visit_ops_single split(1)] by blast
  have r: "logs_in user pass r" "t = vr_now r" "tok = new_token (vr_raw r)"
    using visit_ops_mem(1) [of t tok user pass r] h(2) by auto
  have out: "\<forall>x \<in> set h2. \<not> logs_out tok x" using split(2) h(3) by (simp add: visit_ops_mem)
  have "\<exists>u \<in> set (r # h2). vr_now rq < vr_now u + SESSION_TTL \<and>
      (logs_in user pass u \<and> tok = new_token (vr_raw u) \<or> is_gated u \<and> current_session_token (vr_headers u) = Some tok)"
    using split(3) r h(3) by (auto simp: visit_ops_mem)
  then show ?thesis using tok(1) h(1) r(1,3) out by blast
qed


section \<open>The login flow\<close>

text \<open>The form as a browser submits it.\<close>

definition login_body :: "string \<Rightarrow> string \<Rightarrow> string \<Rightarrow> string" where
  "login_body user pass next =
    ''user='' @ percent_encode_path user @ ''&pass='' @ percent_encode_path pass @ ''&next='' @ percent_encode_path next"

lemma no_amp: "CHR ''&'' \<notin> set (percent_encode_path s)"
  by (rule encoded_not_in) (simp add: encoded_def)

lemma no_crlf: "CHR 0x0D \<notin> set (percent_encode_path s)" "CHR 0x0A \<notin> set (percent_encode_path s)"
  by (rule encoded_not_in, simp add: encoded_def)+

lemma form_pair_fields:
  "form_pair f (''user='' @ v) = (if lf_user f = None then f\<lparr>lf_user := Some (form_decode v)\<rparr> else f)"
  "form_pair f (''pass='' @ v) = (if lf_pass f = None then f\<lparr>lf_pass := Some (form_decode v)\<rparr> else f)"
  "form_pair f (''next='' @ v) = (if lf_next f = None then f\<lparr>lf_next := Some (form_decode v)\<rparr> else f)"
  by (simp_all add: form_pair_def Let_def)

lemma parse_login_body:
  assumes "utf8_valid (as_bytes user)" "utf8_valid (as_bytes pass)" "utf8_valid (as_bytes next)"
  shows "parse_login_form (login_body user pass next) = \<lparr>lf_user = Some user, lf_pass = Some pass, lf_next = Some next\<rparr>"
proof -
  let ?e = percent_encode_path
  have "split_on CHR ''&'' (login_body user pass next) = [''user='' @ ?e user, ''pass='' @ ?e pass, ''next='' @ ?e next]"
    using split_on_append [of "CHR ''&''" "''user='' @ ?e user" "''pass='' @ ?e pass @ ''&next='' @ ?e next"]
      split_on_append [of "CHR ''&''" "''pass='' @ ?e pass" "''next='' @ ?e next"]
      split_on_no_sep [of "CHR ''&''" "''next='' @ ?e next"] no_amp
    by (simp add: login_body_def)
  then show ?thesis
    using assms by (simp add: parse_login_form_def form_pair_fields [simplified] form_decode_percent_encode)
qed

lemma from_utf8_ascii: "\<forall>b \<in> set (as_bytes s). unat b < 0x80 \<Longrightarrow> from_utf8 (as_bytes s) = Some s"
  by (simp add: from_utf8_def utf8_valid_ascii)

lemma login_body_utf8: "from_utf8 (as_bytes (login_body user pass next)) = Some (login_body user pass next)"
proof (rule from_utf8_ascii)
  have k: "\<forall>b \<in> set (as_bytes ''user='') \<union> set (as_bytes ''&pass='') \<union> set (as_bytes ''&next=''). unat b < 0x80"
    by (simp add: as_bytes_def)
  then show "\<forall>b \<in> set (as_bytes (login_body user pass next)). unat b < 0x80"
    using encoded_utf8 [of user] encoded_utf8 [of pass] encoded_utf8 [of "next"]
    unfolding login_body_def as_bytes_append set_append list_all_iff by blast
qed

lemma validate_inserted:
  "now < t + SESSION_TTL \<Longrightarrow> fst (validate_and_refresh now tok (store_insert t tok store))"
  by (simp add: login_sessions.check_iff login_sessions.add_new)

lemma login_page_for:
  assumes "utf8_valid (as_bytes path)" "safe_next path = path"
  shows "visit (PolicySession user pass)
      \<lparr>vr_now = t, vr_raw = raw, vr_method = ''GET'', vr_path = LOGIN_PATH @ ''?next='' @ percent_encode_path path,
       vr_headers = hs, vr_body = body\<rparr> store = (ServeLoginPage path None, store)"
proof -
  have "split_once CHR ''?'' (LOGIN_PATH @ ''?next='' @ percent_encode_path path) = Some (LOGIN_PATH, ''next='' @ percent_encode_path path)"
    by (simp add: split_once_Some LOGIN_PATH_def)
  moreover have "split_on CHR ''&'' (''next='' @ percent_encode_path path) = [''next='' @ percent_encode_path path]"
    using no_amp by (intro split_on_no_sep) simp
  moreover have "strip_prefix (''next='' @ percent_encode_path path) ''next='' = Some (percent_encode_path path)"
    by (simp add: strip_prefix_def starts_with_def)
  moreover have "\<not> eq_ignore_ascii_case ''GET'' ''POST''"
    by (simp add: eq_ignore_ascii_case_def to_ascii_lowercase_def to_ascii_lower_def is_ascii_uppercase_def less_eq_char_def)
  ultimately show ?thesis
    using assms by (simp add: visit_def decide_session_def decide_session_inner_def form_decode_percent_encode)
qed

lemma login_post_for:
  assumes "utf8_valid (as_bytes user)" "utf8_valid (as_bytes pass)" "utf8_valid (as_bytes path)" "safe_next path = path"
  shows "visit (PolicySession user pass)
      \<lparr>vr_now = t, vr_raw = raw, vr_method = ''POST'', vr_path = LOGIN_PATH, vr_headers = hs,
       vr_body = as_bytes (login_body user pass path)\<rparr> store =
    (Redirect path (Some (session_set_cookie (new_token raw))), store_insert t (new_token raw) store)"
proof -
  let ?rq = "\<lparr>vr_now = t, vr_raw = raw, vr_method = ''POST'', vr_path = LOGIN_PATH, vr_headers = hs,
       vr_body = as_bytes (login_body user pass path)\<rparr>"
  have f: "login_form ?rq = \<lparr>lf_user = Some user, lf_pass = Some pass, lf_next = Some path\<rparr>"
    using assms by (simp add: login_form_def login_body_utf8 parse_login_body)
  have "path_only LOGIN_PATH = LOGIN_PATH"
    by (simp add: path_only_def LOGIN_PATH_def)
  then have "logs_in user pass ?rq" using f by (simp add: logs_in_def eq_ignore_ascii_case_def)
  then show ?thesis using visit_login_ok [of user pass ?rq store] f assms(4) by simp
qed

lemma cookie_token:
  assumes "\<forall>c \<in> set pre. other_cookie c" "\<forall>c \<in> set post. CHR '';'' \<notin> set c"
    "utf8_valid (as_bytes (join ''; '' (pre @ cookie_pair (new_token raw) # post)))"
  shows "current_session_token [(''Cookie'', as_bytes (join ''; '' (pre @ cookie_pair (new_token raw) # post)))] = Some (new_token raw)"
proof -
  have "eq_ignore_ascii_case ''Cookie'' ''cookie''"
    by (simp add: eq_ignore_ascii_case_def to_ascii_lowercase_def to_ascii_lower_def is_ascii_uppercase_def less_eq_char_def char_of_def bit_0)
  then show ?thesis
    using extract_among [OF assms(1,2) new_token_chars, of raw] assms(3) by (simp add: current_session_token_def from_utf8_def)
qed

text \<open>
  C33: the login flow brings a visitor back to the page they asked for. A request for a
  site-relative path without a session is sent to the login page; the page that address
  serves carries the path; posting the right user name and password with it redirects to the
  path and sets a cookie; and a request for the path that sends the cookie back, among any
  others, is forwarded for as long as the session lives.
\<close>

theorem login_flow:
  assumes "utf8_valid (as_bytes user)" "utf8_valid (as_bytes pass)" "utf8_valid (as_bytes path)" "safe_next path = path"
    and "path_only path \<noteq> LOGIN_PATH" "path_only path \<noteq> LOGOUT_PATH" "t3 < t2 + SESSION_TTL"
    and "\<forall>c \<in> set pre. other_cookie c" "\<forall>c \<in> set post. CHR '';'' \<notin> set c"
    and "utf8_valid (as_bytes (join ''; '' (pre @ cookie_pair (new_token raw) # post)))"
  shows "visit (PolicySession user pass)
      \<lparr>vr_now = t0, vr_raw = raw0, vr_method = ''GET'', vr_path = path, vr_headers = [], vr_body = []\<rparr> store =
      (Redirect (LOGIN_PATH @ ''?next='' @ percent_encode_path path) None, store) \<and>
    visit (PolicySession user pass)
      \<lparr>vr_now = t1, vr_raw = raw1, vr_method = ''GET'', vr_path = LOGIN_PATH @ ''?next='' @ percent_encode_path path,
       vr_headers = [], vr_body = []\<rparr> store = (ServeLoginPage path None, store) \<and>
    (\<exists>store'. visit (PolicySession user pass)
      \<lparr>vr_now = t2, vr_raw = raw, vr_method = ''POST'', vr_path = LOGIN_PATH, vr_headers = [],
       vr_body = as_bytes (login_body user pass path)\<rparr> store =
        (Redirect path (Some (session_set_cookie (new_token raw))), store') \<and>
      fst (visit (PolicySession user pass)
        \<lparr>vr_now = t3, vr_raw = raw3, vr_method = method, vr_path = path,
         vr_headers = [(''Cookie'', as_bytes (join ''; '' (pre @ cookie_pair (new_token raw) # post)))], vr_body = body\<rparr> store') = Forward)"
proof -
  have "current_session_token [] = None" by (simp add: current_session_token_def)
  then show ?thesis
    using login_page_for [OF assms(3,4)] login_post_for [OF assms(1-4)] assms(5,6,7)
      validate_inserted [OF assms(7)] cookie_token [OF assms(8-10)]
    by (simp add: visit_gated is_gated_def)
qed

text \<open>A page set a cookie that the server reads back, and the redirect headers cannot be split.\<close>

theorem redirect_headers_whole:
  assumes "visit (PolicySession user pass) rq store = (Redirect loc cookie, store')"
  shows "CHR 0x0D \<notin> set loc \<and> CHR 0x0A \<notin> set loc \<and> starts_with loc ''/'' \<and> \<not> starts_with loc ''//'' \<and>
    (case cookie of None \<Rightarrow> True | Some c \<Rightarrow> CHR 0x0D \<notin> set c \<and> CHR 0x0A \<notin> set c)"
proof -
  have digits: "CHR 0x0D \<notin> set (show_nat n)" "CHR 0x0A \<notin> set (show_nat n)" for n
    using show_nat_digits [of n] by (auto simp: list_all_iff is_ascii_digit_def less_eq_char_def)
  have tok: "CHR 0x0D \<notin> set (new_token r)" "CHR 0x0A \<notin> set (new_token r)" for r
    using new_token_chars [of r] by (auto simp: list_all_iff token_char_def)
  consider "logs_in user pass rq" | "path_only (vr_path rq) = LOGOUT_PATH"
    | "path_only (vr_path rq) = LOGIN_PATH" "\<not> logs_in user pass rq" | "is_gated rq"
    by (auto simp: is_gated_def)
  then show ?thesis
  proof cases
    case 1
    have root: "safe_next ''/'' = ''/''" by (simp add: safe_next_def)
    obtain n where n: "loc = safe_next n" and c: "cookie = Some (session_set_cookie (new_token (vr_raw rq)))"
      using assms visit_login_ok [OF 1, of store] root by (cases "lf_next (login_form rq)") (simp, metis, simp, metis)
    show ?thesis unfolding n c using safe_next_props [of n] digits tok by (simp add: session_set_cookie_def SESSION_COOKIE_def)
  next
    case 2
    then show ?thesis using assms visit_logout [OF 2, of user pass store]
      by (auto simp: session_clear_cookie_def SESSION_COOKIE_def starts_with_def)
  next
    case 3
    then show ?thesis using assms visit_login_other [OF 3, of store] by auto
  next
    case 4
    then have "loc = LOGIN_PATH @ ''?next='' @ percent_encode_path (vr_path rq) \<and> cookie = None"
      using assms visit_gated [OF 4, of user pass store] by (auto split: option.splits if_splits)
    then show ?thesis using no_crlf by (simp add: LOGIN_PATH_def starts_with_def)
  qed
qed


section \<open>The API-key check\<close>

text \<open>The key a header presents, and a header at which the check ends at once.\<close>

definition header_key :: "string \<times> bytes \<Rightarrow> string option" where
  "header_key h =
    (case from_utf8 (snd h) of
       None \<Rightarrow> None
     | Some v \<Rightarrow>
        if eq_ignore_ascii_case (fst h) ''x-api-key'' then Some (trim v)
        else if eq_ignore_ascii_case (fst h) ''authorization'' then
          (case strip_scheme_ci (trim v) ''bearer'' of Inr (Some rest) \<Rightarrow> Some (trim rest) | _ \<Rightarrow> None)
        else None)"

definition stops_check :: "string \<times> bytes \<Rightarrow> bool" where
  "stops_check h \<longleftrightarrow>
    (eq_ignore_ascii_case (fst h) ''x-api-key'' \<or> eq_ignore_ascii_case (fst h) ''authorization'') \<and> from_utf8 (snd h) = None \<or>
    \<not> eq_ignore_ascii_case (fst h) ''x-api-key'' \<and> eq_ignore_ascii_case (fst h) ''authorization'' \<and>
      (\<exists>v p. from_utf8 (snd h) = Some v \<and> strip_scheme_ci (trim v) ''bearer'' = Inl p)"

lemma check_key_step:
  assumes saw: "\<And>saw. check_key_headers key saw hs = Inr KeyOk \<longleftrightarrow> check_key_headers key False hs = Inr KeyOk"
  shows "check_key_headers key saw (h # hs) = Inr KeyOk \<longleftrightarrow>
    header_key h = Some key \<or> \<not> stops_check h \<and> check_key_headers key False hs = Inr KeyOk"
proof -
  obtain name val where h: "h = (name, val)" by (cases h)
  define x where "x = eq_ignore_ascii_case name ''x-api-key''"
  define a where "a = eq_ignore_ascii_case name ''authorization''"
  note defs = header_key_def stops_check_def h fst_conv snd_conv check_key_headers.simps auth_eq.eq_iff as_bytes_eq_iff
    x_def [symmetric] a_def [symmetric]
  show ?thesis
  proof (cases "from_utf8 val")
    case None
    then show ?thesis using saw [of saw] unfolding defs by (cases x; cases a) simp_all
  next
    case (Some v)
    show ?thesis
    proof (cases "strip_scheme_ci (trim v) ''bearer''")
      case (Inl p)
      then show ?thesis using saw [of saw] saw [of True] Some unfolding defs by (cases x; cases a) simp_all
    next
      case (Inr r)
      then show ?thesis using saw [of saw] saw [of True] Some unfolding defs by (cases x; cases a; cases r) simp_all
    qed
  qed
qed

lemma check_key_saw: "check_key_headers key saw hs = Inr KeyOk \<longleftrightarrow> check_key_headers key False hs = Inr KeyOk"
proof (induction hs arbitrary: saw)
  case (Cons h hs)
  show ?case using check_key_step [of key hs, OF Cons.IH] by metis
qed simp

text \<open>
  the API key opens the tunnel, and nothing else does. The check accepts exactly when
  some header presents the key, as the value of X-API-Key or as a bearer token of
  Authorization, and no key header before it is unreadable.
\<close>

theorem api_key_accepts_iff:
  "check_api_key key hs = Inr KeyOk \<longleftrightarrow>
    (\<exists>pre h post. hs = pre @ h # post \<and> header_key h = Some key \<and> (\<forall>x \<in> set pre. \<not> stops_check x))"
proof (induction hs)
  case Nil
  then show ?case by (simp add: check_api_key_def)
next
  case (Cons h hs)
  have "check_api_key key (h # hs) = Inr KeyOk \<longleftrightarrow>
      header_key h = Some key \<or> \<not> stops_check h \<and> check_api_key key hs = Inr KeyOk"
    using check_key_step [of key hs False h, OF check_key_saw] unfolding check_api_key_def by blast
  also have "\<dots> \<longleftrightarrow> (\<exists>pre x post. h # hs = pre @ x # post \<and> header_key x = Some key \<and> (\<forall>y \<in> set pre. \<not> stops_check y))"
    (is "?l \<longleftrightarrow> ?r")
  proof
    assume ?l
    then show ?r
    proof
      assume "header_key h = Some key"
      then show ?r by (intro exI [of _ "[]"] exI [of _ h] exI [of _ hs]) simp
    next
      assume a: "\<not> stops_check h \<and> check_api_key key hs = Inr KeyOk"
      then obtain pre x post where "hs = pre @ x # post" "header_key x = Some key" "\<forall>y \<in> set pre. \<not> stops_check y"
        using Cons.IH by blast
      then show ?r using a by (intro exI [of _ "h # pre"] exI [of _ x] exI [of _ post]) simp
    qed
  next
    assume ?r
    then obtain pre x post where r: "h # hs = pre @ x # post" "header_key x = Some key" "\<forall>y \<in> set pre. \<not> stops_check y"
      by blast
    show ?l
    proof (cases pre)
      case Nil
      then show ?thesis using r by simp
    next
      case (Cons y ys)
      then have "hs = ys @ x # post" "\<not> stops_check h" "\<forall>y \<in> set ys. \<not> stops_check y" using r by auto
      then show ?thesis using Cons.IH r(2) by blast
    qed
  qed
  finally show ?case .
qed

text \<open>
  A bearer header whose seventh byte lies inside a character makes the check panic, whatever
  the key: the scheme is cut off with a slice that must fall on a character boundary.
\<close>

theorem bearer_slice_panics:
  "\<exists>p. check_api_key key ((''Authorization'', as_bytes (''beare'' @ [CHR 0xC3, CHR 0xA9] @ ''x'')) # hs) = Inl p"
proof -
  let ?v = "''beare'' @ [CHR 0xC3, CHR 0xA9] @ ''x''"
  have u: "from_utf8 (as_bytes ?v) = Some ?v"
    by (simp add: from_utf8_def as_bytes_def to_str_def utf8_valid.simps in_range_def continuation_def char_of_def bit_0)
  have t: "trim ?v = ?v" by (rule trim_graphic) (simp_all add: graphic_def)
  have "strip_scheme_ci ?v ''bearer'' = Inl ''split_at: not a char boundary''"
    by (simp add: strip_scheme_ci_def is_char_boundary_def continuation_def in_range_def)
  moreover have "eq_ignore_ascii_case ''Authorization'' ''authorization''" "\<not> eq_ignore_ascii_case ''Authorization'' ''x-api-key''"
    by (simp_all add: eq_ignore_ascii_case_def to_ascii_lowercase_def to_ascii_lower_def is_ascii_uppercase_def less_eq_char_def char_of_def bit_0)
  ultimately show ?thesis using t unfolding check_api_key_def check_key_headers.simps u by simp
qed

text \<open>The redirect guard lets a backslash through, which browsers read as a second slash.\<close>

theorem safe_next_backslash:
  assumes "CHR 0x0D \<notin> set host" "CHR 0x0A \<notin> set host"
  shows "safe_next (CHR ''/'' # CHR 0x5C # host) = CHR ''/'' # CHR 0x5C # host"
  using assms by (simp add: safe_next_def starts_with_def)

section \<open>Witnesses\<close>

lemma demo_utf8: "utf8_valid (as_bytes ''u'')" "utf8_valid (as_bytes ''p'')" "utf8_valid (as_bytes ''/a'')"
    "utf8_valid (as_bytes (join ''; '' ([''x=y''] @ cookie_pair (new_token [0]) # [])))"
  by (rule utf8_valid_ascii, simp add: as_bytes_def cookie_pair_def SESSION_COOKIE_def hex_char_byte)+

lemma demo_path: "safe_next ''/a'' = ''/a''" "path_only ''/a'' = ''/a''" "''/a'' \<noteq> LOGIN_PATH" "''/a'' \<noteq> LOGOUT_PATH"
  by (simp_all add: safe_next_def starts_with_def path_only_def LOGIN_PATH_def LOGOUT_PATH_def)

lemma demo_cookies: "\<forall>c \<in> set [''x=y'']. other_cookie c" "\<forall>c \<in> set []. CHR '';'' \<notin> set c"
  by (simp_all add: other_cookie_def graphic_def trim_graphic starts_with_def SESSION_COOKIE_def)

lemma demo_ttl: "5 < 1 + SESSION_TTL"
  by (simp add: SESSION_TTL_def)

theorem login_flow_witness:
  "\<exists>store'. visit (PolicySession ''u'' ''p'')
      \<lparr>vr_now = 1, vr_raw = [0], vr_method = ''POST'', vr_path = LOGIN_PATH, vr_headers = [],
       vr_body = as_bytes (login_body ''u'' ''p'' ''/a'')\<rparr> DAList.empty =
        (Redirect ''/a'' (Some (session_set_cookie (new_token [0]))), store')"
proof -
  have "path_only ''/a'' \<noteq> LOGIN_PATH" "path_only ''/a'' \<noteq> LOGOUT_PATH" using demo_path by simp_all
  from login_flow [OF demo_utf8(1-3) demo_path(1) this demo_ttl demo_cookies demo_utf8(4), of 0 "[]" DAList.empty 0 "[]" "[]" "''GET''" "[]"]
  show ?thesis by blast
qed

definition demo_login_rq :: VisitorRequest where
  "demo_login_rq = \<lparr>vr_now = 1, vr_raw = [0], vr_method = ''POST'', vr_path = LOGIN_PATH, vr_headers = [],
     vr_body = as_bytes (login_body ''u'' ''p'' ''/a'')\<rparr>"

definition demo_page_rq :: VisitorRequest where
  "demo_page_rq = \<lparr>vr_now = 5, vr_raw = [], vr_method = ''GET'', vr_path = ''/a'',
     vr_headers = [(''Cookie'', as_bytes (join ''; '' ([''x=y''] @ cookie_pair (new_token [0]) # [])))], vr_body = []\<rparr>"

lemma demo_forward:
  "fst (visit (PolicySession ''u'' ''p'') demo_page_rq (visits (PolicySession ''u'' ''p'') [demo_login_rq] DAList.empty)) = Forward"
proof -
  have s: "visits (PolicySession ''u'' ''p'') [demo_login_rq] DAList.empty = store_insert 1 (new_token [0]) DAList.empty"
    using login_post_for [OF demo_utf8(1-3) demo_path(1), of 1 "[0]" "[]" DAList.empty] by (simp add: demo_login_rq_def)
  have g: "is_gated demo_page_rq" using demo_path by (simp add: is_gated_def demo_page_rq_def)
  have c: "current_session_token (vr_headers demo_page_rq) = Some (new_token [0])" "vr_now demo_page_rq = 5"
    using cookie_token [OF demo_cookies demo_utf8(4)] by (simp_all add: demo_page_rq_def)
  show ?thesis unfolding s visit_gated [OF g] c using validate_inserted [OF demo_ttl] by simp
qed

theorem forward_needs_login_witness:
  "\<exists>tok h1 r h2. current_session_token (vr_headers demo_page_rq) = Some tok \<and> [demo_login_rq] = h1 @ r # h2 \<and>
    logs_in ''u'' ''p'' r \<and> tok = new_token (vr_raw r)"
  using forward_needs_login [OF demo_forward] by blast

theorem redirect_headers_whole_witness:
  "CHR 0x0A \<notin> set (LOGIN_PATH @ ''?next='' @ percent_encode_path [CHR ''/'', CHR 0x0A])"
proof -
  let ?rq = "\<lparr>vr_now = 0, vr_raw = [], vr_method = ''GET'', vr_path = [CHR ''/'', CHR 0x0A], vr_headers = [], vr_body = []\<rparr>"
  have "is_gated ?rq" by (simp add: is_gated_def path_only_def LOGIN_PATH_def LOGOUT_PATH_def)
  then have "visit (PolicySession ''u'' ''p'') ?rq DAList.empty =
      (Redirect (LOGIN_PATH @ ''?next='' @ percent_encode_path [CHR ''/'', CHR 0x0A]) None, DAList.empty)"
    by (simp add: visit_gated current_session_token_def)
  from redirect_headers_whole [OF this] show ?thesis by blast
qed

theorem api_key_accepts_iff_witness: "check_api_key ''k'' [(''X-API-Key'', as_bytes ''k'')] = Inr KeyOk"
proof -
  have "eq_ignore_ascii_case ''X-API-Key'' ''x-api-key''"
    by (simp add: eq_ignore_ascii_case_def to_ascii_lowercase_def to_ascii_lower_def is_ascii_uppercase_def less_eq_char_def char_of_def bit_0)
  moreover have "from_utf8 (as_bytes ''k'') = Some ''k''" by (rule from_utf8_ascii) (simp add: as_bytes_def)
  ultimately have "header_key (''X-API-Key'', as_bytes ''k'') = Some ''k''"
    by (simp add: header_key_def trim_graphic graphic_def)
  then show ?thesis
    unfolding api_key_accepts_iff by (intro exI [of _ "[]"] exI [of _ "(''X-API-Key'', as_bytes ''k'')"]) simp
qed

end
