(* ===== verification/Inspector.thy ===== *)
theory Inspector
  imports Http_Text
begin

text \<open>
  The request inspector of the client (\<^verbatim>\<open>krot-client/src/inspector.rs\<close>): a ring of the last
  requests with their responses, and the handler of its local web page. Wall-clock and
  monotonic times in milliseconds are arguments; the header parser, the JSON writer and the
  page text are parameters.
\<close>

section \<open>State\<close>

definition HISTORY_CAP :: nat where "HISTORY_CAP = 200"

type_synonym EntryId = u64

record Entry =
  en_id :: EntryId
  en_time_ms :: nat
  en_method :: "string option"
  en_path :: "string option"
  en_status :: "u16 option"
  en_duration_ms :: "u64 option"
  en_peer :: "string option"
  en_host :: "string option"

record PendingAccept =
  pa_peer :: string
  pa_host :: "string option"

record InspState =
  in_next_id :: u64
  in_entries :: "Entry list"
  in_pending_start :: "EntryId \<Rightarrow> nat option"
  in_pending_accept :: "PendingAccept option"

section \<open>Operations\<close>

definition inspector_new :: InspState where
  "inspector_new = \<lparr>in_next_id = 1, in_entries = [], in_pending_start = Map.empty, in_pending_accept = None\<rparr>"

definition flush_pending_accept_locked :: "nat \<Rightarrow> InspState \<Rightarrow> InspState" where
  "flush_pending_accept_locked wall st =
    (case in_pending_accept st of
       None \<Rightarrow> st
     | Some pending \<Rightarrow>
        let entry = \<lparr>en_id = in_next_id st, en_time_ms = wall, en_method = None, en_path = None, en_status = None,
              en_duration_ms = None, en_peer = Some (pa_peer pending), en_host = pa_host pending\<rparr>;
            entries = (if length (in_entries st) = HISTORY_CAP then tl (in_entries st) else in_entries st)
        in st\<lparr>in_pending_accept := None, in_next_id := in_next_id st + 1, in_entries := entries @ [entry]\<rparr>)"

definition prelude_host :: "InspectionPrelude \<Rightarrow> string option" where
  "prelude_host prelude =
    map_option (\<lambda>h. if hm_host h = [] then (case hm_sni h of Some s \<Rightarrow> s | None \<Rightarrow> []) else hm_host h) (ip_http prelude)"

definition record_accept :: "nat \<Rightarrow> InspectionPrelude \<Rightarrow> InspState \<Rightarrow> InspState" where
  "record_accept wall prelude st =
    (let is_passthrough = (case ip_http prelude of Some h \<Rightarrow> hm_sni h \<noteq> None | None \<Rightarrow> False);
         st = st\<lparr>in_pending_accept := Some \<lparr>pa_peer = ip_peer prelude, pa_host = prelude_host prelude\<rparr>\<rparr>
     in if is_passthrough then flush_pending_accept_locked wall st else st)"

definition record_request :: "nat \<Rightarrow> nat \<Rightarrow> string option \<Rightarrow> string option \<Rightarrow> InspState \<Rightarrow> EntryId \<times> InspState" where
  "record_request wall now method path st =
    (let i = in_next_id st;
         pending = (in_pending_start st)(i \<mapsto> now);
         (peer, host) = (case in_pending_accept st of Some p \<Rightarrow> (Some (pa_peer p), pa_host p) | None \<Rightarrow> (None, None));
         entry = \<lparr>en_id = i, en_time_ms = wall, en_method = method, en_path = path, en_status = None,
           en_duration_ms = None, en_peer = peer, en_host = host\<rparr>;
         full = (length (in_entries st) = HISTORY_CAP)
     in (i, \<lparr>in_next_id = i + 1,
             in_entries = (if full then tl (in_entries st) else in_entries st) @ [entry],
             in_pending_start = (if full then pending(en_id (hd (in_entries st)) := None) else pending),
             in_pending_accept = None\<rparr>))"

fun update_first :: "('a \<Rightarrow> bool) \<Rightarrow> ('a \<Rightarrow> 'a) \<Rightarrow> 'a list \<Rightarrow> 'a list" where
  "update_first P f [] = []"
| "update_first P f (x # xs) = (if P x then f x # xs else x # update_first P f xs)"

definition attach :: "nat \<Rightarrow> u16 \<Rightarrow> nat option \<Rightarrow> Entry \<Rightarrow> Entry" where
  "attach now status start e =
    e\<lparr>en_status := Some status, en_duration_ms := map_option (\<lambda>s. of_nat (max (now - s) 1)) start\<rparr>"

definition record_response :: "nat \<Rightarrow> EntryId \<Rightarrow> u16 \<Rightarrow> InspState \<Rightarrow> InspState" where
  "record_response now i status st =
    st\<lparr>in_pending_start := (in_pending_start st)(i := None),
       in_entries := update_first (\<lambda>e. en_id e = i) (attach now status (in_pending_start st i)) (in_entries st)\<rparr>"

definition snapshot :: "InspState \<Rightarrow> Entry list" where
  "snapshot st = rev (in_entries st)"

section \<open>The web page\<close>

text \<open>
  Reads until the head is complete by its blank line, the peer closes or 8 KiB are
  exceeded; \<^verbatim>\<open>None\<close> as the outcome of a read is the deadline.
\<close>

definition has_blank_line :: "bytes \<Rightarrow> bool" where
  "has_blank_line buf \<longleftrightarrow> (\<exists>i < length buf. take 4 (drop i buf) = [13, 10, 13, 10])"

fun ui_read :: "(string, bytes) result option list \<Rightarrow> bytes \<Rightarrow> (string, bytes) result" where
  "ui_read [] buf = Inl ''deadline has elapsed''"
| "ui_read (None # rs) buf = Inl ''deadline has elapsed''"
| "ui_read (Some (Inl e) # rs) buf = Inl e"
| "ui_read (Some (Inr b) # rs) buf =
    (if b = [] then Inr buf
     else let buf = buf @ b
       in if has_blank_line buf then Inr buf
          else if 8 * 1024 < length buf then Inr buf
          else ui_read rs buf)"

definition ui_handle ::
  "(bytes \<Rightarrow> string option) \<Rightarrow> (Entry list \<Rightarrow> (string, bytes) result) \<Rightarrow> bytes \<Rightarrow> (string, bytes) result option list
    \<Rightarrow> InspState \<Rightarrow> (string, bytes) result" where
  "ui_handle parse_path to_json html reads st =
    (case ui_read reads [] of
       Inl e \<Rightarrow> Inl e
     | Inr buf \<Rightarrow>
        let path = (case parse_path buf of Some p \<Rightarrow> p | None \<Rightarrow> ''/'')
        in if path = ''/api/entries'' then
             (case to_json (snapshot st) of
                Inl e \<Rightarrow> Inl e
              | Inr body \<Rightarrow> Inr (http_response ''200 OK'' ''application/json'' body))
           else Inr (http_response ''200 OK'' ''text/html; charset=utf-8'' html))"

section \<open>Runs\<close>

datatype InspOp =
    OpAccept nat InspectionPrelude
  | OpRequest nat nat "string option" "string option"
  | OpResponse nat EntryId u16

fun insp_step :: "InspOp \<Rightarrow> InspState \<Rightarrow> InspState" where
  "insp_step (OpAccept wall prelude) st = record_accept wall prelude st"
| "insp_step (OpRequest wall now method path) st = snd (record_request wall now method path st)"
| "insp_step (OpResponse now i status) st = record_response now i status st"

definition insp_run :: "InspOp list \<Rightarrow> InspState" where
  "insp_run ops = fold insp_step ops inspector_new"

text \<open>The same history kept whole: nothing is evicted and an answer goes to the request it names.\<close>

definition log_push :: "Entry \<Rightarrow> InspState \<Rightarrow> InspState" where
  "log_push e st = st\<lparr>in_next_id := in_next_id st + 1, in_entries := in_entries st @ [e], in_pending_accept := None\<rparr>"

fun log_step :: "InspOp \<Rightarrow> InspState \<Rightarrow> InspState" where
  "log_step (OpAccept wall prelude) st =
    (if (case ip_http prelude of Some h \<Rightarrow> hm_sni h \<noteq> None | None \<Rightarrow> False) then
       log_push \<lparr>en_id = in_next_id st, en_time_ms = wall, en_method = None, en_path = None, en_status = None,
         en_duration_ms = None, en_peer = Some (ip_peer prelude), en_host = prelude_host prelude\<rparr> st
     else st\<lparr>in_pending_accept := Some \<lparr>pa_peer = ip_peer prelude, pa_host = prelude_host prelude\<rparr>\<rparr>)"
| "log_step (OpRequest wall now method path) st =
    log_push \<lparr>en_id = in_next_id st, en_time_ms = wall, en_method = method, en_path = path, en_status = None,
        en_duration_ms = None, en_peer = map_option pa_peer (in_pending_accept st),
        en_host = (case in_pending_accept st of Some p \<Rightarrow> pa_host p | None \<Rightarrow> None)\<rparr>
      (st\<lparr>in_pending_start := (in_pending_start st)(in_next_id st \<mapsto> now)\<rparr>)"
| "log_step (OpResponse now i status) st =
    st\<lparr>in_pending_start := (in_pending_start st)(i := None),
       in_entries := map (\<lambda>e. if en_id e = i then attach now status (in_pending_start st i) e else e) (in_entries st)\<rparr>"

definition log_run :: "InspOp list \<Rightarrow> InspState" where
  "log_run ops = fold log_step ops inspector_new"


section \<open>The ring is the end of the log\<close>

definition lastn :: "nat \<Rightarrow> 'a list \<Rightarrow> 'a list" where
  "lastn n xs = drop (length xs - n) xs"

lemma lastn_push:
  assumes "0 < n"
  shows "lastn n (xs @ [x]) = (if length (lastn n xs) = n then tl (lastn n xs) else lastn n xs) @ [x]"
proof (cases "length xs < n")
  case False
  then have "Suc (length xs) - n = Suc (length xs - n)" "length (lastn n xs) = n" by (simp_all add: lastn_def)
  then show ?thesis using assms False by (simp add: lastn_def tl_drop drop_Suc)
qed (simp add: lastn_def)

lemma lastn_map: "lastn n (map f xs) = map f (lastn n xs)"
  by (simp add: lastn_def drop_map)

lemma update_first_distinct:
  "distinct (map g xs) \<Longrightarrow> update_first (\<lambda>e. g e = i) f xs = map (\<lambda>e. if g e = i then f e else e) xs"
proof (induction xs)
  case (Cons x xs)
  have "map (\<lambda>e. if g e = i then f e else e) xs = xs" if "g x = i"
    using that Cons.prems by (intro map_idI) (force simp: image_iff)
  then show ?case using Cons by auto
qed simp

text \<open>The ring state \<^verbatim>\<open>s\<close> and the log \<^verbatim>\<open>t\<close> after the same operations, fewer than \<^verbatim>\<open>2^64\<close> of them.\<close>

definition ring_of :: "InspState \<Rightarrow> InspState \<Rightarrow> bool" where
  "ring_of s t \<longleftrightarrow>
    in_entries s = lastn HISTORY_CAP (in_entries t) \<and> in_next_id s = in_next_id t \<and>
    in_pending_accept s = in_pending_accept t \<and>
    (\<forall>e \<in> set (in_entries s). in_pending_start s (en_id e) = in_pending_start t (en_id e)) \<and>
    dom (in_pending_start s) \<union> dom (in_pending_start t) \<subseteq> en_id ` set (in_entries t)"

definition log_ids :: "InspState \<Rightarrow> bool" where
  "log_ids t \<longleftrightarrow> map en_id (in_entries t) = map (\<lambda>i. 1 + of_nat i) [0 ..< length (in_entries t)] \<and>
    in_next_id t = 1 + of_nat (length (in_entries t))"

lemma attach_id [simp]: "en_id (attach now status start e) = en_id e"
  by (simp add: attach_def)

lemma log_step_ids: "log_ids t \<Longrightarrow> log_ids (log_step op t)"
  by (cases op) (auto simp: log_ids_def log_push_def comp_def if_distrib [of en_id] cong: if_cong)

lemma log_step_length: "length (in_entries (log_step op t)) \<le> Suc (length (in_entries t))"
  by (cases op) (simp_all add: log_push_def)

lemma log_ids_distinct:
  assumes "log_ids t" "length (in_entries t) < 2 ^ 64"
  shows "distinct (map en_id (in_entries t))" "in_next_id t \<notin> en_id ` set (in_entries t)"
proof -
  have inj: "i = j" if "(1 + of_nat i :: u64) = 1 + of_nat j" "i < 2 ^ 64" "j < 2 ^ 64" for i j
  proof -
    have "unat (of_nat i :: u64) = unat (of_nat j :: u64)" using that(1) by simp
    then show ?thesis using that(2,3) by (simp add: unat_of_nat)
  qed
  show "distinct (map en_id (in_entries t))"
  proof -
    have "inj_on (\<lambda>i. 1 + of_nat i :: u64) (set [0 ..< length (in_entries t)])"
    proof (rule inj_onI)
      fix x y assume "x \<in> set [0 ..< length (in_entries t)]" "y \<in> set [0 ..< length (in_entries t)]"
        and e: "(1 + of_nat x :: u64) = 1 + of_nat y"
      then have "x < 2 ^ 64" "y < 2 ^ 64" using assms(2) by simp_all
      with e show "x = y" by (rule inj)
    qed
    then show ?thesis using assms(1) unfolding log_ids_def by (metis distinct_map distinct_upt)
  qed
  have img: "en_id ` set (in_entries t) = (\<lambda>i. 1 + of_nat i) ` {0 ..< length (in_entries t)}"
    using arg_cong [of _ _ set, OF conjunct1 [OF assms(1) [unfolded log_ids_def]]] by simp
  show "in_next_id t \<notin> en_id ` set (in_entries t)"
  proof -
    have "1 + of_nat j \<noteq> in_next_id t" if "j < length (in_entries t)" for j
      using inj [of j "length (in_entries t)"] that assms unfolding log_ids_def by auto
    then show ?thesis unfolding img image_iff by (metis atLeastLessThan_iff)
  qed
qed


definition evict :: "'a list \<Rightarrow> 'a list" where
  "evict xs = (if length xs = HISTORY_CAP then tl xs else xs)"

lemma evict_push: "lastn HISTORY_CAP (xs @ [x]) = evict (lastn HISTORY_CAP xs) @ [x]"
  by (simp add: lastn_push evict_def HISTORY_CAP_def)

lemma ring_ids:
  assumes "ring_of s t" "log_ids t" "length (in_entries t) < 2 ^ 64"
  shows "distinct (map en_id (in_entries s))" "in_next_id s \<notin> en_id ` set (in_entries s)"
  using log_ids_distinct [OF assms(2,3)] assms(1) set_drop_subset [of "length (in_entries t) - HISTORY_CAP" "in_entries t"]
  by (auto simp: ring_of_def lastn_def distinct_drop drop_map [symmetric])

lemma evict_mem: "e \<in> set (evict xs) \<Longrightarrow> e \<in> set xs \<and> (distinct (map g xs) \<and> length xs = HISTORY_CAP \<longrightarrow> g e \<noteq> g (hd xs))"
proof (cases xs)
  case (Cons a list)
  assume "e \<in> set (evict xs)"
  moreover have "g e \<in> g ` set list" if "e \<in> set list" using that by simp
  ultimately show ?thesis using Cons unfolding evict_def by (auto split: if_splits) (metis imageI)
qed (simp add: evict_def)

text \<open>Appending one entry, with or without a start time, to both sides.\<close>

lemma ring_push:
  assumes ring: "ring_of s t" and ids: "log_ids t" "length (in_entries t) < 2 ^ 64" and e: "en_id e = in_next_id t"
    and s': "in_entries s' = evict (in_entries s) @ [e]" "in_next_id s' = in_next_id s + 1" "in_pending_accept s' = None"
    and t': "in_entries t' = in_entries t @ [e]" "in_next_id t' = in_next_id t + 1" "in_pending_accept t' = None"
    and p: "in_pending_start t' = (in_pending_start t)(in_next_id t := st)" "st = None \<or> st = Some now"
      "\<And>i. i \<in> en_id ` set (evict (in_entries s)) \<Longrightarrow> in_pending_start s' i = in_pending_start s i"
      "in_pending_start s' (in_next_id t) = st" "dom (in_pending_start s') \<subseteq> insert (in_next_id t) (dom (in_pending_start s))"
  shows "ring_of s' t'"
proof -
  note r = ring [unfolded ring_of_def]
  have new: "in_next_id t \<notin> en_id ` set (in_entries s)" using ring_ids(2) [OF ring ids] r by simp
  have "in_entries s' = lastn HISTORY_CAP (in_entries t')" using r s'(1) t'(1) by (simp add: evict_push)
  moreover have "in_pending_start s' (en_id x) = in_pending_start t' (en_id x)" if x: "x \<in> set (in_entries s')" for x
  proof (cases "x = e")
    case True
    then show ?thesis using p(1,4) e by simp
  next
    case False
    then have m: "x \<in> set (evict (in_entries s))" using x s'(1) by simp
    then have x': "x \<in> set (in_entries s)" using evict_mem [of x "in_entries s" en_id] by simp
    then have "en_id x \<noteq> in_next_id t" using new by (metis imageI)
    then show ?thesis using p(1) p(3) [of "en_id x"] m r x' by simp
  qed
  moreover have "dom (in_pending_start s') \<union> dom (in_pending_start t') \<subseteq> en_id ` set (in_entries t')"
  proof -
    have grow: "A \<subseteq> insert n B \<Longrightarrow> C \<subseteq> insert n D \<Longrightarrow> B \<union> D \<subseteq> I \<Longrightarrow> A \<union> C \<subseteq> insert n I" for A B C D I and n :: u64
      by blast
    have i: "en_id ` set (in_entries t') = insert (in_next_id t) (en_id ` set (in_entries t))" using t'(1) e by simp
    have d: "dom (in_pending_start t') \<subseteq> insert (in_next_id t) (dom (in_pending_start t))"
      unfolding p(1) by (rule subsetI) (simp add: dom_def split: if_splits)
    have "dom (in_pending_start s) \<union> dom (in_pending_start t) \<subseteq> en_id ` set (in_entries t)" using r by simp
    from grow [OF p(5) d this] show ?thesis unfolding i .
  qed
  ultimately show ?thesis using r s'(2,3) t'(2,3) by (simp add: ring_of_def)
qed

lemma pending_fresh:
  assumes "ring_of s t" "log_ids t" "length (in_entries t) < 2 ^ 64"
  shows "in_pending_start s (in_next_id t) = None" "in_pending_start t (in_next_id t) = None"
  using assms log_ids_distinct(2) [OF assms(2,3)] by (auto simp: ring_of_def)

lemma ring_accept:
  assumes "ring_of s t" "log_ids t" "length (in_entries t) < 2 ^ 64"
  shows "ring_of (insp_step (OpAccept wall prelude) s) (log_step (OpAccept wall prelude) t)"
proof (cases "case ip_http prelude of Some h \<Rightarrow> hm_sni h \<noteq> None | None \<Rightarrow> False")
  case True
  let ?e = "\<lparr>en_id = in_next_id t, en_time_ms = wall, en_method = None, en_path = None, en_status = None,
         en_duration_ms = None, en_peer = Some (ip_peer prelude), en_host = prelude_host prelude\<rparr>"
  note f = pending_fresh [OF assms]
  have n: "in_next_id s = in_next_id t" using assms(1) by (simp add: ring_of_def)
  show ?thesis
    using True f n
    by (intro ring_push [OF assms, of ?e _ _ None])
       (auto simp: record_accept_def flush_pending_accept_locked_def log_push_def evict_def Let_def fun_eq_iff)
next
  case False
  then show ?thesis using assms(1) by (simp add: record_accept_def ring_of_def)
qed

lemma ring_request:
  assumes "ring_of s t" "log_ids t" "length (in_entries t) < 2 ^ 64"
  shows "ring_of (insp_step (OpRequest wall now method path) s) (log_step (OpRequest wall now method path) t)"
proof -
  let ?e = "\<lparr>en_id = in_next_id t, en_time_ms = wall, en_method = method, en_path = path, en_status = None,
        en_duration_ms = None, en_peer = map_option pa_peer (in_pending_accept t),
        en_host = (case in_pending_accept t of Some p \<Rightarrow> pa_host p | None \<Rightarrow> None)\<rparr>"
  have n: "in_next_id s = in_next_id t" "in_pending_accept s = in_pending_accept t" using assms(1) by (simp_all add: ring_of_def)
  have d: "distinct (map en_id (in_entries s))" "in_next_id t \<notin> en_id ` set (in_entries s)"
    using ring_ids [OF assms] n by simp_all
  have h: "en_id (hd (in_entries s)) \<noteq> in_next_id t" if "length (in_entries s) = HISTORY_CAP"
    using d(2) that by (cases "in_entries s") (auto simp: HISTORY_CAP_def)
  have keep: "i \<noteq> in_next_id t \<and> (length (in_entries s) = HISTORY_CAP \<longrightarrow> i \<noteq> en_id (hd (in_entries s)))"
    if i: "i \<in> en_id ` set (evict (in_entries s))" for i
  proof -
    obtain x where x: "x \<in> set (evict (in_entries s))" "i = en_id x" using i by blast
    then show ?thesis using d evict_mem [OF x(1), of en_id] by (metis imageI)
  qed
  show ?thesis
    by (rule ring_push [OF assms, of ?e _ _ "Some now"])
       (use n h keep in \<open>auto simp: record_request_def log_push_def evict_def Let_def split: option.splits if_splits\<close>)
qed

lemma ring_response:
  assumes "ring_of s t" "log_ids t" "length (in_entries t) < 2 ^ 64"
  shows "ring_of (insp_step (OpResponse now i status) s) (log_step (OpResponse now i status) t)"
proof -
  note r = assms(1) [unfolded ring_of_def]
  let ?f = "\<lambda>st e. if en_id e = i then attach now status st e else e"
  have "update_first (\<lambda>e. en_id e = i) (attach now status (in_pending_start s i)) (in_entries s) =
      map (?f (in_pending_start s i)) (in_entries s)"
    by (rule update_first_distinct [OF ring_ids(1) [OF assms]])
  also have "\<dots> = map (?f (in_pending_start t i)) (in_entries s)" using r by (intro map_cong) auto
  finally have "in_entries (insp_step (OpResponse now i status) s) = lastn HISTORY_CAP (in_entries (log_step (OpResponse now i status) t))"
    using r by (simp add: record_response_def lastn_map)
  moreover have "en_id ` ?f st ` A = en_id ` A" for st A
    by (simp only: image_image if_distrib [of en_id] attach_id if_cancel)
  ultimately show ?thesis using r by (auto simp: ring_of_def record_response_def lastn_map)
qed

lemma run_ring:
  "length ops < 2 ^ 64 \<Longrightarrow>
    ring_of (insp_run ops) (log_run ops) \<and> log_ids (log_run ops) \<and> length (in_entries (log_run ops)) \<le> length ops"
proof (induction ops rule: rev_induct)
  case Nil
  then show ?case by (simp add: insp_run_def log_run_def inspector_new_def ring_of_def log_ids_def lastn_def)
next
  case (snoc op ops)
  let ?s = "insp_run ops" and ?t = "log_run ops"
  have ih: "ring_of ?s ?t" "log_ids ?t" "length (in_entries ?t) \<le> length ops" using snoc by simp_all
  then have "length (in_entries ?t) < 2 ^ 64" using snoc.prems by simp
  then have "ring_of (insp_step op ?s) (log_step op ?t)"
    using ih ring_accept ring_request ring_response by (cases op) (simp_all only:)
  moreover have "length (in_entries (log_step op ?t)) \<le> Suc (length ops)" using log_step_length [of op ?t] ih(3) by simp
  ultimately show ?case using log_step_ids [OF ih(2), of op] by (simp add: insp_run_def log_run_def)
qed

section \<open>Properties\<close>

text \<open>
  C37: the inspector shows the last requests, newest first. After any history of accepts,
  requests and responses, the snapshot is the newest two hundred entries of the log that
  keeps every entry and attaches each response to the request it names.
\<close>

theorem snapshot_is_log_end:
  assumes "length ops < 2 ^ 64"
  shows "snapshot (insp_run ops) = take HISTORY_CAP (rev (in_entries (log_run ops))) \<and>
    length (snapshot (insp_run ops)) = min HISTORY_CAP (length (in_entries (log_run ops)))"
  using run_ring [OF assms] by (simp add: snapshot_def ring_of_def lastn_def rev_drop min_def)

theorem snapshot_is_log_end_witness:
  "snapshot (insp_run [OpRequest 5 1 (Some ''GET'') None, OpResponse 9 1 200]) =
    [\<lparr>en_id = 1, en_time_ms = 5, en_method = Some ''GET'', en_path = None, en_status = Some 200, en_duration_ms = Some 8,
      en_peer = None, en_host = None\<rparr>]"
  using snapshot_is_log_end [of "[OpRequest 5 1 (Some ''GET'') None, OpResponse 9 1 200]"]
  by (simp add: log_run_def inspector_new_def log_push_def attach_def HISTORY_CAP_def)

text \<open>
  The start time of a request that a pass-through accept pushes out of the full ring is
  never dropped: it stays in the table although no entry can use it.
\<close>

theorem flush_keeps_start:
  assumes "in_entries st = e # es" "length (in_entries st) = HISTORY_CAP" "distinct (map en_id (in_entries st))"
    and "in_pending_start st (en_id e) = Some t" "in_next_id st \<noteq> en_id e" "ip_http prelude = Some h" "hm_sni h = Some n"
  shows "in_pending_start (record_accept wall prelude st) (en_id e) = Some t \<and>
    en_id e \<notin> en_id ` set (in_entries (record_accept wall prelude st))"
  using assms by (auto simp: record_accept_def flush_pending_accept_locked_def Let_def)

end
