(* ===== verification/Proxy.thy ===== *)
theory Proxy
  imports Local_Auth Inspector
begin

text \<open>
  The client's side of a data stream (\<^verbatim>\<open>krot-client/src/proxy.rs\<close>): the stream header, the
  inspection prelude, the visitor authentication on the buffered request, the inspector's
  peeks, and the hand-over to the byte relay. The state holds the stream from the server, the
  socket of the local service, what has been written to either side, the inspector and the
  session table. Clock readings, the outcome of the dial, how many writes succeed, and the
  packages httparse and postcard are parameters. The relay itself is tokio's.
\<close>

section \<open>Errors\<close>

datatype ClientError =
    CE_Io string
  | CE_Transport TransportError
  | CE_QuinnWrite string
  | CE_QuinnConnect string
  | CE_QuinnConnection string
  | CE_Rustls string
  | CE_Config string
  | CE_BadFingerprint
  | CE_BadServerAddr string
  | CE_EnrollRejected ErrorCode
  | CE_AuthRejected ErrorCode
  | CE_TunnelRejected ErrorCode string
  | CE_RegistrationTimeout
  | CE_Protocol string

text \<open>A task ends with an error or panics.\<close>

datatype Fault = Err ClientError | Panic string

section \<open>Reads of the stream\<close>

definition INSPECT_HEADER_CAP :: nat where "INSPECT_HEADER_CAP = 8 * 1024"

text \<open>
  A read that reports a failed stream as its end, for the loops of \<^verbatim>\<open>read_exact\<close> and
  \<^verbatim>\<open>read_frame\<close>; \<^verbatim>\<open>stream_fault\<close> puts the error back in place of the unexpected end.
\<close>

definition quiet_read :: "nat \<Rightarrow> Sock \<Rightarrow> bytes Poll \<times> Sock" where
  "quiet_read n s =
    (case sock_read n s of
       (Pending, s) \<Rightarrow> (Pending, s)
     | (Ready (Inl e), s) \<Rightarrow> (Ready [], s)
     | (Ready (Inr b), s) \<Rightarrow> (Ready b, s))"

definition stream_fault :: "TransportError \<Rightarrow> Sock \<Rightarrow> TransportError" where
  "stream_fault e s =
    (case (e, sk_error s) of (UnexpectedEof, Some m) \<Rightarrow> Io m | _ \<Rightarrow> e)"

function find_blank_line :: "nat \<Rightarrow> bytes \<Rightarrow> nat option" where
  "find_blank_line i buf =
    (if length buf < i + 4 then None
     else if take 4 (drop i buf) = [13, 10, 13, 10] then Some i
     else find_blank_line (i + 1) buf)"
  by pat_completeness auto
termination by (relation "measure (\<lambda>(i, buf). length buf - i)") auto

declare find_blank_line.simps [simp del]

definition peek_first_byte :: "Sock \<Rightarrow> (Fault, bytes \<times> u8 option) result Poll \<times> Sock" where
  "peek_first_byte s =
    (case sock_read 1024 s of
       (Pending, s) \<Rightarrow> (Pending, s)
     | (Ready (Inl e), s) \<Rightarrow> (Ready (Inl (Err (CE_Transport (Io e)))), s)
     | (Ready (Inr b), s) \<Rightarrow> (Ready (Inr (if b = [] then ([], None) else (b, Some (hd b)))), s))"

function peek_until_headers :: "bytes \<Rightarrow> nat \<Rightarrow> Sock \<Rightarrow> (Fault, bytes \<times> nat option) result Poll \<times> Sock" where
  "peek_until_headers buf cap s =
    (case find_blank_line 0 buf of
       Some pos \<Rightarrow> (Ready (Inr (buf, Some (pos + 4))), s)
     | None \<Rightarrow>
        if cap \<le> length buf then (Ready (Inr (buf, None)), s)
        else case sock_read 1024 s of
          (Pending, s) \<Rightarrow> (Pending, s)
        | (Ready (Inl e), s) \<Rightarrow> (Ready (Inl (Err (CE_Transport (Io e)))), s)
        | (Ready (Inr b), s) \<Rightarrow>
            if b = [] then (Ready (Inr (buf, None)), s) else peek_until_headers (buf @ b) cap s)"
  by pat_completeness auto
termination by (relation "measure (\<lambda>(buf, cap, s). cap - length buf)") (auto simp: neq_Nil_conv)

declare peek_until_headers.simps [simp del]

function read_exact_into :: "bytes \<Rightarrow> nat \<Rightarrow> Sock \<Rightarrow> (Fault, bytes) result Poll \<times> Sock" where
  "read_exact_into buf target s =
    (if target \<le> length buf then (Ready (Inr buf), s)
     else case sock_read 1024 s of
       (Pending, s) \<Rightarrow> (Pending, s)
     | (Ready (Inl e), s) \<Rightarrow> (Ready (Inl (Err (CE_Transport (Io e)))), s)
     | (Ready (Inr b), s) \<Rightarrow>
         if b = [] then (Ready (Inr buf), s)
         else read_exact_into (buf @ take (min (length b) (target - length buf)) b) target s)"
  by pat_completeness auto
termination by (relation "measure (\<lambda>(buf, target, s). target - length buf)") (auto simp: neq_Nil_conv)

declare read_exact_into.simps [simp del]

text \<open>The reading loop that \<^verbatim>\<open>peek_request\<close> and \<^verbatim>\<open>peek_response\<close> share; \<^verbatim>\<open>fault\<close> wraps an error.\<close>

function peek_loop :: "(string \<Rightarrow> ClientError) \<Rightarrow> bytes \<Rightarrow> Sock \<Rightarrow> (Fault, bytes) result Poll \<times> Sock" where
  "peek_loop fault buf s =
    (case sock_read 1024 s of
       (Pending, s) \<Rightarrow> (Pending, s)
     | (Ready (Inl e), s) \<Rightarrow> (Ready (Inl (Err (fault e))), s)
     | (Ready (Inr b), s) \<Rightarrow>
        (if b = [] then (Ready (Inr buf), s)
         else let buf = buf @ b
           in if has_blank_line buf then (Ready (Inr buf), s)
              else if INSPECT_HEADER_CAP < length buf then (Ready (Inr buf), s)
              else peek_loop fault buf s))"
  by pat_completeness auto
termination by (relation "measure (\<lambda>(f, buf, s). INSPECT_HEADER_CAP + 1 - length buf)") (auto simp: neq_Nil_conv)

declare peek_loop.simps [simp del]


section \<open>The proxy's state\<close>

record ProxyEnv =
  pe_parse :: "bytes \<Rightarrow> HttpHead option"
  pe_parse_response :: "bytes \<Rightarrow> u16 option"
  pe_de_prelude :: "bytes \<Rightarrow> (string, InspectionPrelude) result"
  pe_connect :: "(string, Sock) result"
  pe_wall :: nat
  pe_request_at :: nat
  pe_response_at :: nat
  pe_auth_at :: nat
  pe_raw :: bytes

record ProxyState =
  px_recv :: Sock
  px_local :: "Sock option"
  px_to_local :: bytes
  px_to_server :: bytes
  px_local_writes :: nat
  px_server_writes :: nat
  px_finished :: bool
  px_inspector :: "InspState option"
  px_store :: SessionStore

datatype ProxyEnd = Intercepted | Relaying

type_synonym 'a proxy = "ProxyState \<Rightarrow> (Fault, 'a) result Poll \<times> ProxyState"

definition px_ret :: "'a \<Rightarrow> 'a proxy" where
  "px_ret x st = (Ready (Inr x), st)"

definition px_fail :: "Fault \<Rightarrow> 'a proxy" where
  "px_fail e st = (Ready (Inl e), st)"

definition px_bind :: "'a proxy \<Rightarrow> ('a \<Rightarrow> 'b proxy) \<Rightarrow> 'b proxy" where
  "px_bind m k st =
    (case m st of
       (Pending, st) \<Rightarrow> (Pending, st)
     | (Ready (Inl e), st) \<Rightarrow> (Ready (Inl e), st)
     | (Ready (Inr x), st) \<Rightarrow> k x st)"

definition px_update :: "(ProxyState \<Rightarrow> ProxyState) \<Rightarrow> unit proxy" where
  "px_update f st = (Ready (Inr ()), f st)"

definition on_recv :: "(Sock \<Rightarrow> (Fault, 'a) result Poll \<times> Sock) \<Rightarrow> 'a proxy" where
  "on_recv m st = (let (r, s) = m (px_recv st) in (r, st\<lparr>px_recv := s\<rparr>))"

definition on_local :: "(Sock \<Rightarrow> (Fault, 'a) result Poll \<times> Sock) \<Rightarrow> 'a proxy" where
  "on_local m st =
    (case px_local st of
       None \<Rightarrow> (Ready (Inl (Panic ''not connected'')), st)
     | Some s \<Rightarrow> let (r, s) = m s in (r, st\<lparr>px_local := Some s\<rparr>))"

text \<open>\<^verbatim>\<open>write_all\<close> on either side; the counters say how many more of them succeed.\<close>

definition write_local :: "bytes \<Rightarrow> unit proxy" where
  "write_local bs st =
    (case px_local_writes st of
       0 \<Rightarrow> (Ready (Inl (Err (CE_Io ''write''))), st)
     | Suc n \<Rightarrow> (Ready (Inr ()), st\<lparr>px_local_writes := n, px_to_local := px_to_local st @ bs\<rparr>))"

definition write_server :: "bytes \<Rightarrow> unit proxy" where
  "write_server bs st =
    (case px_server_writes st of
       0 \<Rightarrow> (Ready (Inl (Err (CE_Io ''write''))), st)
     | Suc n \<Rightarrow> (Ready (Inr ()), st\<lparr>px_server_writes := n, px_to_server := px_to_server st @ bs\<rparr>))"

definition stream_exact :: "nat \<Rightarrow> Sock \<Rightarrow> (Fault, bytes) result Poll \<times> Sock" where
  "stream_exact n s =
    (case read_exact quiet_read n s of
       (Pending, s) \<Rightarrow> (Pending, s)
     | (Ready (Inl e), s) \<Rightarrow> (Ready (Inl (Err (CE_Transport (stream_fault e s)))), s)
     | (Ready (Inr b), s) \<Rightarrow> (Ready (Inr b), s))"

definition stream_frame :: "(bytes \<Rightarrow> (string, 'a) result) \<Rightarrow> Sock \<Rightarrow> (Fault, 'a) result Poll \<times> Sock" where
  "stream_frame de s =
    (case read_frame quiet_read de s of
       (Pending, s) \<Rightarrow> (Pending, s)
     | (Ready (Inl e), s) \<Rightarrow> (Ready (Inl (Err (CE_Transport (stream_fault e s)))), s)
     | (Ready (Inr b), s) \<Rightarrow> (Ready (Inr b), s))"

definition insp_request :: "ProxyEnv \<Rightarrow> string option \<Rightarrow> string option \<Rightarrow> EntryId option proxy" where
  "insp_request env method path st =
    (case px_inspector st of
       None \<Rightarrow> (Ready (Inr None), st)
     | Some i \<Rightarrow>
        let (e, i) = record_request (pe_wall env) (pe_request_at env) method path i
        in (Ready (Inr (Some e)), st\<lparr>px_inspector := Some i\<rparr>))"

definition insp_response :: "ProxyEnv \<Rightarrow> EntryId option \<Rightarrow> u16 option \<Rightarrow> unit proxy" where
  "insp_response env e status =
    (case (e, status) of
       (Some e, Some s) \<Rightarrow>
         px_update (\<lambda>st. st\<lparr>px_inspector := map_option (record_response (pe_response_at env) e s) (px_inspector st)\<rparr>)
     | _ \<Rightarrow> px_ret ())"

definition insp_accept :: "ProxyEnv \<Rightarrow> InspectionPrelude option \<Rightarrow> unit proxy" where
  "insp_accept env prelude =
    (case prelude of
       None \<Rightarrow> px_ret ()
     | Some p \<Rightarrow> px_update (\<lambda>st. st\<lparr>px_inspector := map_option (record_accept (pe_wall env) p) (px_inspector st)\<rparr>))"

section \<open>Responses and status lines\<close>

text \<open>\<^verbatim>\<open>chars().take(n)\<close>.\<close>

fun take_chars :: "nat \<Rightarrow> string \<Rightarrow> string" where
  "take_chars 0 s = []"
| "take_chars (Suc n) s =
    (let k = max 1 (utf8_len (as_bytes s)) in take k s @ take_chars n (drop k s))"

definition parse_status_line :: "bytes \<Rightarrow> u16 option" where
  "parse_status_line bytes =
    (case from_utf8 (take (min 64 (length bytes)) bytes) of
       None \<Rightarrow> None
     | Some s \<Rightarrow>
        (case split_once CHR '' '' s of
           None \<Rightarrow> None
         | Some (_, rest) \<Rightarrow> map_option of_nat (parse_uint 16 (take_chars 3 rest))))"

definition bad_request_response :: bytes where
  "bad_request_response =
    (let body = as_bytes ''Bad Request''
     in as_bytes (''HTTP/1.1 400 Bad Request'' @ crlf @
          ''Content-Type: text/plain'' @ crlf @
          ''Content-Length: '' @ show_nat (length body) @ crlf @
          ''Connection: close'' @ crlf @ crlf) @ body)"

section \<open>The decision on a buffered request\<close>

definition login_content_length :: "HttpHead \<Rightarrow> nat" where
  "login_content_length head =
    min LOGIN_BODY_CAP
      (case List.find (\<lambda>(name, _). eq_ignore_ascii_case name ''content-length'') (hh_headers head) of
         None \<Rightarrow> 0
       | Some (_, val) \<Rightarrow>
          (case from_utf8 val of
             None \<Rightarrow> 0
           | Some s \<Rightarrow> (case parse_uint 64 (trim s) of None \<Rightarrow> 0 | Some n \<Rightarrow> n)))"

definition action_response :: "SessionAction \<Rightarrow> bytes option" where
  "action_response action =
    (case action of
       Forward \<Rightarrow> None
     | ServeLoginPage next error \<Rightarrow> Some (http_html_response (render_login_page next error))
     | Redirect location set_cookie \<Rightarrow> Some (http_redirect location set_cookie))"

definition decide_in_state ::
  "ProxyEnv \<Rightarrow> AuthPolicy \<Rightarrow> string \<Rightarrow> string \<Rightarrow> HttpHead \<Rightarrow> bytes \<Rightarrow> bytes \<Rightarrow> (bytes option \<times> bytes) proxy" where
  "decide_in_state env policy method path head body buffered st =
    (let (action, store) = decide_session policy (pe_auth_at env) (pe_raw env) method path (hh_headers head) body (px_store st)
     in (Ready (Inr (action_response action, buffered)), st\<lparr>px_store := store\<rparr>))"

definition decide_auth_response ::
  "ProxyEnv \<Rightarrow> AuthConfig \<Rightarrow> bytes \<Rightarrow> nat option \<Rightarrow> (bytes option \<times> bytes) proxy" where
  "decide_auth_response env cfg buffered headers_end =
    (case headers_end of
       None \<Rightarrow> px_ret (Some bad_request_response, buffered)
     | Some complete_at \<Rightarrow>
        (case pe_parse env (take complete_at buffered) of
           None \<Rightarrow> px_ret (Some bad_request_response, buffered)
         | Some head \<Rightarrow>
            let method = (case hh_method head of Some m \<Rightarrow> m | None \<Rightarrow> []);
                path = (case hh_path head of Some p \<Rightarrow> p | None \<Rightarrow> ''/'')
            in case ac_policy cfg of
              PolicyApiKey key \<Rightarrow>
                (case policy_check_api_key (ac_policy cfg) (hh_headers head) of
                   Inl panic \<Rightarrow> px_fail (Panic panic)
                 | Inr outcome \<Rightarrow> px_ret (if outcome = KeyOk then None else Some api_key_reject_response, buffered))
            | PolicySession user pass \<Rightarrow>
                if eq_ignore_ascii_case method ''POST'' \<and> hd (split_on CHR ''?'' path) = LOGIN_PATH then
                  px_bind (on_recv (read_exact_into buffered (complete_at + login_content_length head)))
                    (\<lambda>buffered. decide_in_state env (ac_policy cfg) method path head
                      (drop complete_at (take (min (complete_at + login_content_length head) (length buffered)) buffered)) buffered)
                else decide_in_state env (ac_policy cfg) method path head [] buffered))"

section \<open>One data stream\<close>

text \<open>
  What the authentication phase hands on: the bytes buffered so far, the inspector's entry,
  and whether the request was answered here.
\<close>

definition note_request :: "ProxyEnv \<Rightarrow> bytes \<Rightarrow> nat option \<Rightarrow> EntryId option proxy" where
  "note_request env buf headers_end =
    (case headers_end of
       None \<Rightarrow> px_ret None
     | Some end_at \<Rightarrow>
        (case pe_parse env (take end_at buf) of
           None \<Rightarrow> px_ret None
         | Some head \<Rightarrow> insp_request env (hh_method head) (hh_path head)))"

definition answer :: "ProxyEnv \<Rightarrow> EntryId option \<Rightarrow> bytes \<Rightarrow> unit proxy" where
  "answer env pending bytes =
    px_bind (insp_response env pending (parse_status_line bytes)) (\<lambda>_.
      px_bind (write_server bytes) (\<lambda>_. px_update (\<lambda>st. st\<lparr>px_finished := True\<rparr>)))"

definition auth_request :: "ProxyEnv \<Rightarrow> AuthConfig \<Rightarrow> bytes \<Rightarrow> nat option \<Rightarrow> (bytes \<times> EntryId option \<times> bool) proxy" where
  "auth_request env cfg buf headers_end =
    px_bind (note_request env buf headers_end) (\<lambda>pending.
      px_bind (decide_auth_response env cfg buf headers_end) (\<lambda>(response, buf).
        case response of
          None \<Rightarrow> px_ret (buf, pending, False)
        | Some bytes \<Rightarrow> px_bind (answer env pending bytes) (\<lambda>_. px_ret (buf, pending, True))))"

definition auth_phase :: "ProxyEnv \<Rightarrow> AuthConfig \<Rightarrow> (bytes \<times> EntryId option \<times> bool) proxy" where
  "auth_phase env cfg =
    px_bind (on_recv peek_first_byte) (\<lambda>(buf, first_byte).
      if (case first_byte of Some b \<Rightarrow> looks_like_tls b | None \<Rightarrow> False) then px_ret (buf, None, False)
      else px_bind (on_recv (peek_until_headers buf INSPECT_HEADER_CAP)) (\<lambda>(buf, headers_end).
        auth_request env cfg buf headers_end))"

definition peek_request :: "ProxyEnv \<Rightarrow> (bytes \<times> string option \<times> string option) proxy" where
  "peek_request env =
    px_bind (on_recv (peek_loop (\<lambda>e. CE_Transport (Io e)) [])) (\<lambda>buf.
      px_ret (case pe_parse env buf of
          None \<Rightarrow> (buf, None, None)
        | Some head \<Rightarrow> (buf, hh_method head, hh_path head)))"

definition peek_response :: "ProxyEnv \<Rightarrow> (bytes \<times> u16 option) proxy" where
  "peek_response env = px_bind (on_local (peek_loop CE_Io [])) (\<lambda>buf. px_ret (buf, pe_parse_response env buf))"

definition inspect_response :: "ProxyEnv \<Rightarrow> EntryId option \<Rightarrow> unit proxy" where
  "inspect_response env entry =
    px_bind (peek_response env) (\<lambda>(buf, status).
      px_bind (insp_response env entry status) (\<lambda>_. write_server buf))"

definition dial :: "ProxyEnv \<Rightarrow> unit proxy" where
  "dial env st =
    (case pe_connect env of
       Inl e \<Rightarrow> (Ready (Inl (Err (CE_Io e))), st)
     | Inr s \<Rightarrow> (Ready (Inr ()), st\<lparr>px_local := Some s\<rparr>))"

definition forward_phase ::
  "ProxyEnv \<Rightarrow> StreamKind \<Rightarrow> InspectionPrelude option \<Rightarrow> bytes \<Rightarrow> EntryId option \<Rightarrow> ProxyEnd proxy" where
  "forward_phase env kind prelude buffered pending =
    px_bind (dial env) (\<lambda>_.
      px_bind (if buffered = [] then px_ret () else write_local buffered) (\<lambda>_.
        px_bind (insp_accept env prelude) (\<lambda>_.
          px_bind
            (\<lambda>st. (if kind = DataHttp \<and> px_inspector st \<noteq> None then
                (if pending \<noteq> None then inspect_response env pending
                 else if buffered = [] then
                   px_bind (peek_request env) (\<lambda>(req_buf, method, path).
                     px_bind (insp_request env method path) (\<lambda>entry.
                       px_bind (write_local req_buf) (\<lambda>_. inspect_response env entry)))
                 else px_ret ())
              else px_ret ()) st) (\<lambda>_. px_ret Relaying))))"

definition stream_phase :: "ProxyEnv \<Rightarrow> StreamKind \<Rightarrow> InspectionPrelude option \<Rightarrow> AuthConfig option \<Rightarrow> ProxyEnd proxy" where
  "stream_phase env kind prelude auth =
    px_bind
      (case auth of
         Some cfg \<Rightarrow> if kind = DataHttp then auth_phase env cfg else px_ret ([], None, False)
       | None \<Rightarrow> px_ret ([], None, False))
      (\<lambda>(buffered, pending, answered).
        if answered then px_ret Intercepted else forward_phase env kind prelude buffered pending)"

definition handle_bi_inspected ::
  "ProxyEnv \<Rightarrow> TunnelId \<Rightarrow> bool \<Rightarrow> AuthConfig option \<Rightarrow> ProxyEnd proxy" where
  "handle_bi_inspected env expected_tunnel inspect auth =
    px_bind (on_recv (stream_exact DATA_HEADER_SIZE)) (\<lambda>header_buf.
      case DataHeader_decode header_buf of
        Inl _ \<Rightarrow> px_fail (Err (CE_Protocol ''bad DataHeader from server''))
      | Inr header \<Rightarrow>
          if dh_kind header \<noteq> DataTcp \<and> dh_kind header \<noteq> DataHttp then
            px_fail (Err (CE_Protocol ''unexpected data-stream kind''))
          else if dh_tunnel_id header \<noteq> expected_tunnel then
            px_fail (Err (CE_Protocol ''wrong tunnel id on data stream''))
          else
            px_bind
              (if inspect then px_bind (on_recv (stream_frame (pe_de_prelude env))) (\<lambda>p. px_ret (Some p)) else px_ret None)
              (\<lambda>prelude. stream_phase env (dh_kind header) prelude auth))"

definition handle_bi :: "ProxyEnv \<Rightarrow> TunnelId \<Rightarrow> ProxyState \<Rightarrow> (Fault, ProxyEnd) result Poll \<times> ProxyState" where
  "handle_bi env expected_tunnel st =
    handle_bi_inspected env expected_tunnel False None (st\<lparr>px_inspector := None\<rparr>)"


section \<open>Facts\<close>

lemma px_bind_Inr:
  assumes "px_bind m k st = (Ready (Inr y), st')"
  obtains x st1 where "m st = (Ready (Inr x), st1)" "k x st1 = (Ready (Inr y), st')"
  using assms by (auto simp: px_bind_def split: prod.splits Poll.splits sum.splits)

lemma on_recv_Inr:
  assumes "on_recv m st = (Ready (Inr x), st')"
  obtains s where "m (px_recv st) = (Ready (Inr x), s)" "st' = st\<lparr>px_recv := s\<rparr>"
  using assms by (auto simp: on_recv_def Let_def split: prod.splits)

lemma on_local_Inr:
  assumes "on_local m st = (Ready (Inr x), st')"
  obtains l s where "px_local st = Some l" "m l = (Ready (Inr x), s)" "st' = st\<lparr>px_local := Some s\<rparr>"
  using assms by (auto simp: on_local_def Let_def split: prod.splits option.splits)

lemma write_local_Inr:
  "write_local bs st = (Ready (Inr x), st') \<Longrightarrow> \<exists>n. st' = st\<lparr>px_local_writes := n, px_to_local := px_to_local st @ bs\<rparr>"
  by (auto simp: write_local_def split: nat.splits)

lemma write_server_Inr:
  "write_server bs st = (Ready (Inr x), st') \<Longrightarrow> \<exists>n. st' = st\<lparr>px_server_writes := n, px_to_server := px_to_server st @ bs\<rparr>"
  by (auto simp: write_server_def split: nat.splits)

text \<open>The steps that touch the inspector alone.\<close>

definition same_io :: "ProxyState \<Rightarrow> ProxyState \<Rightarrow> bool" where
  "same_io st st' \<longleftrightarrow> px_recv st' = px_recv st \<and> px_local st' = px_local st \<and> px_to_local st' = px_to_local st \<and>
    px_to_server st' = px_to_server st \<and> px_store st' = px_store st"

lemma insp_request_same: "insp_request env m p st = (r, st') \<Longrightarrow> same_io st st' \<and> (\<exists>e. r = Ready (Inr e))"
  by (auto simp: insp_request_def same_io_def Let_def split: option.splits prod.splits)

lemma insp_response_same: "insp_response env e s st = (r, st') \<Longrightarrow> same_io st st' \<and> r = Ready (Inr ())"
  by (auto simp: insp_response_def same_io_def px_ret_def px_update_def split: option.splits)

lemma insp_accept_same: "insp_accept env p st = (r, st') \<Longrightarrow> same_io st st' \<and> r = Ready (Inr ())"
  by (auto simp: insp_accept_def same_io_def px_ret_def px_update_def split: option.splits)

text \<open>Nothing read is lost.\<close>

lemma peek_first_byte_keeps:
  "peek_first_byte s = (Ready (Inr (buf, first)), s') \<Longrightarrow> buf @ sock_data s' = sock_data s \<and> (first = Some b \<longrightarrow> buf \<noteq> [] \<and> hd buf = b)"
  by (auto simp: peek_first_byte_def split: prod.splits Poll.splits sum.splits if_splits dest!: sock_read_keeps)

lemma peek_until_headers_keeps:
  "peek_until_headers buf cap s = (Ready (Inr (buf', e)), s') \<Longrightarrow> buf' @ sock_data s' = buf @ sock_data s"
proof (induction buf cap s rule: peek_until_headers.induct)
  case (1 buf cap s)
  show ?case
  proof (cases "find_blank_line 0 buf = None \<and> length buf < cap")
    case False
    then show ?thesis using "1.prems" by (auto simp: peek_until_headers.simps [of buf] split: option.splits if_splits)
  next
    case True
    then obtain b s1 where r: "sock_read 1024 s = (Ready (Inr b), s1)"
      using "1.prems" by (auto simp: peek_until_headers.simps [of buf] split: prod.splits Poll.splits sum.splits)
    show ?thesis
      using "1.prems" True r sock_read_keeps [OF r] "1.IH" [OF _ _ r [symmetric] refl refl]
      by (auto simp: peek_until_headers.simps [of buf] split: if_splits)
  qed
qed

lemma peek_loop_keeps:
  "peek_loop fault buf s = (Ready (Inr buf'), s') \<Longrightarrow> buf' @ sock_data s' = buf @ sock_data s"
proof (induction fault buf s rule: peek_loop.induct)
  case (1 fault buf s)
  obtain b s1 where r: "sock_read 1024 s = (Ready (Inr b), s1)"
    using "1.prems" by (auto simp: peek_loop.simps [of fault buf] split: prod.splits Poll.splits sum.splits)
  show ?case
    using "1.prems" r sock_read_keeps [OF r] "1.IH" [OF r [symmetric] refl refl _ refl]
    by (auto simp: peek_loop.simps [of fault buf] Let_def split: if_splits)
qed

section \<open>The gate\<close>

definition visitor_request :: "ProxyEnv \<Rightarrow> HttpHead \<Rightarrow> bytes \<Rightarrow> VisitorRequest" where
  "visitor_request env head body =
    \<lparr>vr_now = pe_auth_at env, vr_raw = pe_raw env, vr_method = (case hh_method head of Some m \<Rightarrow> m | None \<Rightarrow> []),
     vr_path = (case hh_path head of Some p \<Rightarrow> p | None \<Rightarrow> ''/''), vr_headers = hh_headers head, vr_body = body\<rparr>"

definition request_allowed :: "ProxyEnv \<Rightarrow> AuthConfig \<Rightarrow> HttpHead \<Rightarrow> SessionStore \<Rightarrow> bool" where
  "request_allowed env cfg head store \<longleftrightarrow>
    (case ac_policy cfg of
       PolicyApiKey key \<Rightarrow> check_api_key key (hh_headers head) = Inr KeyOk
     | PolicySession user pass \<Rightarrow> fst (visit (PolicySession user pass) (visitor_request env head []) store) = Forward)"

lemma hd_split_on: "hd (split_on c s) = (case split_once c s of Some (a, _) \<Rightarrow> a | None \<Rightarrow> s)"
proof (induction s)
  case (Cons x xs)
  obtain y ys where "split_on c xs = y # ys" by (cases "split_on c xs") auto
  with Cons show ?case by (auto split: option.splits)
qed simp

lemma login_never_forwards:
  assumes "path_only (vr_path rq) = LOGIN_PATH"
  shows "fst (visit (PolicySession user pass) rq store) \<noteq> Forward"
  using assms visit_login_other [of rq user pass store] visit_login_ok [of user pass rq store]
  by (cases "logs_in user pass rq") auto

lemma decide_in_state_visit:
  "decide_in_state env policy (vr_method (visitor_request env head b)) (vr_path (visitor_request env head b)) head body buf st =
    (Ready (Inr (action_response (fst (visit policy (visitor_request env head body) (px_store st))), buf)),
     st\<lparr>px_store := snd (visit policy (visitor_request env head body) (px_store st))\<rparr>)"
  by (simp add: decide_in_state_def visit_def visitor_request_def Let_def split: prod.split)

lemma action_response_None: "action_response a = None \<longleftrightarrow> a = Forward"
  by (cases a) (simp_all add: action_response_def)

lemma decide_allows:
  assumes "decide_auth_response env cfg buf headers_end st = (Ready (Inr (None, buf')), st')"
  shows "buf' = buf \<and> px_recv st' = px_recv st \<and> (\<exists>at head. headers_end = Some at \<and> pe_parse env (take at buf) = Some head \<and>
    request_allowed env cfg head (px_store st))"
proof -
  obtain at head where h: "headers_end = Some at" "pe_parse env (take at buf) = Some head"
    using assms by (auto simp: decide_auth_response_def px_ret_def split: option.splits)
  let ?rq = "visitor_request env head"
  show ?thesis
  proof (cases "ac_policy cfg")
    case (PolicyApiKey key)
    then show ?thesis using assms h
      by (auto simp: decide_auth_response_def policy_check_api_key_def request_allowed_def px_ret_def px_fail_def Let_def
          split: sum.splits if_splits)
  next
    case (PolicySession user pass)
    let ?login = "eq_ignore_ascii_case (vr_method (?rq [])) ''POST'' \<and> path_only (vr_path (?rq [])) = LOGIN_PATH"
    have d: "decide_auth_response env cfg buf headers_end =
      (if ?login then px_bind (on_recv (read_exact_into buf (at + login_content_length head)))
          (\<lambda>b. decide_in_state env (PolicySession user pass) (vr_method (?rq [])) (vr_path (?rq [])) head
            (drop at (take (min (at + login_content_length head) (length b)) b)) b)
        else decide_in_state env (PolicySession user pass) (vr_method (?rq [])) (vr_path (?rq [])) head [] buf)"
      using h PolicySession by (simp add: decide_auth_response_def visitor_request_def path_only_def hd_split_on Let_def)
    have "\<not> ?login"
    proof
      assume l: ?login
      then obtain x st1 where "decide_in_state env (PolicySession user pass) (vr_method (?rq [])) (vr_path (?rq [])) head
          (drop at (take (min (at + login_content_length head) (length x)) x)) x st1 = (Ready (Inr (None, buf')), st')"
        using assms unfolding d by (auto elim!: px_bind_Inr)
      then have "fst (visit (PolicySession user pass)
          (?rq (drop at (take (min (at + login_content_length head) (length x)) x))) (px_store st1)) = Forward"
        unfolding decide_in_state_visit by (clarsimp simp: action_response_None)
      moreover have "path_only (vr_path (?rq b)) = LOGIN_PATH" for b using l by (simp add: visitor_request_def)
      ultimately show False using login_never_forwards by blast
    qed
    have "decide_in_state env (PolicySession user pass) (vr_method (?rq [])) (vr_path (?rq [])) head [] buf st = (Ready (Inr (None, buf')), st')"
      using assms unfolding d if_not_P [OF \<open>\<not> ?login\<close>] .
    then have "action_response (fst (visit (PolicySession user pass) (?rq []) (px_store st))) = None \<and> buf' = buf \<and> px_recv st' = px_recv st"
      unfolding decide_in_state_visit by auto
    then show ?thesis using h PolicySession by (simp add: request_allowed_def action_response_None)
  qed
qed

text \<open>Computations that neither dial nor write to the local service.\<close>

definition no_dial :: "'a proxy \<Rightarrow> bool" where
  "no_dial m \<longleftrightarrow> (\<forall>st. px_local (snd (m st)) = px_local st \<and> px_to_local (snd (m st)) = px_to_local st)"

named_theorems no_dial_rules \<open>computations that leave the local service alone\<close>

lemma no_dial_bind [no_dial_rules]: "no_dial m \<Longrightarrow> (\<And>x. no_dial (k x)) \<Longrightarrow> no_dial (px_bind m k)"
  by (auto simp: no_dial_def px_bind_def split: prod.split Poll.split sum.split) (metis snd_conv)+

lemma no_dial_basic [no_dial_rules]:
  "no_dial (px_ret x)" "no_dial (px_fail fault)" "no_dial (on_recv m)" "no_dial (write_server bs)"
  "no_dial (insp_request env me pa)" "no_dial (insp_response env e status)"
  "no_dial (decide_in_state env policy method path head body buf)" "no_dial (px_update (\<lambda>st. st\<lparr>px_finished := True\<rparr>))"
  by (auto simp: no_dial_def px_ret_def px_fail_def on_recv_def write_server_def insp_request_def insp_response_def
      decide_in_state_def px_update_def Let_def split: prod.split option.split nat.split)

lemma no_dial_decide [no_dial_rules]: "no_dial (decide_auth_response env cfg buf headers_end)"
  by (auto simp: decide_auth_response_def Let_def intro!: no_dial_rules split: option.split AuthPolicy.split sum.split)

lemma no_dial_auth [no_dial_rules]: "no_dial (auth_phase env cfg)"
  unfolding auth_phase_def auth_request_def note_request_def answer_def by (auto intro!: no_dial_rules split: option.split prod.split)

lemma px_bind_dials:
  assumes "px_bind m k st = (r, st')" "no_dial m" "px_local st = None" "px_local st' \<noteq> None"
  obtains x st1 where "m st = (Ready (Inr x), st1)" "k x st1 = (r, st')" "px_local st1 = None"
proof -
  have "px_local (snd (m st)) = None" using assms(2,3) by (simp add: no_dial_def)
  then show ?thesis using assms that
    by (auto simp: px_bind_def split: prod.splits Poll.splits sum.splits)
qed

lemma decide_keeps_server:
  "decide_auth_response env cfg buf he st = (Ready (Inr x), st') \<Longrightarrow> px_to_server st' = px_to_server st"
  by (auto simp: decide_auth_response_def decide_in_state_def px_ret_def px_fail_def Let_def
      split: option.splits AuthPolicy.splits sum.splits if_splits prod.splits elim!: px_bind_Inr on_recv_Inr)

lemma auth_request_passes:
  assumes "auth_request env cfg buf he st = (Ready (Inr (buf', pending, False)), st')"
  shows "buf' = buf \<and> px_recv st' = px_recv st \<and> px_to_server st' = px_to_server st \<and>
    (\<exists>at head. pe_parse env (take at buf) = Some head \<and> request_allowed env cfg head (px_store st))"
proof -
  obtain pend st1 where n: "note_request env buf he st = (Ready (Inr pend), st1)"
    and k: "px_bind (decide_auth_response env cfg buf he) (\<lambda>(response, buf).
        case response of
          None \<Rightarrow> px_ret (buf, pend, False)
        | Some bytes \<Rightarrow> px_bind (answer env pend bytes) (\<lambda>_. px_ret (buf, pend, True))) st1 = (Ready (Inr (buf', pending, False)), st')"
    using assms unfolding auth_request_def by (rule px_bind_Inr)
  have i: "same_io st st1"
    using n by (auto simp: note_request_def px_ret_def same_io_def split: option.splits dest!: insp_request_same)
  obtain resp buf2 where d: "decide_auth_response env cfg buf he st1 = (Ready (Inr (resp, buf2)), st')" "resp = None" "buf2 = buf'"
    using k by (rule px_bind_Inr) (auto simp: px_ret_def split: option.splits elim!: px_bind_Inr)
  then have "px_to_server st' = px_to_server st1" using d decide_keeps_server by blast
  then show ?thesis using decide_allows [OF d(1) [unfolded d(2,3)]] i by (auto simp: same_io_def)
qed

lemma auth_phase_passes:
  assumes "auth_phase env cfg st = (Ready (Inr (buf, pending, False)), st')"
  shows "buf @ sock_data (px_recv st') = sock_data (px_recv st) \<and> px_to_local st' = px_to_local st \<and>
    px_to_server st' = px_to_server st \<and>
    (buf \<noteq> [] \<and> looks_like_tls (hd buf) \<or>
     (\<exists>at head. pe_parse env (take at buf) = Some head \<and> request_allowed env cfg head (px_store st)))"
proof -
  have loc: "px_to_local st' = px_to_local st" using no_dial_auth [of env cfg] assms unfolding no_dial_def by (metis snd_conv)
  obtain buf1 first s1 where p: "peek_first_byte (px_recv st) = (Ready (Inr (buf1, first)), s1)"
    and k: "(if (case first of Some b \<Rightarrow> looks_like_tls b | None \<Rightarrow> False) then px_ret (buf1, None, False)
      else px_bind (on_recv (peek_until_headers buf1 INSPECT_HEADER_CAP)) (\<lambda>(buf, headers_end).
        auth_request env cfg buf headers_end)) (st\<lparr>px_recv := s1\<rparr>) = (Ready (Inr (buf, pending, False)), st')"
    using assms unfolding auth_phase_def by (auto elim!: px_bind_Inr on_recv_Inr)
  show ?thesis
  proof (cases "case first of Some b \<Rightarrow> looks_like_tls b | None \<Rightarrow> False")
    case True
    then obtain b where b: "first = Some b" "looks_like_tls b" by (auto split: option.splits)
    then have "buf = buf1" "st' = st\<lparr>px_recv := s1\<rparr>" using k by (auto simp: px_ret_def)
    then show ?thesis using b peek_first_byte_keeps [OF p, of b] by auto
  next
    case False
    obtain buf2 he s2 where u: "peek_until_headers buf1 INSPECT_HEADER_CAP s1 = (Ready (Inr (buf2, he)), s2)"
      and k2: "auth_request env cfg buf2 he (st\<lparr>px_recv := s2\<rparr>) = (Ready (Inr (buf, pending, False)), st')"
      using k unfolding if_not_P [OF False] by (auto elim!: px_bind_Inr on_recv_Inr)
    show ?thesis
      using auth_request_passes [OF k2] peek_until_headers_keeps [OF u] peek_first_byte_keeps [OF p] loc by simp
  qed
qed


section \<open>Forwarding\<close>

text \<open>What has gone to the local service with what is still to come, and the same for the way back.\<close>

definition to_service :: "ProxyState \<Rightarrow> bytes" where
  "to_service st = px_to_local st @ sock_data (px_recv st)"

definition to_visitor :: "ProxyState \<Rightarrow> bytes" where
  "to_visitor st = px_to_server st @ (case px_local st of Some l \<Rightarrow> sock_data l | None \<Rightarrow> [])"

lemma same_io_flows:
  "same_io st st' \<Longrightarrow> to_service st' = to_service st \<and> to_visitor st' = to_visitor st \<and> px_local st' = px_local st \<and>
    px_to_local st' = px_to_local st \<and> px_recv st' = px_recv st"
  by (simp add: same_io_def to_service_def to_visitor_def)

lemma inspect_response_flows:
  assumes "inspect_response env e st = (Ready (Inr x), st')"
  shows "to_service st' = to_service st \<and> to_visitor st' = to_visitor st \<and> px_local st' \<noteq> None"
proof -
  obtain buf status st1 st2 where p: "peek_response env st = (Ready (Inr (buf, status)), st1)"
    and i: "insp_response env e status st1 = (Ready (Inr ()), st2)" and w: "write_server buf st2 = (Ready (Inr x), st')"
    using assms unfolding inspect_response_def by (auto elim!: px_bind_Inr)
  obtain l l' where l: "px_local st = Some l" "peek_loop CE_Io [] l = (Ready (Inr buf), l')" "st1 = st\<lparr>px_local := Some l'\<rparr>"
    using p unfolding peek_response_def by (auto simp: px_ret_def elim!: px_bind_Inr on_local_Inr)
  have "same_io st1 st2" using insp_response_same [OF i] by simp
  then show ?thesis
    using write_server_Inr [OF w] peek_loop_keeps [OF l(2)] l(1,3) by (auto simp: same_io_def to_service_def to_visitor_def)
qed

lemma forward_phase_flows:
  assumes "forward_phase env kind prelude buffered pending st = (Ready (Inr e), st')"
  shows "e = Relaying \<and> to_service st' = px_to_local st @ buffered @ sock_data (px_recv st) \<and>
    (\<exists>l. pe_connect env = Inr l \<and> to_visitor st' = px_to_server st @ sock_data l \<and> px_local st' \<noteq> None)"
proof -
  let ?peek = "\<lambda>st. (if kind = DataHttp \<and> px_inspector st \<noteq> None then
                (if pending \<noteq> None then inspect_response env pending
                 else if buffered = [] then
                   px_bind (peek_request env) (\<lambda>(req_buf, method, path).
                     px_bind (insp_request env method path) (\<lambda>entry.
                       px_bind (write_local req_buf) (\<lambda>_. inspect_response env entry)))
                 else px_ret ())
              else px_ret ()) st"
  obtain st1 st2 st3 where d: "dial env st = (Ready (Inr ()), st1)"
    and w: "(if buffered = [] then px_ret () else write_local buffered) st1 = (Ready (Inr ()), st2)"
    and a: "insp_accept env prelude st2 = (Ready (Inr ()), st3)"
    and k: "?peek st3 = (Ready (Inr ()), st')" and e: "e = Relaying"
    using assms unfolding forward_phase_def by (auto simp: px_ret_def [of Relaying] elim!: px_bind_Inr)
  obtain l where l: "pe_connect env = Inr l" "st1 = st\<lparr>px_local := Some l\<rparr>"
    using d by (auto simp: dial_def split: sum.splits)
  have s2: "to_service st2 = px_to_local st @ buffered @ sock_data (px_recv st)" "to_visitor st2 = px_to_server st @ sock_data l"
    "px_local st2 = Some l"
    using w l(2) by (auto simp: px_ret_def to_service_def to_visitor_def split: if_splits dest!: write_local_Inr)
  have "same_io st2 st3" using insp_accept_same [OF a] by simp
  note s3 = same_io_flows [OF this]
  have "to_service st' = to_service st3 \<and> to_visitor st' = to_visitor st3 \<and> px_local st' \<noteq> None"
  proof (cases "kind = DataHttp \<and> px_inspector st3 \<noteq> None \<and> pending = None \<and> buffered = []")
    case True
    then obtain buf m p st4 en st5 st6 where q: "peek_request env st3 = (Ready (Inr (buf, m, p)), st4)"
      and i: "insp_request env m p st4 = (Ready (Inr en), st5)" and w: "write_local buf st5 = (Ready (Inr ()), st6)"
      and r: "inspect_response env en st6 = (Ready (Inr ()), st')"
      using k by (auto elim!: px_bind_Inr)
    obtain s where s: "peek_loop (\<lambda>e. CE_Transport (Io e)) [] (px_recv st3) = (Ready (Inr buf), s)" "st4 = st3\<lparr>px_recv := s\<rparr>"
      using q unfolding peek_request_def by (auto simp: px_ret_def split: option.splits elim!: px_bind_Inr on_recv_Inr)
    have "same_io st4 st5" using insp_request_same [OF i] by simp
    then have "to_service st6 = to_service st3" "to_visitor st6 = to_visitor st3"
      using write_local_Inr [OF w] peek_loop_keeps [OF s(1)] s(2) by (auto simp: same_io_def to_service_def to_visitor_def)
    then show ?thesis using inspect_response_flows [OF r] by simp
  next
    case False
    then show ?thesis using k s2(3) s3 by (auto simp: px_ret_def split: if_splits dest!: inspect_response_flows)
  qed
  then show ?thesis using e s2 s3 l(1) by auto
qed

lemma stream_phase_flows:
  assumes "stream_phase env kind prelude auth st = (Ready (Inr Relaying), st')" "px_to_local st = []" "px_to_server st = []"
  shows "to_service st' = sock_data (px_recv st) \<and> (\<exists>l. pe_connect env = Inr l \<and> to_visitor st' = sock_data l \<and> px_local st' \<noteq> None)"
proof -
  obtain buf pending answered st1 where a: "(case auth of
         Some cfg \<Rightarrow> if kind = DataHttp then auth_phase env cfg else px_ret ([], None, False)
       | None \<Rightarrow> px_ret ([], None, False)) st = (Ready (Inr (buf, pending, answered)), st1)"
    and k: "(if answered then px_ret Intercepted else forward_phase env kind prelude buf pending) st1 = (Ready (Inr Relaying), st')"
    using assms(1) unfolding stream_phase_def by (auto elim!: px_bind_Inr)
  have n: "\<not> answered" using k by (auto simp: px_ret_def)
  then have "buf @ sock_data (px_recv st1) = sock_data (px_recv st)" "px_to_local st1 = []" "px_to_server st1 = []"
    using a assms(2,3) by (auto simp: px_ret_def split: option.splits if_splits dest!: auth_phase_passes)
  then show ?thesis using forward_phase_flows [of env kind prelude buf pending st1 Relaying st'] k n by simp
qed


section \<open>The stream from the server\<close>

context byte_source
begin

lemma read_exact_prefix:
  assumes "ok s" "read_exact rd n s = (Ready (Inr b), s')"
  shows "unread s = b @ unread s' \<and> length b = n \<and> ok s'"
proof (cases "n \<le> length (unread s)")
  case True
  then show ?thesis using read_exact_enough [OF assms(1) True] assms(2) by auto
next
  case False
  then show ?thesis using read_exact_short [OF assms(1), of n] assms(2) by (auto split: if_splits)
qed

lemma read_varint_prefix:
  "ok s \<Longrightarrow> read_varint_bytes rd k i acc s = (Ready (Inr v), s') \<Longrightarrow> \<exists>b. unread s = b @ unread s' \<and> ok s'"
proof (induction k arbitrary: i acc s)
  case (Suc k)
  then obtain one s1 where r: "read_exact rd 1 s = (Ready (Inr one), s1)"
    by (auto split: prod.splits Poll.splits sum.splits)
  note p = read_exact_prefix [OF Suc.prems(1) r]
  have "\<exists>b. unread s1 = b @ unread s' \<and> ok s'"
    using Suc.prems(2) r p Suc.IH [of s1] by (auto simp: Let_def split: if_splits)
  then show ?case using p by (metis append.assoc)
qed simp

lemma read_frame_prefix:
  assumes "ok s" "read_frame rd de s = (Ready (Inr v), s')"
  shows "\<exists>b. unread s = b @ unread s' \<and> ok s'"
proof -
  obtain w s1 where r: "read_varint rd s = (Ready (Inr w), s1)"
    using assms(2) by (auto simp: read_frame_def split: prod.splits Poll.splits sum.splits)
  obtain b1 where b1: "unread s = b1 @ unread s1" "ok s1"
    using read_varint_prefix assms(1) r unfolding read_varint_def by blast
  obtain b2 where "read_exact rd (unat w) s1 = (Ready (Inr b2), s')"
    using assms(2) r by (auto simp: read_frame_def Let_def split: prod.splits Poll.splits sum.splits if_splits)
  then show ?thesis using read_exact_prefix [OF b1(2)] b1(1) by (metis append.assoc)
qed

end

interpretation recv_source: byte_source sock_ok sock_data "\<lambda>s. sock_fin (sk_stream s) \<or> sk_error s \<noteq> None" quiet_read
proof
  fix s s' :: Sock and n :: nat and b
  note defs = quiet_read_def sock_read_def sock_ok_def sock_data_def
  show "sock_ok s \<Longrightarrow> quiet_read n s = (Ready b, s') \<Longrightarrow> sock_data s = b @ sock_data s' \<and> length b \<le> n \<and> sock_ok s' \<and>
      (sock_fin (sk_stream s') \<or> sk_error s' \<noteq> None) = (sock_fin (sk_stream s) \<or> sk_error s \<noteq> None)"
    by (cases "sock_segments (sk_stream s)"; cases "sk_error s") (auto simp: defs split: if_splits)
  show "sock_ok s \<Longrightarrow> 0 < n \<Longrightarrow> quiet_read n s = (Ready [], s') \<Longrightarrow>
      sock_data s = [] \<and> (sock_fin (sk_stream s) \<or> sk_error s \<noteq> None)"
    by (cases "sock_segments (sk_stream s)"; cases "sk_error s") (auto simp: defs split: if_splits)
  show "sock_ok s \<Longrightarrow> 0 < n \<Longrightarrow> quiet_read n s = (Pending, s') \<Longrightarrow>
      sock_data s = [] \<and> \<not> (sock_fin (sk_stream s) \<or> sk_error s \<noteq> None)"
    by (cases "sock_segments (sk_stream s)"; cases "sk_error s") (auto simp: defs split: if_splits)
qed

lemma stream_exact_prefix:
  "sock_ok s \<Longrightarrow> stream_exact n s = (Ready (Inr b), s') \<Longrightarrow> sock_data s = b @ sock_data s' \<and> length b = n \<and> sock_ok s'"
  using recv_source.read_exact_prefix [of s n b s'] by (auto simp: stream_exact_def split: prod.splits Poll.splits sum.splits)

lemma stream_frame_prefix:
  "sock_ok s \<Longrightarrow> stream_frame de s = (Ready (Inr v), s') \<Longrightarrow> \<exists>b. sock_data s = b @ sock_data s' \<and> sock_ok s'"
  using recv_source.read_frame_prefix [of s de v s'] by (auto simp: stream_frame_def split: prod.splits Poll.splits sum.splits)

lemma decode_frame_de: "decode_frame Inr bs = Inr (p, n) \<Longrightarrow> de p = Inr v \<Longrightarrow> decode_frame de bs = Inr (v, n)"
  by (auto simp: decode_frame_def Let_def split: sum.splits if_splits)

lemma stream_frame_split:
  assumes "sock_ok s" "frame_split (sock_data s) = Some (p, rest)" "de p = Inr v"
  shows "\<exists>s'. stream_frame de s = (Ready (Inr v), s') \<and> sock_data s' = rest \<and> sock_ok s'"
proof -
  obtain n where n: "decode_frame Inr (sock_data s) = Inr (p, n)" "rest = drop n (sock_data s)"
    using assms(2) by (auto simp: frame_split_def split: sum.splits)
  from recv_source.read_frame_complete [OF assms(1) decode_frame_de [of _ p n de v, OF n(1) assms(3)]]
  show ?thesis using n(2) by (auto simp: stream_frame_def)
qed

lemma recv_header_split:
  assumes "sock_ok s" "DataHeader_split (sock_data s) = Some (h, rest)"
  shows "\<exists>hb s'. stream_exact DATA_HEADER_SIZE s = (Ready (Inr hb), s') \<and> DataHeader_decode hb = Inr h \<and> sock_data s' = rest \<and> sock_ok s'"
proof -
  have d: "DATA_HEADER_SIZE \<le> length (sock_data s)" "DataHeader_decode (take DATA_HEADER_SIZE (sock_data s)) = Inr h"
    "rest = drop DATA_HEADER_SIZE (sock_data s)"
    using assms(2) by (auto simp: DataHeader_split_def split: if_splits sum.splits)
  from recv_source.read_exact_enough [OF assms(1) d(1)] d show ?thesis by (auto simp: stream_exact_def)
qed

lemma decoded_kind: "DataHeader_decode hb = Inr h \<Longrightarrow> dh_kind h = DataTcp \<or> dh_kind h = DataHttp"
  by (cases "dh_kind h") (auto simp: DataHeader_decode_def split: sum.splits if_splits)

lemma handle_after_prelude:
  assumes "sock_ok (px_recv st)" "DataHeader_split (sock_data (px_recv st)) = Some (h, rest)" "dh_tunnel_id h = tid"
    and "if inspect then (\<exists>p. frame_split rest = Some (p, payload) \<and> pe_de_prelude env p = Inr prelude) else rest = payload"
  shows "\<exists>s'. handle_bi_inspected env tid inspect auth st =
      stream_phase env (dh_kind h) (if inspect then Some prelude else None) auth (st\<lparr>px_recv := s'\<rparr>) \<and>
    sock_data s' = payload \<and> sock_ok s'"
proof -
  obtain hb s1 where r: "stream_exact DATA_HEADER_SIZE (px_recv st) = (Ready (Inr hb), s1)" "DataHeader_decode hb = Inr h"
      "sock_data s1 = rest" "sock_ok s1"
    using recv_header_split [OF assms(1,2)] by blast
  note e = handle_bi_inspected_def px_bind_def on_recv_def r(1,2) assms(3)
  show ?thesis
  proof (cases inspect)
    case False
    then show ?thesis using assms(4) r decoded_kind [OF r(2)] by (auto simp: e px_ret_def)
  next
    case True
    then obtain p where "frame_split (sock_data s1) = Some (p, payload)" "pe_de_prelude env p = Inr prelude"
      using assms(4) r(3) by auto
    from stream_frame_split [where de = "pe_de_prelude env", OF r(4) this]
    obtain s2 where "stream_frame (pe_de_prelude env) s1 = (Ready (Inr prelude), s2)" "sock_data s2 = payload" "sock_ok s2"
      by blast
    then show ?thesis using True decoded_kind [OF r(2)] by (auto simp: e px_ret_def)
  qed
qed

lemma prelude_prefix:
  assumes "(if inspect then px_bind (on_recv (stream_frame de)) (\<lambda>p. px_ret (Some p)) else px_ret None) st1 = (Ready (Inr prelude), st2)"
    and "sock_ok (px_recv st1)"
  shows "\<exists>pre. sock_data (px_recv st1) = pre @ sock_data (px_recv st2) \<and> px_store st2 = px_store st1"
proof (cases inspect)
  case True
  then obtain p s where s: "stream_frame de (px_recv st1) = (Ready (Inr p), s)" "st2 = st1\<lparr>px_recv := s\<rparr>"
    using assms(1) by (auto simp: px_ret_def elim!: px_bind_Inr on_recv_Inr)
  then show ?thesis using stream_frame_prefix [OF assms(2) s(1)] by auto
qed (use assms(1) in \<open>simp add: px_ret_def\<close>)

section \<open>Properties\<close>


text \<open>
  the proxy alters nothing. When it hands a stream to the relay, the bytes written to
  the local service followed by those still unread are the payload of the stream, without
  the header and the prelude; and the bytes written back followed by those still unread on
  the local socket are what the service sent.
\<close>

theorem proxy_lossless:
  assumes "handle_bi_inspected env tid inspect auth st = (Ready (Inr Relaying), st')"
    and "px_to_local st = []" "px_to_server st = []" "sock_ok (px_recv st)"
    and "DataHeader_split (sock_data (px_recv st)) = Some (h, rest)" "dh_tunnel_id h = tid"
    and "if inspect then (\<exists>p. frame_split rest = Some (p, payload) \<and> pe_de_prelude env p = Inr prelude) else rest = payload"
  shows "to_service st' = payload \<and> (\<exists>l. pe_connect env = Inr l \<and> to_visitor st' = sock_data l)"
proof -
  obtain s' where s': "handle_bi_inspected env tid inspect auth st =
      stream_phase env (dh_kind h) (if inspect then Some prelude else None) auth (st\<lparr>px_recv := s'\<rparr>)" "sock_data s' = payload"
    using handle_after_prelude [OF assms(4-7)] by blast
  show ?thesis
    using stream_phase_flows [OF assms(1) [unfolded s'(1)]] assms(2,3) s'(2) by auto
qed


section \<open>A concrete stream\<close>

definition demo_head :: HttpHead where
  "demo_head = \<lparr>hh_method = Some ''GET'', hh_path = Some ''/'', hh_headers = [(''X-API-Key'', as_bytes ''k'')]\<rparr>"

definition demo_prelude :: InspectionPrelude where
  "demo_prelude = \<lparr>ip_accept_unix_secs = 0, ip_peer = ''peer'', ip_http = None\<rparr>"

definition demo_service :: Sock where
  "demo_service = \<lparr>sk_stream = \<lparr>sock_segments = [], sock_fin = True\<rparr>, sk_error = None\<rparr>"

definition demo_proxy_env :: ProxyEnv where
  "demo_proxy_env = \<lparr>pe_parse = (\<lambda>_. Some demo_head), pe_parse_response = (\<lambda>_. None), pe_de_prelude = (\<lambda>_. Inr demo_prelude),
     pe_connect = Inr demo_service, pe_wall = 5, pe_request_at = 1, pe_response_at = 3, pe_auth_at = 2, pe_raw = []\<rparr>"

definition demo_header :: bytes where
  "demo_header = DataHeader_to_bytes \<lparr>dh_kind = DataHttp, dh_tunnel_id = 7\<rparr>"

definition demo_recv :: "bytes list \<Rightarrow> Sock" where
  "demo_recv segs = \<lparr>sk_stream = \<lparr>sock_segments = segs, sock_fin = True\<rparr>, sk_error = None\<rparr>"

definition demo_proxy_state :: "bytes list \<Rightarrow> ProxyState" where
  "demo_proxy_state segs = \<lparr>px_recv = demo_recv segs, px_local = None, px_to_local = [], px_to_server = [],
     px_local_writes = Suc (Suc 0), px_server_writes = Suc (Suc 0), px_finished = False, px_inspector = Some inspector_new,
     px_store = DAList.empty\<rparr>"

definition demo_key :: AuthConfig where
  "demo_key = \<lparr>ac_policy = PolicyApiKey ''k'', ac_realm = DEFAULT_REALM\<rparr>"

lemma read_exact_segment:
  assumes "length seg = n" "0 < n"
  shows "read_exact quiet_read n (demo_recv (seg # segs)) = (Ready (Inr seg), demo_recv segs)"
proof -
  have "quiet_read n (demo_recv (seg # segs)) = (Ready seg, demo_recv segs)"
    using assms(1) by (simp add: quiet_read_def sock_read_def demo_recv_def)
  moreover have "seg \<noteq> []" using assms by auto
  ultimately show ?thesis using assms by (simp add: read_exact.simps [of _ n] read_exact.simps [of _ 0])
qed

lemma demo_header_length: "length demo_header = 9"
  by (simp add: demo_header_def DataHeader_to_bytes_def)

lemma demo_recv_header: "stream_exact DATA_HEADER_SIZE (demo_recv (demo_header # segs)) = (Ready (Inr demo_header), demo_recv segs)"
  using read_exact_segment [OF demo_header_length] by (simp add: stream_exact_def DATA_HEADER_SIZE_def)

lemma demo_stream_frame:
  "de [42] = Inr v \<Longrightarrow> stream_frame de (demo_recv ([1] # [42] # segs)) = (Ready (Inr v), demo_recv segs)"
proof -
  have v: "VARINT_MAX_BYTES = Suc 4" by (simp add: VARINT_MAX_BYTES_def)
  have r: "read_varint quiet_read (demo_recv ([1] # [42] # segs)) = (Ready (Inr 1), demo_recv ([42] # segs))"
    unfolding read_varint_def v read_varint_bytes.simps using read_exact_segment [of "[1]" 1 "[42] # segs"] by (simp add: Let_def)
  show "de [42] = Inr v \<Longrightarrow> ?thesis"
    using read_exact_segment [of "[42]" 1 segs] by (simp add: stream_frame_def read_frame_def r MAX_FRAME_SIZE_def)
qed

definition demo_request :: bytes where "demo_request = [71, 13, 10, 13, 10]"

lemma demo_blank: "find_blank_line 0 demo_request = Some 1"
  by (simp add: demo_request_def find_blank_line.simps)

lemma demo_key_ok: "check_api_key ''k'' (hh_headers demo_head) = Inr KeyOk"
proof -
  have "eq_ignore_ascii_case ''X-API-Key'' ''x-api-key''"
    by (simp add: eq_ignore_ascii_case_def to_ascii_lowercase_def to_ascii_lower_def is_ascii_uppercase_def less_eq_char_def char_of_def bit_0)
  moreover have "from_utf8 (as_bytes ''k'') = Some ''k''" by (rule from_utf8_ascii) (simp add: as_bytes_def)
  ultimately show ?thesis by (simp add: check_api_key_def demo_head_def auth_eq.eq_iff trim_graphic graphic_def)
qed

lemma demo_auth:
  "auth_phase demo_proxy_env demo_key (demo_proxy_state [demo_request, later]) =
    (Ready (Inr (demo_request, Some 1, False)),
     (demo_proxy_state [later])\<lparr>px_inspector := Some (snd (record_request 5 1 (Some ''GET'') (Some ''/'') inspector_new))\<rparr>)"
proof -
  have p: "peek_first_byte (demo_recv [demo_request, later]) = (Ready (Inr (demo_request, Some 71)), demo_recv [later])"
    by (simp add: peek_first_byte_def sock_read_def demo_recv_def demo_request_def)
  have u: "peek_until_headers demo_request INSPECT_HEADER_CAP s = (Ready (Inr (demo_request, Some 5)), s)" for s
    by (simp add: peek_until_headers.simps demo_blank)
  show ?thesis
    by (simp add: auth_phase_def px_bind_def on_recv_def demo_proxy_state_def p u looks_like_tls_def auth_request_def note_request_def
        demo_proxy_env_def insp_request_def demo_head_def decide_auth_response_def demo_key_def policy_check_api_key_def
        demo_key_ok [unfolded demo_head_def, simplified] px_ret_def Let_def record_request_def inspector_new_def)
qed

lemma demo_proxy_run:
  "handle_bi_inspected demo_proxy_env 7 True (Some demo_key) (demo_proxy_state [demo_header, [1], [42], demo_request, later]) =
    (Ready (Inr Relaying),
     (demo_proxy_state [later])\<lparr>px_local := Some demo_service, px_to_local := demo_request, px_local_writes := Suc 0,
       px_server_writes := Suc 0,
       px_inspector := Some (record_accept 5 demo_prelude (snd (record_request 5 1 (Some ''GET'') (Some ''/'') inspector_new)))\<rparr>)"
proof -
  let ?st = "demo_proxy_state [demo_header, [1], [42], demo_request, later]"
  have hd: "DataHeader_decode demo_header = Inr \<lparr>dh_kind = DataHttp, dh_tunnel_id = 7\<rparr>"
    using DataHeader_decode_to_bytes [of "\<lparr>dh_kind = DataHttp, dh_tunnel_id = 7\<rparr>" "[]"] by (simp add: demo_header_def)
  have f: "stream_frame (pe_de_prelude demo_proxy_env) (demo_recv ([1] # [42] # segs)) = (Ready (Inr demo_prelude), demo_recv segs)" for segs
    by (rule demo_stream_frame) (simp add: demo_proxy_env_def)
  have h: "handle_bi_inspected demo_proxy_env 7 True (Some demo_key) ?st =
      stream_phase demo_proxy_env DataHttp (Some demo_prelude) (Some demo_key) (demo_proxy_state [demo_request, later])"
    by (simp add: handle_bi_inspected_def px_bind_def on_recv_def demo_proxy_state_def demo_recv_header hd f px_ret_def)
  have q: "peek_loop CE_Io [] demo_service = (Ready (Inr []), demo_service)"
    by (simp add: peek_loop.simps sock_read_def demo_service_def)
  have s: "stream_phase demo_proxy_env DataHttp (Some demo_prelude) (Some demo_key) (demo_proxy_state [demo_request, later]) =
      forward_phase demo_proxy_env DataHttp (Some demo_prelude) demo_request (Some 1)
        ((demo_proxy_state [later])\<lparr>px_inspector := Some (snd (record_request 5 1 (Some ''GET'') (Some ''/'') inspector_new))\<rparr>)"
    by (simp add: stream_phase_def px_bind_def demo_auth)
  show ?thesis
    unfolding h s
    by (simp add: px_bind_def forward_phase_def dial_def write_local_def write_server_def insp_accept_def px_update_def
        inspect_response_def peek_response_def on_local_def insp_response_def px_ret_def demo_proxy_env_def demo_proxy_state_def
        demo_request_def q)
qed

lemma demo_state_ok:
  "sock_ok (px_recv (demo_proxy_state [demo_header, [1], [42], demo_request, [9]]))" "px_local (demo_proxy_state segs) = None"
  "px_to_local (demo_proxy_state segs) = []" "px_to_server (demo_proxy_state segs) = []"
  by (simp_all add: demo_proxy_state_def sock_ok_def demo_recv_def demo_request_def demo_header_def DataHeader_to_bytes_def)


theorem proxy_lossless_witness:
  "to_service (snd (handle_bi_inspected demo_proxy_env 7 True (Some demo_key)
     (demo_proxy_state [demo_header, [1], [42], demo_request, [9]]))) = demo_request @ [9]"
proof -
  let ?st = "demo_proxy_state [demo_header, [1], [42], demo_request, [9]]"
  have d: "sock_data (px_recv ?st) = demo_header @ frame_of_payload [42] @ demo_request @ [9]"
    by (simp add: demo_proxy_state_def demo_recv_def sock_data_def frame_of_payload_def write_varint_u32.simps word_le_nat_alt)
  have sp: "DataHeader_split (demo_header @ x) = Some (\<lparr>dh_kind = DataHttp, dh_tunnel_id = 7\<rparr>, x)" for x
    unfolding demo_header_def using data_header_codec.dec_enc [of "\<lparr>dh_kind = DataHttp, dh_tunnel_id = 7\<rparr>"] by simp
  have "DataHeader_split (sock_data (px_recv ?st)) = Some (\<lparr>dh_kind = DataHttp, dh_tunnel_id = 7\<rparr>, frame_of_payload [42] @ demo_request @ [9])"
    unfolding d sp ..
  moreover have "frame_split (frame_of_payload [42] @ demo_request @ [9]) = Some ([42], demo_request @ [9])"
    using frame_codec.dec_enc [of "[42]"] by (simp add: MAX_FRAME_SIZE_def)
  moreover have "pe_de_prelude demo_proxy_env p = Inr demo_prelude" for p by (simp add: demo_proxy_env_def)
  ultimately show ?thesis
    unfolding demo_proxy_run snd_conv
    using proxy_lossless [OF demo_proxy_run [of "[9]"] demo_state_ok(3,4,1), of _ _ "demo_request @ [9]" demo_prelude] by simp
qed

text \<open>
  With authentication, the request is entered before the prelude of its stream is noted: the
  entry has no peer, and the prelude waits for the next request, of another stream.
\<close>

theorem auth_misattributes_accept:
  "\<exists>env cfg st insp st'. handle_bi_inspected env 7 True (Some cfg) st = (Ready (Inr Relaying), st') \<and>
    px_inspector st = Some inspector_new \<and> px_inspector st' = Some insp \<and>
    map en_peer (in_entries insp) = [None] \<and> map_option pa_peer (in_pending_accept insp) = Some ''peer''"
proof -
  let ?i = "record_accept 5 demo_prelude (snd (record_request 5 1 (Some ''GET'') (Some ''/'') inspector_new))"
  have "map en_peer (in_entries ?i) = [None] \<and> map_option pa_peer (in_pending_accept ?i) = Some ''peer''"
    by (simp add: record_accept_def record_request_def inspector_new_def demo_prelude_def HISTORY_CAP_def Let_def)
  moreover have "px_inspector (demo_proxy_state segs) = Some inspector_new" for segs by (simp add: demo_proxy_state_def)
  moreover obtain st' where "handle_bi_inspected demo_proxy_env 7 True (Some demo_key)
      (demo_proxy_state [demo_header, [1], [42], demo_request, [9]]) = (Ready (Inr Relaying), st')" "px_inspector st' = Some ?i"
    unfolding demo_proxy_run by simp
  ultimately show ?thesis
    by (intro exI [of _ demo_proxy_env] exI [of _ demo_key] exI [of _ "demo_proxy_state [demo_header, [1], [42], demo_request, [9]]"]
        exI [of _ ?i] exI [of _ st']) simp
qed

end
