(* ===== verification/Data_Path.thy ===== *)
theory Data_Path
  imports Routing Proxy
begin

text \<open>
  The whole way of a visitor's bytes: the router of the server buffers the request and opens
  a stream on the owner's connection (\<^verbatim>\<open>Routing\<close>), the relay appends what follows, and the
  proxy of the client takes the header and the prelude off and writes the rest to the local
  service (\<^verbatim>\<open>Proxy\<close>).
\<close>

lemma DataHeader_split_more: "DataHeader_split bs = Some (h, rest) \<Longrightarrow> DataHeader_split (bs @ r) = Some (h, rest @ r)"
  by (auto simp: DataHeader_split_def split: if_splits sum.splits)

lemma frame_split_more: "frame_split bs = Some (p, rest) \<Longrightarrow> frame_split (bs @ r) = Some (p, rest @ r)"
  by (auto simp: frame_split_def split: sum.splits dest: decode_frame_mono [where rest = r])

lemma layout_more:
  assumes "stream_layout env kind tid inspect pr payload sent" "\<And>p. rv_ser env pr = Inr p \<Longrightarrow> de p = Inr pr"
  obtains rest where "DataHeader_split (sent @ r) = Some (\<lparr>dh_kind = kind, dh_tunnel_id = tid\<rparr>, rest)"
    "if inspect then (\<exists>p. frame_split rest = Some (p, payload @ r) \<and> de p = Inr pr) else rest = payload @ r"
proof -
  obtain rest where rest: "DataHeader_split sent = Some (\<lparr>dh_kind = kind, dh_tunnel_id = tid\<rparr>, rest)"
      "if inspect then (\<exists>p. rv_ser env pr = Inr p \<and> frame_split rest = Some (p, payload)) else rest = payload"
    using assms(1) by (auto simp: stream_layout_def)
  have "if inspect then (\<exists>p. frame_split (rest @ r) = Some (p, payload @ r) \<and> de p = Inr pr) else rest @ r = payload @ r"
  proof (cases inspect)
    case True
    then obtain p where "rv_ser env pr = Inr p" "frame_split rest = Some (p, payload)" using rest(2) by auto
    then show ?thesis using True assms(2) frame_split_more [of rest p payload r] by auto
  qed (use rest(2) in simp)
  then show ?thesis using that DataHeader_split_more [OF rest(1)] by blast
qed

lemma http_layout:
  assumes "registry_inv registry res" "http_handle parse apex registry challenges renv vs = (Forwarded fw, vs')"
    and "tunnel registry (fw_tunnel_id fw) = Some info"
  obtains pr buffered where "stream_layout renv DataHttp (fw_tunnel_id fw) (ti_inspect info) pr buffered (fw_sent fw)"
    "buffered @ sock_data vs' = sock_data vs"
  using http_forwarded [OF assms(1,2)] assms(3) by auto

section \<open>Property\<close>

text \<open>
  C1: what a visitor sends is what the local service gets. If the router of the server
  forwards a request over a tunnel, and the client of that tunnel relays the stream, then
  the bytes handed to the local service so far and those about to be are the beginning of
  what the visitor sent, in order and unchanged, with neither header nor prelude in it; and
  all of it, once the server's relay has caught up.
\<close>

theorem visitor_to_service:
  assumes inv: "registry_inv registry res" and route: "http_handle parse apex registry challenges renv vs = (Forwarded fw, vs')"
    and stream: "sock_data (px_recv st) = fw_sent fw @ relayed" "prefix relayed (sock_data vs')" "sock_ok (px_recv st)"
    and fresh: "px_to_local st = []" "px_to_server st = []"
    and postcard: "\<And>pr p. rv_ser renv pr = Inr p \<Longrightarrow> pe_de_prelude penv p = Inr pr"
    and info: "tunnel registry (fw_tunnel_id fw) = Some info"
    and run: "handle_bi_inspected penv (fw_tunnel_id fw) (ti_inspect info) auth st = (Ready (Inr Relaying), st')"
  shows "prefix (to_service st') (sock_data vs) \<and> (relayed = sock_data vs' \<longrightarrow> to_service st' = sock_data vs)"
proof -
  obtain pr buffered where lay: "stream_layout renv DataHttp (fw_tunnel_id fw) (ti_inspect info) pr buffered (fw_sent fw)"
      and keep: "buffered @ sock_data vs' = sock_data vs"
    by (rule http_layout [OF inv route info])
  obtain rest where rest: "DataHeader_split (sock_data (px_recv st)) = Some (\<lparr>dh_kind = DataHttp, dh_tunnel_id = fw_tunnel_id fw\<rparr>, rest)"
      "if ti_inspect info then (\<exists>p. frame_split rest = Some (p, buffered @ relayed) \<and> pe_de_prelude penv p = Inr pr)
       else rest = buffered @ relayed"
    unfolding stream(1) by (rule layout_more [OF lay postcard])
  obtain s' where s': "handle_bi_inspected penv (fw_tunnel_id fw) (ti_inspect info) auth st =
      stream_phase penv DataHttp (if ti_inspect info then Some pr else None) auth (st\<lparr>px_recv := s'\<rparr>)" "sock_data s' = buffered @ relayed"
    using handle_after_prelude [OF stream(3) rest(1) _ rest(2)] by fastforce
  have "to_service st' = buffered @ relayed"
    using stream_phase_flows [OF run [unfolded s'(1)]] fresh s'(2) by simp
  then show ?thesis using keep stream(2) by (metis append.assoc prefix_def)
qed

definition demo_client :: ProxyState where
  "demo_client = (demo_proxy_state [DataHeader_to_bytes \<lparr>dh_kind = DataHttp, dh_tunnel_id = 1\<rparr>, [1], [42], [1, 2], [3]])
     \<lparr>px_inspector := None\<rparr>"

definition demo_client_env :: ProxyEnv where
  "demo_client_env = demo_proxy_env\<lparr>pe_de_prelude := (\<lambda>_. Inr demo_visit_prelude)\<rparr>"

lemma demo_client_run:
  "\<exists>st'. handle_bi_inspected demo_client_env 1 True None demo_client = (Ready (Inr Relaying), st')"
proof -
  let ?h = "DataHeader_to_bytes \<lparr>dh_kind = DataHttp, dh_tunnel_id = 1\<rparr>"
  have l: "length ?h = 9" by (simp add: DataHeader_to_bytes_def)
  have r: "stream_exact DATA_HEADER_SIZE (demo_recv (?h # segs)) = (Ready (Inr ?h), demo_recv segs)" for segs
    using read_exact_segment [OF l] by (simp add: stream_exact_def DATA_HEADER_SIZE_def)
  have d: "DataHeader_decode ?h = Inr \<lparr>dh_kind = DataHttp, dh_tunnel_id = 1\<rparr>"
    using DataHeader_decode_to_bytes [of "\<lparr>dh_kind = DataHttp, dh_tunnel_id = 1\<rparr>" "[]"] by simp
  have f: "stream_frame (pe_de_prelude demo_client_env) (demo_recv ([1] # [42] # segs)) = (Ready (Inr demo_visit_prelude), demo_recv segs)" for segs
    by (rule demo_stream_frame) (simp add: demo_client_env_def)
  have s: "stream_phase demo_client_env DataHttp (Some demo_visit_prelude) None st =
      (Ready (Inr Relaying), st\<lparr>px_local := Some demo_service\<rparr>)" if "px_inspector st = None" for st
    using that
    by (simp add: stream_phase_def px_bind_def px_ret_def forward_phase_def dial_def demo_client_env_def demo_proxy_env_def
        insp_accept_def px_update_def)
  show ?thesis
    by (simp add: handle_bi_inspected_def px_bind_def on_recv_def demo_client_def demo_proxy_state_def r d f px_ret_def s)
qed

theorem visitor_to_service_witness:
  "\<exists>st'. handle_bi_inspected demo_client_env 1 True None demo_client = (Ready (Inr Relaying), st') \<and> to_service st' = [1, 2, 3]"
proof -
  obtain st' where run: "handle_bi_inspected demo_client_env 1 True None demo_client = (Ready (Inr Relaying), st')"
    using demo_client_run by blast
  let ?fw = "\<lparr>fw_connection = 5, fw_tunnel_id = 1, fw_rate = 0,
       fw_sent = DataHeader_to_bytes \<lparr>dh_kind = DataHttp, dh_tunnel_id = 1\<rparr> @ frame_of_payload [42] @ [1, 2]\<rparr>"
  have "sock_data (px_recv demo_client) = fw_sent ?fw @ [3]"
    by (simp add: demo_client_def demo_proxy_state_def demo_recv_def sock_data_def frame_of_payload_def write_varint_u32.simps
        word_le_nat_alt)
  moreover have "sock_ok (px_recv demo_client)" "px_to_local demo_client = []" "px_to_server demo_client = []"
    by (simp_all add: demo_client_def demo_proxy_state_def demo_recv_def sock_ok_def DataHeader_to_bytes_def)
  moreover have "pe_de_prelude demo_client_env p = Inr pr" if "rv_ser demo_route_env pr = Inr p" for pr p
    using that by (simp add: demo_route_env_def demo_client_env_def split: if_splits)
  moreover have "tunnel demo_registry (fw_tunnel_id ?fw) = Some demo_info" "ti_inspect demo_info"
    by (simp_all add: demo_tunnel demo_info_def)
  ultimately have "to_service st' = sock_data demo_sock"
    using visitor_to_service [OF demo_inv demo_forwarded, of demo_client "[3]" demo_client_env demo_info None st'] run
    by (simp add: sock_data_def demo_sock_def)
  then show ?thesis using run by (simp add: sock_data_def demo_sock_def)
qed

end
