(* ===== verification/Client_Session.thy ===== *)
theory Client_Session
  imports Registry Handshake Proxy
begin

text \<open>
  The client's side of a session: its configuration (\<^verbatim>\<open>config.rs\<close>), the pinned server key
  (\<^verbatim>\<open>tls.rs\<close>), connecting with the fallback and authenticating (\<^verbatim>\<open>session.rs\<close>),
  enrolling (\<^verbatim>\<open>enroll.rs\<close>), publishing (\<^verbatim>\<open>tunnel.rs\<close>) and the command line's helpers
  (\<^verbatim>\<open>main.rs\<close>). A Control stream is seen at the level of frames, as in \<^verbatim>\<open>Handshake\<close>: what the
  reads return, what has been written, how many more writes succeed. The outcome of opening
  a connection is an argument; hex, SHA-256, X.509 and Ed25519 are parameters.
\<close>

section \<open>Configuration\<close>

record Identity =
  id_private_key :: string
  id_public_key :: string

record ServerPin =
  sp_host :: string
  sp_quic_port :: u16
  sp_tcp_port :: "u16 option"
  sp_sni :: "string option"
  sp_fingerprint :: "string option"

record ClientConfig =
  cfg_identity :: Identity
  cfg_server :: ServerPin

definition signing_key :: "(string \<Rightarrow> (string, bytes) result) \<Rightarrow> Identity \<Rightarrow> (ClientError, bytes) result" where
  "signing_key hex_decode i =
    (case hex_decode (id_private_key i) of
       Inl e \<Rightarrow> Inl (CE_Config (''bad private_key hex: '' @ e))
     | Inr seed \<Rightarrow> if length seed = 32 then Inr seed else Inl (CE_Config ''private_key not 32 bytes''))"

definition id_pubkey :: "(string \<Rightarrow> (string, bytes) result) \<Rightarrow> Identity \<Rightarrow> (ClientError, PubKey) result" where
  "id_pubkey hex_decode i =
    (case hex_decode (id_public_key i) of
       Inl e \<Rightarrow> Inl (CE_Config (''bad public_key hex: '' @ e))
     | Inr raw \<Rightarrow> if length raw = 32 then Inr raw else Inl (CE_Config ''public_key not 32 bytes''))"

definition generate :: "(bytes \<Rightarrow> string) \<Rightarrow> (bytes \<Rightarrow> bytes) \<Rightarrow> bytes \<Rightarrow> Identity" where
  "generate hex_encode verifying_key seed =
    \<lparr>id_private_key = hex_encode seed, id_public_key = hex_encode (verifying_key seed)\<rparr>"

definition effective_sni :: "ServerPin \<Rightarrow> string" where
  "effective_sni pin = (case sp_sni pin of Some s \<Rightarrow> s | None \<Rightarrow> sp_host pin)"

definition effective_tcp_port :: "ServerPin \<Rightarrow> u16" where
  "effective_tcp_port pin = (case sp_tcp_port pin of Some p \<Rightarrow> p | None \<Rightarrow> sp_quic_port pin)"

definition fingerprint_bytes :: "(string \<Rightarrow> (string, bytes) result) \<Rightarrow> ServerPin \<Rightarrow> (ClientError, bytes option) result" where
  "fingerprint_bytes hex_decode pin =
    (case sp_fingerprint pin of
       None \<Rightarrow> Inr None
     | Some fp \<Rightarrow>
        (case strip_prefix fp ''sha256:'' of
           None \<Rightarrow> Inl CE_BadFingerprint
         | Some rest \<Rightarrow>
            (case hex_decode rest of
               Inl _ \<Rightarrow> Inl CE_BadFingerprint
             | Inr raw \<Rightarrow> if length raw = 32 then Inr (Some raw) else Inl CE_BadFingerprint)))"

section \<open>The pinned certificate\<close>

text \<open>\<^verbatim>\<open>spki\<close> is the public-key part of a certificate, if it parses.\<close>

definition verify_server_cert ::
  "(bytes \<Rightarrow> (string, bytes) result) \<Rightarrow> (bytes \<Rightarrow> bytes) \<Rightarrow> bytes \<Rightarrow> bytes \<Rightarrow> (string, unit) result" where
  "verify_server_cert spki sha256 expected end_entity =
    (case spki end_entity of
       Inl e \<Rightarrow> Inl (''cert parse: '' @ e)
     | Inr key \<Rightarrow>
        if sha256 key = expected then Inr () else Inl ''server SPKI fingerprint does not match pin'')"

definition tofu_verify_server_cert ::
  "(bytes \<Rightarrow> (string, bytes) result) \<Rightarrow> (bytes \<Rightarrow> bytes) \<Rightarrow> (bytes \<Rightarrow> string) \<Rightarrow> bytes \<Rightarrow> string option
    \<Rightarrow> (string, unit) result \<times> string option" where
  "tofu_verify_server_cert spki sha256 hex_encode end_entity learned =
    (case spki end_entity of
       Inl e \<Rightarrow> (Inl (''cert parse: '' @ e), learned)
     | Inr key \<Rightarrow> (Inr (), Some (''sha256:'' @ hex_encode (sha256 key))))"

text \<open>The verifier a configured pin gives.\<close>

definition build_client_tls :: "(string \<Rightarrow> (string, bytes) result) \<Rightarrow> ServerPin \<Rightarrow> (ClientError, bytes) result" where
  "build_client_tls hex_decode pin =
    (case fingerprint_bytes hex_decode pin of
       Inl e \<Rightarrow> Inl e
     | Inr (Some pin_bytes) \<Rightarrow> Inr pin_bytes
     | Inr None \<Rightarrow> Inl (CE_Config ''server pin has no fingerprint (only IpMode is supported today)''))"

section \<open>Control streams\<close>

record ClientStream =
  ct_kind :: "u8 option"
  ct_in :: "(TransportError, ServerFrame) result list"
  ct_out :: "ClientFrame list"
  ct_writes :: nat
  ct_finished :: bool
  ct_closed :: bool

definition client_recv :: "ClientStream \<Rightarrow> (TransportError, ServerFrame) result \<times> ClientStream" where
  "client_recv ct =
    (case ct_in ct of [] \<Rightarrow> (Inl UnexpectedEof, ct) | r # rs \<Rightarrow> (r, ct\<lparr>ct_in := rs\<rparr>))"

definition client_send :: "ClientFrame \<Rightarrow> ClientStream \<Rightarrow> (ClientError, unit) result \<times> ClientStream" where
  "client_send f ct =
    (if ct_writes ct = 0 then (Inl (CE_Transport UnexpectedEof), ct)
     else (Inr (), ct\<lparr>ct_out := ct_out ct @ [f], ct_writes := ct_writes ct - 1\<rparr>))"

definition send_kind :: "ClientStream \<Rightarrow> (ClientError, unit) result \<times> ClientStream" where
  "send_kind ct =
    (if ct_writes ct = 0 then (Inl (CE_Io ''write''), ct)
     else (Inr (), ct\<lparr>ct_kind := Some (StreamKind_as_byte Control), ct_writes := ct_writes ct - 1\<rparr>))"

definition read_reject :: "ClientStream \<Rightarrow> ErrorCode option \<times> ClientStream" where
  "read_reject ct =
    (case client_recv ct of
       (Inr (AuthReject code), ct) \<Rightarrow> (Some code, ct)
     | (Inr (ServerBye code), ct) \<Rightarrow> (Some code, ct)
     | (_, ct) \<Rightarrow> (None, ct))"

text \<open>The challenge-response, from the request to the session id.\<close>

definition auth_reply :: "ClientStream \<Rightarrow> (ClientError, SessionId) result \<times> ClientStream" where
  "auth_reply ct =
    (case client_recv ct of
       (Inl e, ct) \<Rightarrow> (Inl (CE_Transport e), ct)
     | (Inr (AuthOk sid), ct) \<Rightarrow> (Inr sid, ct)
     | (Inr (AuthReject code), ct) \<Rightarrow> (Inl (CE_AuthRejected code), ct)
     | (Inr _, ct) \<Rightarrow> (Inl (CE_Protocol ''expected AuthOk''), ct))"

definition challenge_phase ::
  "(string \<Rightarrow> (string, bytes) result) \<Rightarrow> (bytes \<Rightarrow> bytes \<Rightarrow> bytes) \<Rightarrow> Identity \<Rightarrow> ClientStream
    \<Rightarrow> (ClientError, SessionId) result \<times> ClientStream" where
  "challenge_phase hex_decode sign i ct =
    (case client_recv ct of
       (Inl e, ct) \<Rightarrow> (Inl (CE_Transport e), ct)
     | (Inr (AuthChallenge nonce), ct) \<Rightarrow>
        (case signing_key hex_decode i of
           Inl e \<Rightarrow> (Inl e, ct)
         | Inr sk \<Rightarrow>
            (case client_send (AuthResponse (sign_challenge sign sk nonce)) ct of
               (Inl e, ct) \<Rightarrow> (Inl e, ct)
             | (Inr _, ct) \<Rightarrow> auth_reply ct))
     | (Inr _, ct) \<Rightarrow>
        (case read_reject ct of
           (Some code, ct) \<Rightarrow> (Inl (CE_AuthRejected code), ct)
         | (None, ct) \<Rightarrow> (Inl (CE_Protocol ''expected AuthChallenge''), ct)))"

definition finish_auth ::
  "(string \<Rightarrow> (string, bytes) result) \<Rightarrow> (bytes \<Rightarrow> bytes \<Rightarrow> bytes) \<Rightarrow> Identity \<Rightarrow> ClientStream
    \<Rightarrow> (ClientError, SessionId) result \<times> ClientStream" where
  "finish_auth hex_decode sign i ct =
    (case send_kind ct of
       (Inl e, ct) \<Rightarrow> (Inl e, ct)
     | (Inr _, ct) \<Rightarrow>
        (case id_pubkey hex_decode i of
           Inl e \<Rightarrow> (Inl e, ct)
         | Inr pk \<Rightarrow>
            (case client_send (AuthRequest pk) ct of
               (Inl e, ct) \<Rightarrow> (Inl e, ct)
             | (Inr _, ct) \<Rightarrow> challenge_phase hex_decode sign i ct)))"

definition shutdown :: "ClientStream \<Rightarrow> ClientStream" where
  "shutdown ct = (snd (client_send Bye ct))\<lparr>ct_finished := True, ct_closed := True\<rparr>"

definition list_peers :: "ClientStream \<Rightarrow> (ClientError, string list) result \<times> ClientStream" where
  "list_peers ct =
    (case client_send ListPeers ct of
       (Inl e, ct) \<Rightarrow> (Inl e, ct)
     | (Inr _, ct) \<Rightarrow>
        (case client_recv ct of
           (Inl e, ct) \<Rightarrow> (Inl (CE_Transport e), ct)
         | (Inr (Peers relays), ct) \<Rightarrow> (Inr relays, ct)
         | (Inr _, ct) \<Rightarrow> (Inl (CE_Protocol ''expected Peers response''), ct)))"

section \<open>Connecting\<close>

datatype SessionTransport = Quic | TcpFallback

record AuthenticatedSession =
  as_stream :: ClientStream
  as_session_id :: SessionId
  as_transport :: SessionTransport

text \<open>
  The network: name resolution, and the opening of a pinned connection with its first
  stream over either transport.
\<close>

record Net =
  net_lookup :: "string \<Rightarrow> (string, string list) result"
  net_dial :: "SessionTransport \<Rightarrow> string \<Rightarrow> string \<Rightarrow> bytes \<Rightarrow> (ClientError, ClientStream) result"

record Lib =
  lib_hex_decode :: "string \<Rightarrow> (string, bytes) result"
  lib_hex_encode :: "bytes \<Rightarrow> string"
  lib_sign :: "bytes \<Rightarrow> bytes \<Rightarrow> bytes"
  lib_verifying_key :: "bytes \<Rightarrow> bytes"

definition resolve_server :: "Net \<Rightarrow> ServerPin \<Rightarrow> u16 \<Rightarrow> (ClientError, string) result" where
  "resolve_server net pin port =
    (let target = sp_host pin @ '':'' @ show_nat (unat port)
     in case net_lookup net target of
       Inl e \<Rightarrow> Inl (CE_BadServerAddr (target @ '': '' @ e))
     | Inr [] \<Rightarrow> Inl (CE_BadServerAddr target)
     | Inr (a # _) \<Rightarrow> Inr a)"

definition connect_over ::
  "Net \<Rightarrow> Lib \<Rightarrow> SessionTransport \<Rightarrow> u16 \<Rightarrow> ServerPin \<Rightarrow> Identity \<Rightarrow> (ClientError, AuthenticatedSession) result" where
  "connect_over net lib transport port pin i =
    (case resolve_server net pin port of
       Inl e \<Rightarrow> Inl e
     | Inr addr \<Rightarrow>
        (case build_client_tls (lib_hex_decode lib) pin of
           Inl e \<Rightarrow> Inl e
         | Inr fp \<Rightarrow>
            (case net_dial net transport addr (effective_sni pin) fp of
               Inl e \<Rightarrow> Inl e
             | Inr ct \<Rightarrow>
                (case finish_auth (lib_hex_decode lib) (lib_sign lib) i ct of
                   (Inl e, _) \<Rightarrow> Inl e
                 | (Inr sid, ct) \<Rightarrow> Inr \<lparr>as_stream = ct, as_session_id = sid, as_transport = transport\<rparr>))))"

definition connect_quic :: "Net \<Rightarrow> Lib \<Rightarrow> ServerPin \<Rightarrow> Identity \<Rightarrow> (ClientError, AuthenticatedSession) result" where
  "connect_quic net lib pin i = connect_over net lib Quic (sp_quic_port pin) pin i"

definition connect_tcp :: "Net \<Rightarrow> Lib \<Rightarrow> ServerPin \<Rightarrow> Identity \<Rightarrow> (ClientError, AuthenticatedSession) result" where
  "connect_tcp net lib pin i = connect_over net lib TcpFallback (effective_tcp_port pin) pin i"

definition is_transport_failure :: "ClientError \<Rightarrow> bool" where
  "is_transport_failure err =
    (case err of CE_Transport _ \<Rightarrow> True | CE_BadServerAddr _ \<Rightarrow> True | _ \<Rightarrow> False)"

definition connect :: "Net \<Rightarrow> Lib \<Rightarrow> ServerPin \<Rightarrow> Identity \<Rightarrow> (ClientError, AuthenticatedSession) result" where
  "connect net lib pin i =
    (case connect_quic net lib pin i of
       Inr sess \<Rightarrow> Inr sess
     | Inl e \<Rightarrow> if is_transport_failure e then connect_tcp net lib pin i else Inl e)"

section \<open>Publishing\<close>

record PublishedTunnel =
  pt_tunnel_id :: TunnelId
  pt_public_url :: string
  pt_public_port :: "u16 option"

text \<open>The registration; \<^verbatim>\<open>timed_out\<close> says that the deadline passes before the reply arrives.\<close>

definition publish ::
  "bool \<Rightarrow> string \<Rightarrow> TunnelKind \<Rightarrow> bool \<Rightarrow> SessionId option \<Rightarrow> ClientStream
    \<Rightarrow> (ClientError, PublishedTunnel) result \<times> ClientStream" where
  "publish timed_out label kind has_inspector resume_session_id ct =
    (case client_send (RegisterTunnel label kind resume_session_id has_inspector) ct of
       (Inl e, ct) \<Rightarrow> (Inl e, ct)
     | (Inr _, ct) \<Rightarrow>
        if timed_out then (Inl CE_RegistrationTimeout, ct)
        else case client_recv ct of
          (Inl e, ct) \<Rightarrow> (Inl (CE_Transport e), ct)
        | (Inr (TunnelRegistered tid url port), ct) \<Rightarrow>
            (Inr \<lparr>pt_tunnel_id = tid, pt_public_url = url, pt_public_port = port\<rparr>, ct)
        | (Inr (TunnelRejected code detail), ct) \<Rightarrow> (Inl (CE_TunnelRejected code detail), ct)
        | (Inr _, ct) \<Rightarrow> (Inl (CE_Protocol ''expected TunnelRegistered''), ct))"

section \<open>Enrolling\<close>

record EnrollOptions =
  eo_server_host :: string
  eo_server_quic_port :: u16
  eo_sni :: "string option"
  eo_admin_token :: string
  eo_label_hint :: "string option"
  eo_pinned_fingerprint :: "string option"

text \<open>The pin to check, or \<^verbatim>\<open>None\<close> for trust on first use.\<close>

definition build_enroll_tls :: "Lib \<Rightarrow> EnrollOptions \<Rightarrow> (ClientError, bytes option) result" where
  "build_enroll_tls lib opts =
    (case eo_pinned_fingerprint opts of
       None \<Rightarrow> Inr None
     | Some fp \<Rightarrow>
        (case strip_prefix fp ''sha256:'' of
           None \<Rightarrow> Inl CE_BadFingerprint
         | Some h \<Rightarrow>
            (case lib_hex_decode lib h of
               Inl _ \<Rightarrow> Inl CE_BadFingerprint
             | Inr v \<Rightarrow> if length v = 32 then Inr (Some v) else Inl CE_BadFingerprint)))"

text \<open>
  \<^verbatim>\<open>dial_enroll\<close> opens the connection under that verifier and gives the first stream and the
  fingerprint learned on first use. \<^verbatim>\<open>existing\<close> is what loading the configuration returns,
  \<^verbatim>\<open>save\<close> what storing it does.
\<close>

definition enroll ::
  "Net \<Rightarrow> Lib \<Rightarrow> (string \<Rightarrow> string \<Rightarrow> bytes option \<Rightarrow> (ClientError, ClientStream \<times> string option) result) \<Rightarrow>
    (ClientError, ClientConfig) result \<Rightarrow> bytes \<Rightarrow> (ClientConfig \<Rightarrow> (ClientError, unit) result) \<Rightarrow> EnrollOptions
    \<Rightarrow> (ClientError, ClientConfig) result" where
  "enroll net lib dial_enroll existing seed save opts =
    (let i = (case existing of
            Inr cfg \<Rightarrow> cfg_identity cfg
          | Inl _ \<Rightarrow> generate (lib_hex_encode lib) (lib_verifying_key lib) seed);
         sni = (case eo_sni opts of Some s \<Rightarrow> s | None \<Rightarrow> eo_server_host opts);
         tmp_pin = \<lparr>sp_host = eo_server_host opts, sp_quic_port = eo_server_quic_port opts, sp_tcp_port = None,
           sp_sni = eo_sni opts, sp_fingerprint = eo_pinned_fingerprint opts\<rparr>
     in case build_enroll_tls lib opts of
       Inl e \<Rightarrow> Inl e
     | Inr verifier \<Rightarrow>
        (case resolve_server net tmp_pin (sp_quic_port tmp_pin) of
           Inl e \<Rightarrow> Inl e
         | Inr addr \<Rightarrow>
            (case dial_enroll addr sni verifier of
               Inl e \<Rightarrow> Inl e
             | Inr (ct, learned) \<Rightarrow>
                (case send_kind ct of
                   (Inl e, _) \<Rightarrow> Inl e
                 | (Inr _, ct) \<Rightarrow>
                    (case id_pubkey (lib_hex_decode lib) i of
                       Inl e \<Rightarrow> Inl e
                     | Inr pk \<Rightarrow>
                        (case client_send (Enroll (eo_admin_token opts) pk (eo_label_hint opts)) ct of
                           (Inl e, _) \<Rightarrow> Inl e
                         | (Inr _, ct) \<Rightarrow>
                            (case fst (client_recv ct) of
                               Inl e \<Rightarrow> Inl (CE_Transport e)
                             | Inr (EnrollRejected code) \<Rightarrow> Inl (CE_EnrollRejected code)
                             | Inr (EnrollOk line) \<Rightarrow>
                                (let fingerprint = (case eo_pinned_fingerprint opts of Some fp \<Rightarrow> Some fp | None \<Rightarrow> learned);
                                     config = \<lparr>cfg_identity = i, cfg_server = tmp_pin\<lparr>sp_fingerprint := fingerprint\<rparr>\<rparr>
                                 in case save config of Inl e \<Rightarrow> Inl e | Inr _ \<Rightarrow> Inr config)
                             | Inr _ \<Rightarrow> Inl (CE_Protocol ''expected EnrollOk''))))))))"

section \<open>The command line\<close>

definition show_auth_error :: "AuthConfigError \<Rightarrow> string" where
  "show_auth_error e =
    (case e of
       MissingColon \<Rightarrow> ''--auth value missing the `:` separator''
     | EmptyUser \<Rightarrow> ''--auth username is empty''
     | EnvUnset v \<Rightarrow> ''env var `'' @ v @ ''` is unset or empty''
     | FileRead p m \<Rightarrow> ''cannot read `'' @ p @ ''`: '' @ m
     | FileEmpty p \<Rightarrow> ''file `'' @ p @ ''` is empty'')"

definition auth_err :: "AuthConfigError \<Rightarrow> ClientError" where
  "auth_err e = CE_Config (''auth flag: '' @ show_auth_error e)"

definition policy_of ::
  "(string \<Rightarrow> (AuthConfigError, AuthPolicy) result) \<Rightarrow> (AuthConfigError, string) result \<Rightarrow> (ClientError, AuthPolicy option) result" where
  "policy_of mk text_read =
    (case text_read of
       Inl e \<Rightarrow> Inl (auth_err e)
     | Inr v \<Rightarrow> (case mk v of Inl e \<Rightarrow> Inl (auth_err e) | Inr p \<Rightarrow> Inr (Some p)))"

definition build_auth_config ::
  "(string \<Rightarrow> string option) \<Rightarrow> (string \<Rightarrow> (string, string) result) \<Rightarrow> string option \<Rightarrow> string option \<Rightarrow> string option
    \<Rightarrow> string option \<Rightarrow> string option \<Rightarrow> string option \<Rightarrow> string option \<Rightarrow> (ClientError, AuthConfig option) result" where
  "build_auth_config env fs auth auth_env auth_file api_key api_key_env api_key_file auth_realm =
    (let realm = (case auth_realm of Some r \<Rightarrow> r | None \<Rightarrow> DEFAULT_REALM);
         key = (\<lambda>v. Inr (api_key_from_str v));
         policy =
           (case auth of Some v \<Rightarrow> policy_of session_from_userpass (Inr v) | None \<Rightarrow>
           (case auth_env of Some var \<Rightarrow> policy_of session_from_userpass (read_env env var) | None \<Rightarrow>
           (case auth_file of Some path \<Rightarrow> policy_of session_from_userpass (read_file fs path) | None \<Rightarrow>
           (case api_key of Some v \<Rightarrow> policy_of key (Inr v) | None \<Rightarrow>
           (case api_key_env of Some var \<Rightarrow> policy_of key (read_env env var) | None \<Rightarrow>
           (case api_key_file of Some path \<Rightarrow> policy_of key (read_file fs path) | None \<Rightarrow> Inr None))))))
     in case policy of
       Inl e \<Rightarrow> Inl e
     | Inr None \<Rightarrow> Inr None
     | Inr (Some p) \<Rightarrow> Inr (Some \<lparr>ac_policy = p, ac_realm = realm\<rparr>))"

definition DEFAULT_QUIC_PORT :: u16 where "DEFAULT_QUIC_PORT = 7853"

definition split_host_port :: "string \<Rightarrow> string \<times> u16" where
  "split_host_port server =
    (case rsplit_once CHR '':'' server of
       Some (host, port) \<Rightarrow>
         (case parse_uint 16 port of Some p \<Rightarrow> (host, of_nat p) | None \<Rightarrow> (server, DEFAULT_QUIC_PORT))
     | None \<Rightarrow> (server, DEFAULT_QUIC_PORT))"

definition hex8 :: "u32 \<Rightarrow> string" where
  "hex8 n = map (\<lambda>k. hex_char (ucast (drop_bit (4 * k) n AND 0x0F))) [7, 6, 5, 4, 3, 2, 1, 0]"

definition default_label :: "u32 \<Rightarrow> string" where
  "default_label n = ''krot-'' @ hex8 n"


section \<open>Client and server on one Control stream\<close>

text \<open>
  The two ends of one stream: each reads, in order, what the other has written by the end of
  its own run, and then finds the stream ended.
\<close>

definition wired :: "ClientStream \<Rightarrow> ClientStream \<Rightarrow> ControlStream \<Rightarrow> ControlStream \<Rightarrow> bool" where
  "wired ct ct' cs cs' \<longleftrightarrow>
    ct_in ct = map Inr (cs_out cs') \<and> cs_in cs = map Inr (ct_out ct') \<and>
    cs_kind cs = (case ct_kind ct' of Some b \<Rightarrow> Inr b | None \<Rightarrow> Inl UnexpectedEof) \<and> ct_out ct = [] \<and> cs_out cs = []"

lemma client_recv_keeps: "client_recv ct = (r, ct') \<Longrightarrow> ct_out ct' = ct_out ct \<and> ct_kind ct' = ct_kind ct"
  by (auto simp: client_recv_def split: list.splits)

lemma auth_reply_keeps: "auth_reply ct = (r, ct') \<Longrightarrow> ct_out ct' = ct_out ct \<and> ct_kind ct' = ct_kind ct"
  unfolding auth_reply_def by (cases "client_recv ct") (auto dest: client_recv_keeps split: sum.splits ServerFrame.splits)

lemma read_reject_keeps: "read_reject ct = (r, ct') \<Longrightarrow> ct_out ct' = ct_out ct \<and> ct_kind ct' = ct_kind ct"
  unfolding read_reject_def by (cases "client_recv ct") (auto dest: client_recv_keeps split: sum.splits ServerFrame.splits)

lemma challenge_phase_extends:
  assumes "challenge_phase hexd sign i ct = (r, ct')"
  shows "(\<exists>rest. ct_out ct' = ct_out ct @ rest) \<and> ct_kind ct' = ct_kind ct"
proof -
  obtain x ct1 where x: "client_recv ct = (x, ct1)" by (cases "client_recv ct")
  note k = client_recv_keeps [OF x]
  consider (chal) n where "x = Inr (AuthChallenge n)" | (other) "\<nexists>n. x = Inr (AuthChallenge n)" by blast
  then show ?thesis
  proof cases
    case chal
    then show ?thesis using assms x k
      by (auto simp: challenge_phase_def client_send_def split: sum.splits if_splits dest!: auth_reply_keeps)
  next
    case other
    then have "(\<exists>e. ct' = ct1) \<or> (\<exists>c. read_reject ct1 = (c, ct'))"
      using assms x by (auto simp: challenge_phase_def split: sum.splits ServerFrame.splits prod.splits option.splits)
    then show ?thesis using k read_reject_keeps by (metis append_Nil2)
  qed
qed

lemma finish_auth_request:
  assumes "id_pubkey hexd i = Inr pk" "3 \<le> ct_writes ct" "ct_out ct = []"
  shows "finish_auth hexd sign i ct = challenge_phase hexd sign i
    (ct\<lparr>ct_kind := Some (StreamKind_as_byte Control), ct_out := [AuthRequest pk], ct_writes := ct_writes ct - Suc (Suc 0)\<rparr>)"
  using assms by (simp add: finish_auth_def send_kind_def client_send_def)

lemma finish_auth_opens:
  assumes "finish_auth hexd sign i ct = (r, ct')" "id_pubkey hexd i = Inr pk" "3 \<le> ct_writes ct" "ct_out ct = []"
  shows "\<exists>rest. ct_out ct' = AuthRequest pk # rest \<and> ct_kind ct' = Some (StreamKind_as_byte Control)"
  using challenge_phase_extends [OF assms(1) [unfolded finish_auth_request [OF assms(2-4)]]] by simp

lemma finish_auth_challenged:
  assumes "id_pubkey hexd i = Inr pk" "signing_key hexd i = Inr sk" "3 \<le> ct_writes ct" "ct_out ct = []"
    "ct_in ct = Inr (AuthChallenge nonce) # rest"
  shows "\<exists>ct2. finish_auth hexd sign i ct = auth_reply ct2 \<and> ct_in ct2 = rest \<and>
    ct_out ct2 = [AuthRequest pk, AuthResponse (sign_challenge sign sk nonce)]"
  using assms
  by (intro exI [of _ "ct\<lparr>ct_kind := Some (StreamKind_as_byte Control), ct_in := rest,
        ct_out := [AuthRequest pk, AuthResponse (sign_challenge sign sk nonce)], ct_writes := ct_writes ct - Suc (Suc (Suc 0))\<rparr>"])
     (simp add: finish_auth_request challenge_phase_def client_send_def client_recv_def)

lemma perform_challenges:
  assumes "perform cr env keys admin cs = (out, keys', admin', cs')" "cs_kind cs = Inr (StreamKind_as_byte Control)"
    "cs_in cs = Inr (AuthRequest pk) # rest" "keys_get pk keys = Some entry" "1 \<le> cs_writes cs" "cs_out cs = []"
  shows "\<exists>others. cs_out cs' = AuthChallenge (he_nonce env) # others"
  using assms
  by (auto simp: perform_def recv_frame_def send_frame_def handle_auth_def StreamKind_try_from_def answer_and_finish_def
      ctrl_finish_def split: if_splits list.splits sum.splits ClientFrame.splits prod.splits)

lemma perform_accepts:
  assumes "cs_kind cs = Inr (StreamKind_as_byte Control)" "cs_in cs = [Inr (AuthRequest pk), Inr (AuthResponse sig)]"
    "keys_get pk keys = Some entry" "2 \<le> cs_writes cs" "cs_out cs = []"
    "verify_challenge (cr_vk_from_bytes cr) (cr_verify cr) pk (he_nonce env) sig"
  shows "\<exists>cs'. perform cr env keys admin cs =
      (Inr (Auth \<lparr>ho_pubkey = pk, ho_session_id = he_sid env, ho_entry = entry\<rparr>), keys, admin, cs') \<and>
    cs_out cs' = [AuthChallenge (he_nonce env), AuthOk (he_sid env)]"
  using assms by (simp add: perform_def recv_frame_def send_frame_def handle_auth_def StreamKind_try_from_def)

lemma login_succeeds:
  assumes client: "finish_auth hexd sign i ct = (r, ct')" and server: "perform cr env keys admin cs = (out, keys', admin', cs')"
    and wired: "wired ct ct' cs cs'" and writes: "3 \<le> ct_writes ct" "2 \<le> cs_writes cs"
    and key: "id_pubkey hexd i = Inr pk" "signing_key hexd i = Inr sk" "keys_get pk keys = Some entry"
    and ed25519: "\<And>n. verify_challenge (cr_vk_from_bytes cr) (cr_verify cr) pk n (sign_challenge sign sk n)"
  shows "r = Inr (he_sid env) \<and> out = Inr (Auth \<lparr>ho_pubkey = pk, ho_session_id = he_sid env, ho_entry = entry\<rparr>) \<and> keys' = keys"
proof -
  note w = wired [unfolded wired_def]
  obtain rest where o1: "ct_out ct' = AuthRequest pk # rest" "ct_kind ct' = Some (StreamKind_as_byte Control)"
    using finish_auth_opens [OF client key(1) writes(1)] w by blast
  have kind: "cs_kind cs = Inr (StreamKind_as_byte Control)" using w o1(2) by simp
  have i1: "cs_in cs = Inr (AuthRequest pk) # map Inr rest" using w o1(1) by simp
  obtain others where o2: "cs_out cs' = AuthChallenge (he_nonce env) # others"
    using perform_challenges [OF server kind i1 key(3)] writes(2) w by auto
  then have i2: "ct_in ct = Inr (AuthChallenge (he_nonce env)) # map Inr others" using w by simp
  let ?sig = "sign_challenge sign sk (he_nonce env)"
  obtain ct2 where c2: "finish_auth hexd sign i ct = auth_reply ct2" "ct_in ct2 = map Inr others" "ct_out ct2 = [AuthRequest pk, AuthResponse ?sig]"
    using finish_auth_challenged [OF key(1,2) writes(1) _ i2] w by blast
  then have "ct_out ct' = [AuthRequest pk, AuthResponse ?sig]" using auth_reply_keeps [of ct2 r ct'] client by simp
  then have i3: "cs_in cs = [Inr (AuthRequest pk), Inr (AuthResponse ?sig)]" using w by simp
  obtain cs2 where s2: "perform cr env keys admin cs =
      (Inr (Auth \<lparr>ho_pubkey = pk, ho_session_id = he_sid env, ho_entry = entry\<rparr>), keys, admin, cs2)"
      "cs_out cs2 = [AuthChallenge (he_nonce env), AuthOk (he_sid env)]"
    using perform_accepts [OF kind i3 key(3) writes(2) _ ed25519] w by blast
  then have "ct_in ct2 = [Inr (AuthOk (he_sid env))]" using server o2 c2(2) by auto
  then show ?thesis using client c2(1) server s2(1) by (simp add: auth_reply_def client_recv_def)
qed

text \<open>A server that answers an enrollment with success has authorized the key.\<close>

lemma enroll_ok_authorized:
  assumes run: "perform cr env keys admin cs = (out, keys', admin', cs')" and "cs_kind cs = Inr (StreamKind_as_byte Control)"
    "cs_in cs = [Inr (Enroll token pk hint)]" "cs_out cs = []" "cs_out cs' = EnrollOk line # others"
    and b64: "list_all graphic (cr_b64_encode cr pk)" "cr_b64_encode cr pk \<noteq> []" "CHR ''#'' \<notin> set (cr_b64_encode cr pk)"
      "cr_b64_decode cr (cr_b64_encode cr pk) = Some pk" "length pk = 32"
  shows "\<exists>entry. keys_get pk keys' = Some entry \<and> ae_allow_any_subdomain entry"
proof -
  let ?line = "enroll_line (cr_b64_encode cr pk) (he_stamp env) hint"
  have p: "parse_line (cr_b64_decode cr) ?line =
      Some (pk, default_entry\<lparr>ae_allow_any_subdomain := True, ae_comment := line_comment ?line\<rparr>)"
    using b64 by (intro parse_enroll_line)
  have "handle_enroll cr env token pk hint keys admin (cs\<lparr>cs_in := []\<rparr>) = (out, keys', admin', cs')"
    using run assms(2,3) by (simp add: perform_def recv_frame_def StreamKind_try_from_def)
  then show ?thesis
    using assms(4,5) p
    by (auto simp: handle_enroll_def answer_and_finish_def send_frame_def ctrl_finish_def append_line_def Let_def keys_get_def
        AList.update_conv' split: prod.splits sum.splits if_splits)
qed

lemma enroll_reply:
  assumes "enroll net lib dial_enroll existing seed save opts = Inr cfg" "\<And>a n v. dial_enroll a n v = Inr (ct, learned)"
  shows "\<exists>line rest. ct_in ct = Inr (EnrollOk line) # rest"
  using assms
  by (auto simp: enroll_def Let_def client_recv_def send_kind_def client_send_def
      split: sum.splits option.splits prod.splits ServerFrame.splits if_splits list.splits)

section \<open>Properties\<close>

text \<open>
  an honest client gets its session. When client and server run over one stream, the
  client's key is authorized, its signatures verify and no write fails, the client ends
  with the session id the server drew, and the server with the client's key and entry.
\<close>

theorem honest_login:
  assumes "finish_auth hexd sign i ct = (r, ct')" "perform cr env keys admin cs = (out, keys', admin', cs')"
    "wired ct ct' cs cs'" "3 \<le> ct_writes ct" "2 \<le> cs_writes cs"
    "id_pubkey hexd i = Inr pk" "signing_key hexd i = Inr sk" "keys_get pk keys = Some entry"
    "\<And>n. verify_challenge (cr_vk_from_bytes cr) (cr_verify cr) pk n (sign_challenge sign sk n)"
  shows "r = Inr (he_sid env) \<and> out = Inr (Auth \<lparr>ho_pubkey = pk, ho_session_id = he_sid env, ho_entry = entry\<rparr>)"
  using login_succeeds [OF assms] by simp


text \<open>
  A client whose key is not authorized is not told so. The server answers with a rejection
  that names the unknown identity, which the client reads as the frame that is not a
  challenge; it then waits for a second rejection, finds the end of the stream, and reports
  a protocol error.
\<close>

theorem unknown_identity_misreported:
  assumes client: "finish_auth hexd sign i ct = (r, ct')" and server: "perform cr env keys admin cs = (out, keys', admin', cs')"
    and wired: "wired ct ct' cs cs'" and writes: "3 \<le> ct_writes ct" "2 \<le> cs_writes cs"
    and key: "id_pubkey hexd i = Inr pk" "keys_get pk keys = None"
  shows "cs_out cs' = [AuthReject UNKNOWN_IDENTITY] \<and> r = Inl (CE_Protocol ''expected AuthChallenge'')"
proof -
  note w = wired [unfolded wired_def]
  obtain rest where o1: "ct_out ct' = AuthRequest pk # rest" "ct_kind ct' = Some (StreamKind_as_byte Control)"
    using finish_auth_opens [OF client key(1) writes(1)] w by blast
  then have "cs_kind cs = Inr (StreamKind_as_byte Control)" "cs_in cs = Inr (AuthRequest pk) # map Inr rest" using w by simp_all
  then have o2: "cs_out cs' = [AuthReject UNKNOWN_IDENTITY]"
    using server key(2) writes(2) w
    by (auto simp: perform_def recv_frame_def send_frame_def handle_auth_def StreamKind_try_from_def answer_and_finish_def ctrl_finish_def)
  then have "ct_in ct = [Inr (AuthReject UNKNOWN_IDENTITY)]" using w by simp
  then show ?thesis
    using client finish_auth_request [OF key(1) writes(1)] w o2 by (simp add: challenge_phase_def client_recv_def read_reject_def)
qed

text \<open>
  the fallback is tried exactly when it can help. A connect succeeds if the first
  transport does, or if that one failed below the session layer and the other one succeeds;
  a rejection is never retried. A session exists only over a pinned connection.
\<close>

theorem connect_iff:
  "connect net lib pin i = Inr sess \<longleftrightarrow>
    connect_quic net lib pin i = Inr sess \<or>
    (\<exists>e. connect_quic net lib pin i = Inl e \<and> is_transport_failure e \<and> connect_tcp net lib pin i = Inr sess)"
  by (auto simp: connect_def split: sum.splits)

theorem session_is_pinned:
  assumes "connect net lib pin i = Inr sess"
  shows "\<exists>fp. fingerprint_bytes (lib_hex_decode lib) pin = Inr (Some fp) \<and> length fp = 32"
  using assms
  by (auto simp: connect_def connect_quic_def connect_tcp_def connect_over_def build_client_tls_def fingerprint_bytes_def
      split: sum.splits option.splits if_splits)

lemma hex8_chars: "list_all token_char (hex8 n) \<and> length (hex8 n) = 8"
proof -
  have "unat (ucast (x AND 0x0F) :: u8) < 16" for x :: u32
  proof -
    have "x AND 0x0F \<le> 0x0F" by (simp add: word_and_le1)
    then have "unat (x AND 0x0F) \<le> 15" by (simp add: word_le_nat_alt)
    then show ?thesis by (simp add: unsigned_ucast_eq take_bit_eq_mod)
  qed
  then show ?thesis by (simp add: hex8_def hex_char_token)
qed

text \<open>
  the label a client makes up is always one the server accepts.
\<close>

theorem default_label_valid: "is_valid_label (default_label n)"
proof -
  have a: "label_alnum c" if "token_char c" for c
    using that by (auto simp: token_char_def label_alnum_def is_ascii_lowercase_def is_ascii_digit_def less_eq_char_def)
  obtain h where h: "hex8 n = h" "length h = 8" "list_all label_alnum h"
    using hex8_chars [of n] a by (auto simp: list_all_iff)
  then obtain c0 c1 c2 c3 c4 c5 c6 c7 where "h = [c0, c1, c2, c3, c4, c5, c6, c7]"
    by (auto simp: length_Suc_conv numeral_eq_Suc)
  moreover have "label_alnum CHR ''k''" "label_alnum CHR ''r''" "label_alnum CHR ''o''" "label_alnum CHR ''t''"
    by (simp_all add: label_alnum_def is_ascii_lowercase_def less_eq_char_def)
  ultimately show ?thesis using h by (simp add: default_label_def is_valid_label_def)
qed

lemma split_host_port_of_port: "split_host_port (host @ '':'' @ show_nat (unat port)) = (host, port)"
proof -
  have "CHR '':'' \<notin> set (show_nat (unat port))"
    using show_nat_digits [of "unat port"] by (auto simp: list_all_iff is_ascii_digit_def less_eq_char_def)
  then have "rsplit_once CHR '':'' (host @ '':'' @ show_nat (unat port)) = Some (host, show_nat (unat port))"
    by (simp add: rsplit_once_Some)
  moreover have "parse_uint 16 (show_nat (unat port)) = Some (unat port)"
    using unsigned_less [of port, where 'a = nat] by (intro parse_show_nat) simp
  ultimately show ?thesis by (simp add: split_host_port_def)
qed

text \<open>
  a server address with a port is taken apart as it was put together, whatever the host
  is; without a port number at the end the default port is used.
\<close>

theorem split_host_port_roundtrip:
  "split_host_port (host @ '':'' @ show_nat (unat port)) = (host, port) \<and>
   (CHR '':'' \<notin> set name \<longrightarrow> split_host_port name = (name, DEFAULT_QUIC_PORT))"
proof -
  have "rsplit_once CHR '':'' name = None" if "CHR '':'' \<notin> set name"
    using that split_once_None [of "CHR '':''" "rev name"] by (simp add: rsplit_once_def)
  then show ?thesis using split_host_port_of_port by (simp add: split_host_port_def [of name])
qed

text \<open>An IPv6 address without a port loses its last group to the port.\<close>

theorem ipv6_literal_split: "split_host_port ''fe80::1'' = (''fe80:'', 1)"
  using split_host_port_of_port [of "''fe80:''" 1] by (simp add: show_nat.simps char_of_def bit_0)

section \<open>A concrete client\<close>

definition demo_lib_client :: Lib where
  "demo_lib_client = \<lparr>lib_hex_decode = (\<lambda>_. Inr (replicate 32 1)), lib_hex_encode = (\<lambda>_. []), lib_sign = (\<lambda>_ m. m),
     lib_verifying_key = (\<lambda>_. replicate 32 1)\<rparr>"

definition demo_identity :: Identity where
  "demo_identity = \<lparr>id_private_key = [], id_public_key = []\<rparr>"

definition demo_ct :: "ServerFrame list \<Rightarrow> ClientStream" where
  "demo_ct fs = \<lparr>ct_kind = None, ct_in = map Inr fs, ct_out = [], ct_writes = 3, ct_finished = False, ct_closed = False\<rparr>"

definition demo_cs :: "ClientFrame list \<Rightarrow> ControlStream" where
  "demo_cs fs = \<lparr>cs_kind = Inr (StreamKind_as_byte Control), cs_in = map Inr fs, cs_out = [], cs_writes = 2, cs_finished = False\<rparr>"

lemma demo_identity_keys:
  "id_pubkey (lib_hex_decode demo_lib_client) demo_identity = Inr (replicate 32 1)"
  "signing_key (lib_hex_decode demo_lib_client) demo_identity = Inr (replicate 32 1)"
  by (simp_all add: id_pubkey_def signing_key_def demo_lib_client_def)

lemma demo_signs:
  "verify_challenge (cr_vk_from_bytes demo_crypto) (cr_verify demo_crypto) pk n (sign_challenge (lib_sign demo_lib_client) sk n)"
  by (simp add: verify_challenge_def sign_challenge_def demo_crypto_def demo_lib_client_def)

lemma demo_login_run:
  assumes "keys_get (replicate 32 1) keys = Some entry"
  obtains r ct' out keys' admin' cs' where
    "finish_auth (lib_hex_decode demo_lib_client) (lib_sign demo_lib_client) demo_identity (demo_ct [AuthChallenge [7], AuthOk [9]]) = (r, ct')"
    "perform demo_crypto demo_env keys admin (demo_cs [AuthRequest (replicate 32 1), AuthResponse (signing_payload [7])]) = (out, keys', admin', cs')"
    "wired (demo_ct [AuthChallenge [7], AuthOk [9]]) ct' (demo_cs [AuthRequest (replicate 32 1), AuthResponse (signing_payload [7])]) cs'"
proof -
  let ?ct = "demo_ct [AuthChallenge [7], AuthOk [9]]" and ?cs = "demo_cs [AuthRequest (replicate 32 1), AuthResponse (signing_payload [7])]"
  have v: "verify_challenge (cr_vk_from_bytes demo_crypto) (cr_verify demo_crypto) (replicate 32 1) (he_nonce demo_env) (signing_payload [7])"
    by (simp add: verify_challenge_def demo_crypto_def demo_env_def)
  obtain cs' where s: "perform demo_crypto demo_env keys admin ?cs =
      (Inr (Auth \<lparr>ho_pubkey = replicate 32 1, ho_session_id = he_sid demo_env, ho_entry = entry\<rparr>), keys, admin, cs')"
      "cs_out cs' = [AuthChallenge (he_nonce demo_env), AuthOk (he_sid demo_env)]"
    using perform_accepts [OF _ _ assms _ _ v, of ?cs admin] by (auto simp: demo_cs_def)
  obtain ct2 where c: "finish_auth (lib_hex_decode demo_lib_client) (lib_sign demo_lib_client) demo_identity ?ct = auth_reply ct2"
      "ct_in ct2 = [Inr (AuthOk [9])]" "ct_out ct2 = [AuthRequest (replicate 32 1), AuthResponse (sign_challenge (lib_sign demo_lib_client) (replicate 32 1) [7])]"
    using finish_auth_challenged [OF demo_identity_keys, of ?ct "[7]" "[Inr (AuthOk [9])]"] by (auto simp: demo_ct_def)
  obtain r ct' where r: "auth_reply ct2 = (r, ct')" by (cases "auth_reply ct2")
  have k: "ct_kind ct' = Some (StreamKind_as_byte Control)"
    using finish_auth_opens [OF c(1) [unfolded r] demo_identity_keys(1)] by (auto simp: demo_ct_def)
  have "ct_out ct' = ct_out ct2" using auth_reply_keeps [OF r] by simp
  then have "wired ?ct ct' ?cs cs'"
    using s(2) c(3) k
    by (simp add: wired_def demo_ct_def demo_cs_def demo_env_def sign_challenge_def demo_lib_client_def)
  then show ?thesis using that [OF c(1) [unfolded r] s(1)] by blast
qed

definition demo_opts :: EnrollOptions where
  "demo_opts = \<lparr>eo_server_host = ''relay'', eo_server_quic_port = 443, eo_sni = None, eo_admin_token = ''t'', eo_label_hint = None,
     eo_pinned_fingerprint = None\<rparr>"

definition demo_net :: Net where
  "demo_net = \<lparr>net_lookup = (\<lambda>_. Inr [''addr'']), net_dial = (\<lambda>_ _ _ _. Inl CE_BadFingerprint)\<rparr>"

lemma demo_enroll_run:
  assumes "ct_in ct1 = [Inr (EnrollOk line)]" "2 \<le> ct_writes ct1"
  shows "\<exists>pin. enroll demo_net demo_lib_client (\<lambda>_ _ _. Inr (ct1, Some fp)) (Inl CE_BadFingerprint)
    seed (\<lambda>_. Inr ()) demo_opts = Inr \<lparr>cfg_identity = demo_identity, cfg_server = pin\<rparr>"
  using assms demo_identity_keys(1) [unfolded demo_lib_client_def demo_identity_def]
  by (simp add: enroll_def Let_def build_enroll_tls_def demo_opts_def resolve_server_def demo_net_def send_kind_def client_send_def
      client_recv_def generate_def demo_lib_client_def demo_identity_def)

theorem honest_login_witness:
  "fst (finish_auth (lib_hex_decode demo_lib_client) (lib_sign demo_lib_client) demo_identity (demo_ct [AuthChallenge [7], AuthOk [9]])) = Inr [9]"
proof -
  have k: "keys_get (replicate 32 1) demo_keys = Some default_entry" by (simp add: keys_get_def demo_keys_def)
  obtain r ct' out keys' admin' cs' where run:
    "finish_auth (lib_hex_decode demo_lib_client) (lib_sign demo_lib_client) demo_identity (demo_ct [AuthChallenge [7], AuthOk [9]]) = (r, ct')"
    "perform demo_crypto demo_env demo_keys demo_tokens (demo_cs [AuthRequest (replicate 32 1), AuthResponse (signing_payload [7])]) = (out, keys', admin', cs')"
    "wired (demo_ct [AuthChallenge [7], AuthOk [9]]) ct' (demo_cs [AuthRequest (replicate 32 1), AuthResponse (signing_payload [7])]) cs'"
    by (rule demo_login_run [OF k])
  have "r = Inr (he_sid demo_env)"
    using honest_login [OF run _ _ demo_identity_keys k demo_signs] by (simp add: demo_ct_def demo_cs_def)
  then show ?thesis using run(1) by (simp add: demo_env_def)
qed

theorem split_host_port_roundtrip_witness: "split_host_port ''relay'' = (''relay'', DEFAULT_QUIC_PORT)"
  using split_host_port_roundtrip [of _ _ "''relay''"] by simp


end
