(* ===== verification/Files.thy ===== *)
theory Files
  imports Admin Http_Text
begin

text \<open>
  The files the programs keep. Every secret and every key list is replaced by writing a
  temporary file beside it and renaming that over it: \<^verbatim>\<open>atomic_write\<close> of \<^verbatim>\<open>identity.rs\<close> and
  \<^verbatim>\<open>keys.rs\<close>, \<^verbatim>\<open>write_secret\<close> of \<^verbatim>\<open>admin.rs\<close>, \<^verbatim>\<open>save_to\<close> of the client's \<^verbatim>\<open>config.rs\<close>.
  Each is the list of the file operations it performs, writes byte by byte. A run of it
  performs the first \<^verbatim>\<open>n\<close> of them: it stops early when one fails or when the process is
  killed. A disk maps a path to contents and permission bits. That data reaches the disk in
  the order it is written is what the calls to fsync are for, and is taken for granted.
\<close>

section \<open>Paths\<close>

text \<open>\<^verbatim>\<open>Path::join\<close> with a plain file name, and \<^verbatim>\<open>PathBuf::set_extension\<close>.\<close>

definition join_path :: "string \<Rightarrow> string \<Rightarrow> string" where
  "join_path dir name = (if dir = [] \<or> last dir = CHR ''/'' then dir @ name else dir @ ''/'' @ name)"

definition name_with_extension :: "string \<Rightarrow> string \<Rightarrow> string" where
  "name_with_extension ext name =
    (case rsplit_once CHR ''.'' name of
       Some (stem, _) \<Rightarrow> (if stem = [] then name else stem) @ ''.'' @ ext
     | None \<Rightarrow> name @ ''.'' @ ext)"

definition set_extension :: "string \<Rightarrow> string \<Rightarrow> string" where
  "set_extension ext path =
    (case rsplit_once CHR ''/'' path of
       Some (dir, name) \<Rightarrow> dir @ ''/'' @ name_with_extension ext name
     | None \<Rightarrow> name_with_extension ext path)"

definition tmp_path :: "string \<Rightarrow> string" where
  "tmp_path path = set_extension ''tmp'' path"

section \<open>File operations\<close>

type_synonym disk = "string \<rightharpoonup> bytes \<times> nat"

text \<open>The permission bits of a new file under the usual umask, \<^verbatim>\<open>0o644\<close>.\<close>

definition NEW_FILE_MODE :: nat where "NEW_FILE_MODE = 420"

definition OWNER_ONLY :: nat where "OWNER_ONLY = 384"

datatype FileOp =
    OpenTruncate string
  | Append string u8
  | SyncFile string
  | SetMode string nat
  | Rename string string
  | SyncParent string
  | MakeDir string

fun file_op :: "FileOp \<Rightarrow> disk \<Rightarrow> disk" where
  "file_op (OpenTruncate p) d = d(p \<mapsto> ([], case d p of None \<Rightarrow> NEW_FILE_MODE | Some (_, m) \<Rightarrow> m))"
| "file_op (Append p b) d = (case d p of None \<Rightarrow> d | Some (bs, m) \<Rightarrow> d(p \<mapsto> (bs @ [b], m)))"
| "file_op (SyncFile p) d = d"
| "file_op (SetMode p m) d = (case d p of None \<Rightarrow> d | Some (bs, _) \<Rightarrow> d(p \<mapsto> (bs, m)))"
| "file_op (Rename p q) d = (case d p of None \<Rightarrow> d | Some f \<Rightarrow> if p = q then d else (d(q \<mapsto> f))(p := None))"
| "file_op (SyncParent p) d = d"
| "file_op (MakeDir p) d = d"

definition file_run :: "nat \<Rightarrow> FileOp list \<Rightarrow> disk \<Rightarrow> bool \<times> disk" where
  "file_run n ops d = (length ops \<le> n, fold file_op (take n ops) d)"

text \<open>\<^verbatim>\<open>std::fs::write\<close> and \<^verbatim>\<open>std::fs::read_to_string\<close>.\<close>

definition write_ops :: "string \<Rightarrow> bytes \<Rightarrow> FileOp list" where
  "write_ops p contents = OpenTruncate p # map (Append p) contents"

definition read_to_string :: "disk \<Rightarrow> string \<Rightarrow> (ServerError, string) result" where
  "read_to_string d p =
    (case d p of
       None \<Rightarrow> Inl SE_Io
     | Some (bs, _) \<Rightarrow> (case from_utf8 bs of None \<Rightarrow> Inl SE_Io | Some s \<Rightarrow> Inr s))"

section \<open>Replacing a file\<close>

definition write_and_sync :: "string \<Rightarrow> bytes \<Rightarrow> nat \<Rightarrow> FileOp list" where
  "write_and_sync p contents mode = write_ops p contents @ [SyncFile p, SetMode p mode]"

definition sync_parent :: "string \<Rightarrow> FileOp list" where
  "sync_parent p = [SyncParent p]"

definition atomic_write :: "string \<Rightarrow> bytes \<Rightarrow> nat \<Rightarrow> FileOp list" where
  "atomic_write p contents mode =
    write_and_sync (tmp_path p) contents mode @ [Rename (tmp_path p) p] @ sync_parent p"

definition keys_atomic_write :: "string \<Rightarrow> bytes \<Rightarrow> FileOp list" where
  "keys_atomic_write p contents =
    write_ops (tmp_path p) contents @ [SyncFile (tmp_path p), SetMode (tmp_path p) OWNER_ONLY, Rename (tmp_path p) p] @
    sync_parent p"

definition write_secret :: "string \<Rightarrow> bytes \<Rightarrow> FileOp list" where
  "write_secret p contents =
    write_ops (tmp_path p) contents @ [SyncFile (tmp_path p), SetMode (tmp_path p) OWNER_ONLY, Rename (tmp_path p) p] @
    sync_parent p"

text \<open>The client's configuration, without the syncs.\<close>

definition save_to :: "string \<Rightarrow> string \<Rightarrow> bytes \<Rightarrow> FileOp list" where
  "save_to dir file text_bytes =
    (let path = join_path dir file
     in [MakeDir dir] @ write_ops (tmp_path path) text_bytes @ [SetMode (tmp_path path) OWNER_ONLY, Rename (tmp_path path) path])"

section \<open>All or nothing\<close>

text \<open>
  A replacement: operations on the temporary file alone, that leave \<^verbatim>\<open>f\<close> in it, then the
  rename and operations that touch nothing.
\<close>

definition op_only :: "string \<Rightarrow> FileOp \<Rightarrow> bool" where
  "op_only p e \<longleftrightarrow>
    (case e of
       OpenTruncate q \<Rightarrow> q = p
     | Append q _ \<Rightarrow> q = p
     | SetMode q _ \<Rightarrow> q = p
     | Rename _ _ \<Rightarrow> False
     | _ \<Rightarrow> True)"

definition op_idle :: "FileOp \<Rightarrow> bool" where
  "op_idle e \<longleftrightarrow> (case e of SyncFile _ \<Rightarrow> True | SyncParent _ \<Rightarrow> True | MakeDir _ \<Rightarrow> True | _ \<Rightarrow> False)"

lemma fold_op_only: "list_all (op_only p) ops \<Longrightarrow> q \<noteq> p \<Longrightarrow> fold file_op ops d q = d q"
  by (induction ops arbitrary: d) (auto simp: op_only_def split: FileOp.splits option.splits)

lemma fold_op_idle: "list_all op_idle ops \<Longrightarrow> fold file_op ops d = d"
  by (induction ops arbitrary: d) (auto simp: op_idle_def split: FileOp.splits)

lemma list_all_take: "list_all P xs \<Longrightarrow> list_all P (take n xs)"
  by (auto simp: list_all_iff dest: in_set_takeD)

lemma fold_replacement:
  assumes "ops = before @ Rename t p # after" "list_all (op_only t) before" "list_all op_idle after" "t \<noteq> p"
    and "fold file_op before d t = Some f"
  shows "fold file_op (take n ops) d p = (if length before < n then Some f else d p)"
    "q \<noteq> p \<Longrightarrow> q \<noteq> t \<Longrightarrow> fold file_op (take n ops) d q = d q"
proof -
  have b: "fold file_op (take n before) d q = d q" if "q \<noteq> t" for q
    using fold_op_only [OF list_all_take [OF assms(2)] that] .
  have b': "fold file_op before d q = d q" if "q \<noteq> t" for q
    using fold_op_only [OF assms(2) that] .
  have a: "fold file_op (take m after) d' = d'" for m d'
    by (intro fold_op_idle list_all_take assms(3))
  show "fold file_op (take n ops) d p = (if length before < n then Some f else d p)"
    using assms(1,4,5) a b [of p] by (cases "n - length before") (auto simp: take_Cons')
  show "fold file_op (take n ops) d q = d q" if "q \<noteq> p" "q \<noteq> t"
    using assms(1,4,5) a b [OF that(2)] b' [OF that(2)] that by (cases "n - length before") (auto simp: take_Cons')
qed

lemma fold_appends: "d p = Some (bs, m) \<Longrightarrow> fold file_op (map (Append p) cs) d p = Some (bs @ cs, m)"
  by (induction cs arbitrary: d bs) auto

lemma fold_write_ops: "fold file_op (write_ops p cs) d p = Some (cs, case d p of None \<Rightarrow> NEW_FILE_MODE | Some (_, m) \<Rightarrow> m)"
  unfolding write_ops_def fold_simps o_def by (subst fold_appends) auto

lemma write_ops_only: "list_all (op_only p) (write_ops p cs)"
  by (simp add: write_ops_def op_only_def list_all_iff)

lemma fold_write_mode: "fold file_op (write_ops p cs @ [SyncFile p, SetMode p mode]) d p = Some (cs, mode)"
  by (simp add: fold_write_ops)

lemma atomic_write_split:
  "atomic_write p cs mode = (write_ops (tmp_path p) cs @ [SyncFile (tmp_path p), SetMode (tmp_path p) mode]) @
     Rename (tmp_path p) p # [SyncParent p]"
  "keys_atomic_write p cs = atomic_write p cs OWNER_ONLY"
  "write_secret p cs = atomic_write p cs OWNER_ONLY"
  by (simp_all add: atomic_write_def write_and_sync_def sync_parent_def keys_atomic_write_def write_secret_def)

lemma atomic_write_disk:
  assumes "tmp_path p \<noteq> p"
  shows "fold file_op (take n (atomic_write p cs mode)) d p = (if length cs + 3 < n then Some (cs, mode) else d p)"
    "q \<noteq> p \<Longrightarrow> q \<noteq> tmp_path p \<Longrightarrow> fold file_op (take n (atomic_write p cs mode)) d q = d q"
proof -
  let ?b = "write_ops (tmp_path p) cs @ [SyncFile (tmp_path p), SetMode (tmp_path p) mode]"
  have "list_all (op_only (tmp_path p)) ?b" using write_ops_only by (simp add: op_only_def)
  note r = fold_replacement [OF atomic_write_split(1) this _ assms fold_write_mode]
  show "fold file_op (take n (atomic_write p cs mode)) d p = (if length cs + 3 < n then Some (cs, mode) else d p)"
    using r(1) by (simp add: op_idle_def write_ops_def)
  show "q \<noteq> p \<Longrightarrow> q \<noteq> tmp_path p \<Longrightarrow> fold file_op (take n (atomic_write p cs mode)) d q = d q"
    using r(2) by (simp add: op_idle_def)
qed

lemma atomic_write_run:
  assumes "tmp_path p \<noteq> p" "file_run n (atomic_write p cs mode) d = (completed, d')"
  shows "d' p = (if length cs + 3 < n then Some (cs, mode) else d p)" "completed \<Longrightarrow> length cs + 3 < n"
    "q \<noteq> p \<Longrightarrow> q \<noteq> tmp_path p \<Longrightarrow> d' q = d q"
proof -
  have d': "d' = fold file_op (take n (atomic_write p cs mode)) d" "completed \<longleftrightarrow> length (atomic_write p cs mode) \<le> n"
    using assms(2) unfolding file_run_def by blast+
  show "d' p = (if length cs + 3 < n then Some (cs, mode) else d p)" "q \<noteq> p \<Longrightarrow> q \<noteq> tmp_path p \<Longrightarrow> d' q = d q"
    unfolding d'(1) by (rule atomic_write_disk [OF assms(1)])+
  show "length cs + 3 < n" if completed
    using that unfolding d'(2) by (simp add: atomic_write_split(1) write_ops_def)
qed

lemma rsplit_once_None: "c \<notin> set s \<Longrightarrow> rsplit_once c s = None"
  using split_once_None [of c "rev s"] by (simp add: rsplit_once_def)

lemma tmp_path_join:
  assumes "CHR ''/'' \<notin> set name"
  shows "tmp_path (join_path dir name) = join_path dir (name_with_extension ''tmp'' name)"
proof -
  have p: "rsplit_once CHR ''/'' (d @ CHR ''/'' # name) = Some (d, name)" for d
    using assms by (simp add: rsplit_once_Some)
  have "dir = butlast dir @ [CHR ''/'']" if "dir \<noteq> []" "last dir = CHR ''/''"
    using that append_butlast_last_id [of dir] by simp
  then show ?thesis
    using p [of dir] p [of "butlast dir"] rsplit_once_None [OF assms]
    by (cases "dir = []"; cases "last dir = CHR ''/''")
       (auto simp: tmp_path_def set_extension_def join_path_def, metis append.assoc append_Cons append_Nil option.simps(5) prod.case)
qed

lemma join_path_inject [simp]: "join_path dir a = join_path dir b \<longleftrightarrow> a = b"
  by (simp add: join_path_def)

section \<open>Properties\<close>

text \<open>
  a replaced file is never half written. However early the replacement stops, the file
  holds what it held before or the new contents with the new permissions, and no file but
  this one and its temporary neighbour is touched; a replacement that completes leaves the
  new contents.
\<close>

theorem atomic_write_all_or_nothing:
  assumes "tmp_path p \<noteq> p" "file_run n (atomic_write p contents mode) d = (completed, d')"
  shows "(d' p = d p \<or> d' p = Some (contents, mode)) \<and> (completed \<longrightarrow> d' p = Some (contents, mode)) \<and>
    (\<forall>q. q \<noteq> p \<and> q \<noteq> tmp_path p \<longrightarrow> d' q = d q)"
  using atomic_write_run [OF assms] by simp

theorem atomic_write_all_or_nothing_witness:
  "\<exists>d'. snd (file_run 2 (atomic_write ''keys'' [1, 2] 384) [''keys'' \<mapsto> ([7], 384)]) = d' \<and>
    (d' ''keys'' = Some ([7], 384) \<or> d' ''keys'' = Some ([1, 2], 384))"
proof -
  have t: "tmp_path ''keys'' \<noteq> ''keys''"
    by (simp add: tmp_path_def set_extension_def name_with_extension_def rsplit_once_None)
  show ?thesis
    using atomic_write_all_or_nothing [OF t surjective_pairing, of 2 "[1, 2]" 384 "[''keys'' \<mapsto> ([7], 384)]"] by auto
qed

text \<open>
  The contents are complete before the permissions are restricted: a secret that replaces
  nothing is for a while in a file everybody may read.
\<close>

theorem secret_readable_before_chmod:
  assumes "d (tmp_path p) = None"
  shows "snd (file_run (Suc (length contents)) (write_secret p contents) d) (tmp_path p) = Some (contents, NEW_FILE_MODE)"
proof -
  have "take (Suc (length contents)) (write_secret p contents) = write_ops (tmp_path p) contents"
    by (simp add: write_secret_def write_ops_def)
  then show ?thesis using assms by (simp add: file_run_def fold_write_ops)
qed

text \<open>What a key registry finds when it opens its file.\<close>

definition disk_text :: "disk \<Rightarrow> string \<Rightarrow> string option" where
  "disk_text d p = (case d p of None \<Rightarrow> None | Some (bs, _) \<Rightarrow> from_utf8 bs)"

text \<open>
  C21: an enrollment that is cut short loses no key. When a server stops anywhere within
  storing a new line, the file it finds again parses, to the keys as they were or to the
  keys with the new one.
\<close>

theorem enrollment_survives_crash:
  assumes on_disk: "kr_file kr = Some old" "CHR 0x0D \<notin> set old" "parse_file b64 (kr_file kr) = Inr es" "map_of es = map_of (kr_entries kr)"
    and line: "CHR 0x0A \<notin> set line" "CHR 0x0D \<notin> set line" "trim line = line" "parse_line b64 line = Some (pk, e)"
    and run: "append_line b64 True line kr = (r, kr')" "kr_file kr' = Some new" "utf8_valid (as_bytes old)" "utf8_valid (as_bytes new)"
    and disk: "d path = Some (as_bytes old, m)" "tmp_path path \<noteq> path"
      "file_run n (keys_atomic_write path (as_bytes new)) d = (completed, d')"
  shows "\<exists>es'. parse_file b64 (disk_text d' path) = Inr es' \<and>
    (map_of es' = map_of (kr_entries kr) \<or> map_of es' = (map_of (kr_entries kr))(pk \<mapsto> e)) \<and>
    (completed \<longrightarrow> map_of es' = (map_of (kr_entries kr))(pk \<mapsto> e))"
proof -
  obtain es2 where new: "parse_file b64 (Some new) = Inr es2" "map_of es2 = (map_of (kr_entries kr))(pk \<mapsto> e)"
    using append_line_in_step [OF on_disk(1-4) line] run(1,2) by auto
  have "d' path = d path \<and> \<not> completed \<or> d' path = Some (as_bytes new, OWNER_ONLY)"
    using atomic_write_run(1,2) [OF disk(2,3) [unfolded atomic_write_split(2)]] by (cases completed) simp_all
  then consider "disk_text d' path = Some old" "\<not> completed" | "disk_text d' path = Some new"
    using disk(1) run(3,4) by (auto simp: disk_text_def from_utf8_def)
  then show ?thesis using new on_disk(1,3,4) by cases auto
qed

theorem enrollment_survives_crash_witness:
  "\<exists>es'. parse_file demo_b64 (disk_text (snd (file_run 3 (keys_atomic_write ''keys'' (as_bytes (''ed25519 CCC'' @ [CHR 0x0A])))
      [''keys'' \<mapsto> ([], 384)])) ''keys'') = Inr es' \<and>
    (map_of es' = Map.empty \<or> map_of es' = [replicate 32 3 \<mapsto> default_entry])"
proof -
  let ?kr = "\<lparr>kr_file = Some [], kr_entries = [], kr_revoked = []\<rparr>"
  have l: "parse_line demo_b64 ''ed25519 CCC'' = Some (replicate 32 3, default_entry)"
    by (simp add: parse_line_def demo_b64_def line_comment_def parse_options_def add_fragment_def
        continue_value_def default_entry_def str_eval)
  have p: "parse_file demo_b64 (kr_file ?kr) = Inr []" by (simp add: parse_file_def parse_keys_text_def str_eval)
  have a: "append_line demo_b64 True ''ed25519 CCC'' ?kr = (Inr (trim_end ''ed25519 CCC''),
      ?kr\<lparr>kr_file := Some (''ed25519 CCC'' @ [CHR 0x0A]), kr_entries := [(replicate 32 3, default_entry)]\<rparr>)"
    using l by (simp add: append_line_def)
  have t: "tmp_path ''keys'' \<noteq> ''keys''"
    by (simp add: tmp_path_def set_extension_def name_with_extension_def rsplit_once_None)
  have u: "utf8_valid (as_bytes [])" "utf8_valid (as_bytes (''ed25519 CCC'' @ [CHR 0x0A]))"
    by (simp_all add: as_bytes_def utf8_valid.simps)
  show ?thesis
    using enrollment_survives_crash [OF _ _ p _ _ _ _ l a _ u _ t surjective_pairing,
        of "[''keys'' \<mapsto> ([], 384)]" 384 3]
    by (simp add: str_eval as_bytes_def) blast
qed

end
