(* ===== verification/Certs.thy ===== *)
theory Certs
  imports Files
begin

text \<open>
  The server's certificates: the PEM reader, the self-signed identity of IpMode
  (\<^verbatim>\<open>identity.rs\<close>) and the certificate files of DomainMode (\<^verbatim>\<open>domain/tls_source.rs\<close>). The
  outcome of generating a key pair is an argument; base64, X.509, SHA-256, hex and the
  check of a certificate against its key by rustls are parameters.
\<close>

section \<open>Libraries\<close>

text \<open>
  \<^verbatim>\<open>cl_spki\<close> is the public-key part of a certificate, if it parses, and \<^verbatim>\<open>cl_single_cert\<close> the
  error of rustls for a chain and a key, if any.
\<close>

record CertLib =
  cl_b64 :: "string \<Rightarrow> (string, bytes) result"
  cl_spki :: "bytes \<Rightarrow> (string, bytes) result"
  cl_sha256 :: "bytes \<Rightarrow> bytes"
  cl_hex :: "bytes \<Rightarrow> string"
  cl_single_cert :: "bytes list \<Rightarrow> bytes \<Rightarrow> string option"

section \<open>PEM\<close>

text \<open>The loop over the lines of a bundle, which \<^verbatim>\<open>acme.rs\<close> repeats with its own markers.\<close>

fun pem_loop ::
  "(string \<Rightarrow> (string, bytes) result) \<Rightarrow> string \<Rightarrow> string \<Rightarrow> string \<Rightarrow> bool \<Rightarrow> string \<Rightarrow> bytes list \<Rightarrow> string list
    \<Rightarrow> (ServerError, bytes list) result" where
  "pem_loop b64_decode begin_mark end_mark msg in_block b64 out [] = Inr out"
| "pem_loop b64_decode begin_mark end_mark msg in_block b64 out (line # ls) =
    (if starts_with line begin_mark then pem_loop b64_decode begin_mark end_mark msg True [] out ls
     else if starts_with line end_mark then
       (case b64_decode b64 of
          Inl e \<Rightarrow> Inl (SE_Keys (KeysText (msg @ e)))
        | Inr bs \<Rightarrow> pem_loop b64_decode begin_mark end_mark msg False b64 (out @ [bs]) ls)
     else pem_loop b64_decode begin_mark end_mark msg in_block (if in_block then b64 @ trim line else b64) out ls)"

definition pem_bundle ::
  "(string \<Rightarrow> (string, bytes) result) \<Rightarrow> string \<Rightarrow> string \<Rightarrow> (ServerError, bytes list) result" where
  "pem_bundle b64_decode pem expected_tag =
    pem_loop b64_decode (''-----BEGIN '' @ expected_tag @ ''-----'') (''-----END '' @ expected_tag @ ''-----'')
      ''bad base64: '' False [] [] (str_lines pem)"

text \<open>The identity's reader, for any single block.\<close>

fun pem_body :: "bool \<Rightarrow> string \<Rightarrow> string list \<Rightarrow> string" where
  "pem_body inside b64 [] = b64"
| "pem_body inside b64 (line # ls) =
    (if starts_with line ''-----BEGIN'' then pem_body True b64 ls
     else if starts_with line ''-----END'' then b64
     else pem_body inside (if inside then b64 @ trim line else b64) ls)"

definition pem_to_der :: "(string \<Rightarrow> (string, bytes) result) \<Rightarrow> string \<Rightarrow> (ServerError, bytes) result" where
  "pem_to_der b64_decode pem =
    (case b64_decode (pem_body False [] (str_lines pem)) of
       Inl e \<Rightarrow> Inl (SE_Keys (KeysText (''bad PEM base64: '' @ e)))
     | Inr bs \<Rightarrow> Inr bs)"

section \<open>The identity of IpMode\<close>

definition CERT_FILE :: string where "CERT_FILE = ''self.pem''"

definition KEY_FILE :: string where "KEY_FILE = ''self.key.pem''"

record ServerIdentity =
  si_cert_der :: bytes
  si_key_der :: bytes
  si_spki_sha256 :: string

text \<open>What generating a key pair returns: both in DER, then both in PEM.\<close>

record KeyMaterial =
  km_cert_der :: bytes
  km_key_der :: bytes
  km_cert_pem :: string
  km_key_pem :: string

definition compute_spki_fingerprint :: "CertLib \<Rightarrow> bytes \<Rightarrow> (ServerError, string) result" where
  "compute_spki_fingerprint cl cert_der =
    (case cl_spki cl cert_der of
       Inl e \<Rightarrow> Inl (SE_Keys (KeysText (''cert parse: '' @ e)))
     | Inr spki \<Rightarrow> Inr (cl_hex cl (cl_sha256 cl spki)))"

definition identity_of :: "CertLib \<Rightarrow> bytes \<Rightarrow> bytes \<Rightarrow> (ServerError, ServerIdentity) result" where
  "identity_of cl cert_der key_der =
    (case compute_spki_fingerprint cl cert_der of
       Inl e \<Rightarrow> Inl e
     | Inr fp \<Rightarrow> Inr \<lparr>si_cert_der = cert_der, si_key_der = key_der, si_spki_sha256 = fp\<rparr>)"

definition load_identity :: "CertLib \<Rightarrow> string \<Rightarrow> disk \<Rightarrow> (ServerError, ServerIdentity) result" where
  "load_identity cl data_dir d =
    (case read_to_string d (join_path data_dir CERT_FILE) of
       Inl e \<Rightarrow> Inl e
     | Inr cert_pem \<Rightarrow>
        (case read_to_string d (join_path data_dir KEY_FILE) of
           Inl e \<Rightarrow> Inl e
         | Inr key_pem \<Rightarrow>
            (case pem_to_der (cl_b64 cl) cert_pem of
               Inl e \<Rightarrow> Inl e
             | Inr cert_der \<Rightarrow>
                (case pem_to_der (cl_b64 cl) key_pem of
                   Inl e \<Rightarrow> Inl e
                 | Inr key_der \<Rightarrow> identity_of cl cert_der key_der))))"

text \<open>The run performs \<^verbatim>\<open>n\<close> operations on the disk, creating the directory first.\<close>

definition identity_writes :: "string \<Rightarrow> KeyMaterial \<Rightarrow> FileOp list" where
  "identity_writes data_dir km =
    atomic_write (join_path data_dir CERT_FILE) (as_bytes (km_cert_pem km)) NEW_FILE_MODE @
    atomic_write (join_path data_dir KEY_FILE) (as_bytes (km_key_pem km)) OWNER_ONLY"

definition load_or_create ::
  "CertLib \<Rightarrow> (string, KeyMaterial) result \<Rightarrow> nat \<Rightarrow> string \<Rightarrow> disk \<Rightarrow> (ServerError, ServerIdentity) result \<times> disk" where
  "load_or_create cl generated n data_dir d =
    (if n = 0 then (Inl SE_Io, d)
     else if d (join_path data_dir CERT_FILE) \<noteq> None \<and> d (join_path data_dir KEY_FILE) \<noteq> None then
       (load_identity cl data_dir d, d)
     else case generated of
       Inl e \<Rightarrow> (Inl (SE_Rcgen e), d)
     | Inr km \<Rightarrow>
        (let (completed, d') = file_run (n - 1) (identity_writes data_dir km) d
         in (if completed then identity_of cl (km_cert_der km) (km_key_der km) else Inl SE_Io, d')))"

definition into_rustls :: "CertLib \<Rightarrow> ServerIdentity \<Rightarrow> (ServerError, bytes list \<times> bytes) result" where
  "into_rustls cl i =
    (case cl_single_cert cl [si_cert_der i] (si_key_der i) of
       Some e \<Rightarrow> Inl (SE_Rustls e)
     | None \<Rightarrow> Inr ([si_cert_der i], si_key_der i))"

section \<open>Certificate files\<close>

definition load_tls_from_pem :: "CertLib \<Rightarrow> string \<Rightarrow> string \<Rightarrow> disk \<Rightarrow> (ServerError, bytes list \<times> bytes) result" where
  "load_tls_from_pem cl cert_path key_path d =
    (case read_to_string d cert_path of
       Inl e \<Rightarrow> Inl e
     | Inr cert_pem \<Rightarrow>
        (case read_to_string d key_path of
           Inl e \<Rightarrow> Inl e
         | Inr key_pem \<Rightarrow>
            (case pem_bundle (cl_b64 cl) cert_pem ''CERTIFICATE'' of
               Inl e \<Rightarrow> Inl e
             | Inr [] \<Rightarrow> Inl (SE_Keys (KeysText (''no CERTIFICATE blocks in '' @ cert_path)))
             | Inr certs \<Rightarrow>
                (case pem_bundle (cl_b64 cl) key_pem ''PRIVATE KEY'' of
                   Inl e \<Rightarrow> Inl e
                 | Inr [] \<Rightarrow> Inl (SE_Keys (KeysText (''no PRIVATE KEY block in '' @ key_path)))
                 | Inr (key # _) \<Rightarrow>
                    (case cl_single_cert cl certs key of
                       Some e \<Rightarrow> Inl (SE_Rustls e)
                     | None \<Rightarrow> Inr (certs, key))))))"


section \<open>Reading what PEM writes\<close>

definition pem_line :: "string \<Rightarrow> bool" where
  "pem_line l \<longleftrightarrow> list_all graphic l \<and> (l = [] \<or> hd l \<noteq> CHR ''-'')"

text \<open>A block: its markers and its lines, each with the same line ending.\<close>

definition pem_block :: "string \<Rightarrow> string list \<Rightarrow> string list" where
  "pem_block tag ls = (''-----BEGIN '' @ tag @ ''-----'') # ls @ [''-----END '' @ tag @ ''-----'']"

definition with_eol :: "string \<Rightarrow> string list \<Rightarrow> string" where
  "with_eol eol ls = concat (map (\<lambda>l. l @ eol) ls)"

definition is_eol :: "string \<Rightarrow> bool" where
  "is_eol eol \<longleftrightarrow> eol = [CHR 0x0A] \<or> eol = [CHR 0x0D, CHR 0x0A]"

lemma strip_cr_graphic: "list_all graphic l \<Longrightarrow> strip_cr l = l" "strip_cr (l @ [CHR 0x0D]) = l"
  by (auto simp: strip_cr_def list_all_iff graphic_def dest!: last_in_set)

lemma split_on_with_eol:
  assumes "eol = cr @ [CHR 0x0A]" "CHR 0x0A \<notin> set cr" "list_all (\<lambda>l. CHR 0x0A \<notin> set l) ls"
  shows "split_on CHR 0x0A (with_eol eol ls) = map (\<lambda>l. l @ cr) ls @ [[]]"
  using assms(3)
proof (induction ls)
  case (Cons l ls)
  have "CHR 0x0A \<notin> set (l @ cr)" using Cons.prems assms(2) by simp
  from split_on_append [OF this, of "with_eol eol ls"] show ?case
    using Cons assms(1) by (simp add: with_eol_def)
qed (simp add: with_eol_def)

lemma str_lines_with_eol:
  assumes "is_eol eol" "list_all (\<lambda>l. CHR 0x0A \<notin> set l \<and> strip_cr l = l) ls"
  shows "str_lines (with_eol eol ls) = ls"
proof -
  obtain cr where cr: "eol = cr @ [CHR 0x0A]" "CHR 0x0A \<notin> set cr" "cr = [] \<or> cr = [CHR 0x0D]"
    using assms(1) by (auto simp: is_eol_def)
  have "map (\<lambda>l. strip_cr (l @ cr)) ls = ls"
    using cr(3) assms(2) strip_cr_graphic(2) by (auto simp: list_all_iff intro: map_idI)
  then show ?thesis
    using split_on_with_eol [OF cr(1,2)] assms(2) by (simp add: str_lines_def list_all_iff comp_def)
qed

lemma trim_pem_line: "pem_line l \<Longrightarrow> trim l = l"
  using trim_graphic [of l] trim_Nil by (cases "l = []") (auto simp: pem_line_def list_all_iff)

lemma pem_line_not_mark: "pem_line l \<Longrightarrow> \<not> starts_with l (CHR ''-'' # m)"
  by (cases l) (auto simp: pem_line_def starts_with_def)

lemma pem_line_whole: "pem_line l \<Longrightarrow> CHR 0x0A \<notin> set l \<and> strip_cr l = l"
  using strip_cr_graphic(1) by (auto simp: pem_line_def list_all_iff graphic_def)

lemma starts_with_append [simp]: "starts_with (p @ s) p"
  by (simp add: starts_with_def)

lemma pem_body_lines: "list_all pem_line ls \<Longrightarrow> pem_body True b64 (ls @ rest) = pem_body True (b64 @ concat ls) rest"
  by (induction ls arbitrary: b64) (auto simp: trim_pem_line pem_line_not_mark)

lemma pem_block_whole:
  "CHR 0x0A \<notin> set tag \<Longrightarrow> list_all pem_line ls \<Longrightarrow> list_all (\<lambda>l. CHR 0x0A \<notin> set l \<and> strip_cr l = l) (pem_block tag ls)"
  using pem_line_whole by (auto simp: pem_block_def list_all_iff strip_cr_def)

lemma pem_to_der_block:
  assumes "is_eol eol" "list_all pem_line ls" "CHR 0x0A \<notin> set tag"
  shows "pem_to_der b64 (with_eol eol (pem_block tag ls)) =
    (case b64 (concat ls) of Inl e \<Rightarrow> Inl (SE_Keys (KeysText (''bad PEM base64: '' @ e))) | Inr bs \<Rightarrow> Inr bs)"
proof -
  have "pem_body False [] (pem_block tag ls) = concat ls"
    using pem_body_lines [OF assms(2), of "[]"] by (simp add: pem_block_def starts_with_def)
  then show ?thesis
    using str_lines_with_eol [OF assms(1) pem_block_whole [OF assms(3,2)]] by (simp add: pem_to_der_def)
qed

lemma pem_loop_lines:
  "list_all pem_line ls \<Longrightarrow> pem_loop b64 (CHR ''-'' # b) (CHR ''-'' # e) msg True acc out (ls @ rest) =
    pem_loop b64 (CHR ''-'' # b) (CHR ''-'' # e) msg True (acc @ concat ls) out rest"
  by (induction ls arbitrary: acc) (auto simp: trim_pem_line pem_line_not_mark)

lemma pem_loop_block:
  assumes "list_all pem_line ls" "b64 (concat ls) = Inr der"
  shows "pem_loop b64 (''-----BEGIN '' @ tag @ ''-----'') (''-----END '' @ tag @ ''-----'') msg inside acc out (pem_block tag ls @ rest) =
    pem_loop b64 (''-----BEGIN '' @ tag @ ''-----'') (''-----END '' @ tag @ ''-----'') msg False (concat ls) (out @ [der]) rest"
  using pem_loop_lines [OF assms(1)] assms(2) by (simp add: pem_block_def starts_with_def)

text \<open>Text between the blocks.\<close>

definition pem_comment :: "string \<Rightarrow> bool" where
  "pem_comment l \<longleftrightarrow> CHR 0x0A \<notin> set l \<and> strip_cr l = l \<and> (l = [] \<or> hd l \<noteq> CHR ''-'')"

lemma pem_loop_comments:
  "list_all pem_comment cs \<Longrightarrow> pem_loop b64 (CHR ''-'' # b) (CHR ''-'' # e) msg False acc out (cs @ rest) =
    pem_loop b64 (CHR ''-'' # b) (CHR ''-'' # e) msg False acc out rest"
proof (induction cs)
  case (Cons c cs)
  then have "\<not> starts_with c (CHR ''-'' # m)" for m by (cases c) (auto simp: pem_comment_def starts_with_def)
  then show ?case using Cons by simp
qed simp

lemma pem_loop_blocks:
  assumes "list_all (\<lambda>(cs, ls). list_all pem_comment cs \<and> list_all pem_line ls) blocks"
    "map (\<lambda>(cs, ls). b64 (concat ls)) blocks = map Inr ders"
  shows "pem_loop b64 (''-----BEGIN '' @ tag @ ''-----'') (''-----END '' @ tag @ ''-----'') msg False acc out
    (concat (map (\<lambda>(cs, ls). cs @ pem_block tag ls) blocks)) = Inr (out @ ders)"
  using assms
proof (induction blocks arbitrary: acc out ders)
  case (Cons p blocks)
  obtain cs ls where p: "p = (cs, ls)" by (cases p)
  obtain d ds where ders: "ders = d # ds" "b64 (concat ls) = Inr d" "map (\<lambda>(cs, ls). b64 (concat ls)) blocks = map Inr ds"
    using Cons.prems(2) p by auto
  show ?case
    using Cons.prems(1) p ders pem_loop_comments [of cs] pem_loop_block [of ls b64 d] Cons.IH [OF _ ders(3)] by simp
qed simp

text \<open>
  a bundle is read back. The text of any number of PEM blocks, with either line ending
  and with comments around them, gives the contents of the blocks, in order.
\<close>

theorem pem_bundle_roundtrip:
  assumes "is_eol eol" "CHR 0x0A \<notin> set tag" "list_all (\<lambda>(cs, ls). list_all pem_comment cs \<and> list_all pem_line ls) blocks"
    "map (\<lambda>(cs, ls). b64 (concat ls)) blocks = map Inr ders"
  shows "pem_bundle b64 (with_eol eol (concat (map (\<lambda>(cs, ls). cs @ pem_block tag ls) blocks))) tag = Inr ders"
proof -
  have "list_all (\<lambda>l. CHR 0x0A \<notin> set l \<and> strip_cr l = l) (concat (map (\<lambda>(cs, ls). cs @ pem_block tag ls) blocks))"
    using assms(3) pem_block_whole [OF assms(2)] by (fastforce simp: list_all_iff pem_comment_def)
  then show ?thesis
    using str_lines_with_eol [OF assms(1)] pem_loop_blocks [OF assms(3,4), of tag "''bad base64: ''" "[]" "[]"]
    by (simp add: pem_bundle_def)
qed

section \<open>The identity across restarts\<close>

text \<open>What the generator promises: its PEM texts are blocks that hold its DER.\<close>

definition pem_holds :: "CertLib \<Rightarrow> string \<Rightarrow> string \<Rightarrow> bytes \<Rightarrow> bool" where
  "pem_holds cl tag pem der \<longleftrightarrow>
    (\<exists>eol ls. is_eol eol \<and> list_all pem_line ls \<and> pem = with_eol eol (pem_block tag ls) \<and> cl_b64 cl (concat ls) = Inr der)"

definition material_ok :: "CertLib \<Rightarrow> KeyMaterial \<Rightarrow> bool" where
  "material_ok cl km \<longleftrightarrow>
    pem_holds cl ''CERTIFICATE'' (km_cert_pem km) (km_cert_der km) \<and> pem_holds cl ''PRIVATE KEY'' (km_key_pem km) (km_key_der km)"

lemma graphic_ascii: "graphic c \<Longrightarrow> (of_char c :: nat) < 0x80"
  by (simp add: graphic_def)

lemma unat_byte_of_char: "unat (of_char c :: u8) = of_char c"
  using nat_of_char_less_256 [of c] unat_of_nat [of "of_char c", where 'a = 8] by (simp add: of_nat_of_char)

lemma utf8_ascii_string: "\<forall>c \<in> set s. (of_char c :: nat) < 0x80 \<Longrightarrow> utf8_valid (as_bytes s)"
  by (intro utf8_valid_ascii) (auto simp: as_bytes_def unat_byte_of_char)

lemma with_eol_all:
  "\<forall>l \<in> set ls. \<forall>c \<in> set l. P c \<Longrightarrow> \<forall>c \<in> set eol. P c \<Longrightarrow> c \<in> set (with_eol eol ls) \<Longrightarrow> P c"
  by (induction ls) (auto simp: with_eol_def)

lemma pem_holds_text:
  assumes "pem_holds cl tag pem der" "\<forall>c \<in> set tag. (of_char c :: nat) < 0x80" "CHR 0x0A \<notin> set tag"
  shows "utf8_valid (as_bytes pem)" "pem_to_der (cl_b64 cl) pem = Inr der"
proof -
  obtain eol ls where p: "is_eol eol" "list_all pem_line ls" "pem = with_eol eol (pem_block tag ls)" "cl_b64 cl (concat ls) = Inr der"
    using assms(1) by (auto simp: pem_holds_def)
  have e: "\<forall>c \<in> set eol. (of_char c :: nat) < 0x80" using p(1) by (auto simp: is_eol_def)
  have "\<forall>l \<in> set (pem_block tag ls). \<forall>c \<in> set l. (of_char c :: nat) < 0x80"
    using p(2) assms(2) graphic_ascii by (simp add: pem_block_def list_all_iff pem_line_def)
  then have "(of_char c :: nat) < 0x80" if "c \<in> set pem" for c
    using that e with_eol_all unfolding p(3) by blast
  then show "utf8_valid (as_bytes pem)" by (intro utf8_ascii_string) blast
  show "pem_to_der (cl_b64 cl) pem = Inr der"
    using pem_to_der_block [OF p(1,2) assms(3), of "cl_b64 cl"] p(3,4) by simp
qed

lemma material_text:
  assumes "material_ok cl km"
  shows "utf8_valid (as_bytes (km_cert_pem km))" "pem_to_der (cl_b64 cl) (km_cert_pem km) = Inr (km_cert_der km)"
    "utf8_valid (as_bytes (km_key_pem km))" "pem_to_der (cl_b64 cl) (km_key_pem km) = Inr (km_key_der km)"
proof -
  have p: "pem_holds cl ''CERTIFICATE'' (km_cert_pem km) (km_cert_der km)" "pem_holds cl ''PRIVATE KEY'' (km_key_pem km) (km_key_der km)"
    using assms by (auto simp: material_ok_def)
  show "utf8_valid (as_bytes (km_cert_pem km))" "pem_to_der (cl_b64 cl) (km_cert_pem km) = Inr (km_cert_der km)"
    using pem_holds_text [OF p(1)] by simp_all
  show "utf8_valid (as_bytes (km_key_pem km))" "pem_to_der (cl_b64 cl) (km_key_pem km) = Inr (km_key_der km)"
    using pem_holds_text [OF p(2)] by simp_all
qed

lemma identity_paths:
  "tmp_path (join_path dir CERT_FILE) = join_path dir ''self.tmp''" "tmp_path (join_path dir KEY_FILE) = join_path dir ''self.key.tmp''"
  by (simp_all add: tmp_path_join CERT_FILE_def KEY_FILE_def name_with_extension_def rsplit_once_def)

lemma identity_files_apart:
  "join_path dir CERT_FILE \<noteq> join_path dir KEY_FILE"
  "tmp_path (join_path dir CERT_FILE) \<noteq> join_path dir CERT_FILE" "tmp_path (join_path dir KEY_FILE) \<noteq> join_path dir KEY_FILE"
  "tmp_path (join_path dir CERT_FILE) \<noteq> join_path dir KEY_FILE" "tmp_path (join_path dir KEY_FILE) \<noteq> join_path dir CERT_FILE"
  unfolding identity_paths by (simp_all add: CERT_FILE_def KEY_FILE_def)

lemma identity_writes_disk:
  fixes dir km
  defines "c \<equiv> as_bytes (km_cert_pem km)" and "k \<equiv> as_bytes (km_key_pem km)"
  shows "fold file_op (take n (identity_writes dir km)) d (join_path dir CERT_FILE) =
      (if length c + 3 < n then Some (c, NEW_FILE_MODE) else d (join_path dir CERT_FILE))"
    "fold file_op (take n (identity_writes dir km)) d (join_path dir KEY_FILE) =
      (if length c + length k + 8 < n then Some (k, OWNER_ONLY) else d (join_path dir KEY_FILE))"
proof -
  note f = identity_files_apart [of dir]
  have l: "length (atomic_write (join_path dir CERT_FILE) c NEW_FILE_MODE) = length c + 5"
    by (simp add: atomic_write_split(1) write_ops_def)
  show "fold file_op (take n (identity_writes dir km)) d (join_path dir CERT_FILE) =
      (if length c + 3 < n then Some (c, NEW_FILE_MODE) else d (join_path dir CERT_FILE))"
    unfolding identity_writes_def take_append fold_append comp_def l c_def [symmetric]
    using f atomic_write_disk(1) [OF f(2)] atomic_write_disk(2) [OF f(3) f(1)] by simp
  show "fold file_op (take n (identity_writes dir km)) d (join_path dir KEY_FILE) =
      (if length c + length k + 8 < n then Some (k, OWNER_ONLY) else d (join_path dir KEY_FILE))"
    unfolding identity_writes_def take_append fold_append comp_def l c_def [symmetric] k_def [symmetric]
    using atomic_write_disk(1) [OF f(3)] atomic_write_disk(2) [OF f(2) f(1) [symmetric] f(4) [symmetric]] by auto
qed

definition identity_inv :: "KeyMaterial set \<Rightarrow> string \<Rightarrow> disk \<Rightarrow> bool" where
  "identity_inv kms dir d \<longleftrightarrow>
    (d (join_path dir KEY_FILE) \<noteq> None \<longrightarrow>
      (\<exists>km \<in> kms. d (join_path dir CERT_FILE) = Some (as_bytes (km_cert_pem km), NEW_FILE_MODE) \<and>
        d (join_path dir KEY_FILE) = Some (as_bytes (km_key_pem km), OWNER_ONLY)))"

definition generated_by :: "(string, KeyMaterial) result \<Rightarrow> KeyMaterial set" where
  "generated_by g = {km. g = Inr km}"

lemma load_identity_written:
  assumes "material_ok cl km" "d (join_path dir CERT_FILE) = Some (as_bytes (km_cert_pem km), m)"
    "d (join_path dir KEY_FILE) = Some (as_bytes (km_key_pem km), m')"
  shows "load_identity cl dir d = identity_of cl (km_cert_der km) (km_key_der km)"
  using assms(2,3) material_text [OF assms(1)] by (simp add: load_identity_def read_to_string_def from_utf8_def)

lemma load_or_create_inv:
  assumes "identity_inv kms dir d" "load_or_create cl g n dir d = (r, d')"
  shows "identity_inv (kms \<union> generated_by g) dir d'"
proof (cases "n = 0 \<or> d (join_path dir CERT_FILE) \<noteq> None \<and> d (join_path dir KEY_FILE) \<noteq> None")
  case True
  then have "d' = d" using assms(2) by (auto simp: load_or_create_def split: if_splits)
  then show ?thesis using assms(1) by (auto simp: identity_inv_def)
next
  case False
  then have none: "d (join_path dir KEY_FILE) = None"
    using assms(1) by (cases "d (join_path dir KEY_FILE)") (auto simp: identity_inv_def)
  show ?thesis
  proof (cases g)
    case (Inl e)
    then have "d' = d" using False assms(2) by (auto simp: load_or_create_def)
    then show ?thesis using none by (simp add: identity_inv_def)
  next
    case (Inr km)
    then have "d' = fold file_op (take (n - 1) (identity_writes dir km)) d"
      using False assms(2) by (auto simp: load_or_create_def file_run_def Let_def)
    then show ?thesis using none Inr by (simp add: identity_inv_def identity_writes_disk generated_by_def)
  qed
qed

lemma load_or_create_result:
  assumes inv: "identity_inv kms dir d" and run: "load_or_create cl g n dir d = (Inr i, d')"
    and ok: "\<forall>km \<in> kms \<union> generated_by g. material_ok cl km"
  shows "\<exists>km \<in> kms \<union> generated_by g. identity_of cl (km_cert_der km) (km_key_der km) = Inr i \<and>
    d' (join_path dir CERT_FILE) = Some (as_bytes (km_cert_pem km), NEW_FILE_MODE) \<and>
    d' (join_path dir KEY_FILE) = Some (as_bytes (km_key_pem km), OWNER_ONLY)"
proof (cases "d (join_path dir CERT_FILE) \<noteq> None \<and> d (join_path dir KEY_FILE) \<noteq> None")
  case True
  then obtain km where km: "km \<in> kms" "d (join_path dir CERT_FILE) = Some (as_bytes (km_cert_pem km), NEW_FILE_MODE)"
      "d (join_path dir KEY_FILE) = Some (as_bytes (km_key_pem km), OWNER_ONLY)"
    using inv by (auto simp: identity_inv_def)
  moreover have "load_identity cl dir d = Inr i" "d' = d" using True run by (auto simp: load_or_create_def split: if_splits)
  moreover have "material_ok cl km" using ok km(1) by blast
  ultimately show ?thesis using load_identity_written [of cl km d dir] by auto
next
  case False
  then obtain km where km: "g = Inr km" "n \<noteq> 0" using run by (auto simp: load_or_create_def split: sum.splits if_splits)
  obtain completed where f: "file_run (n - 1) (identity_writes dir km) d = (completed, d')"
      "(if completed then identity_of cl (km_cert_der km) (km_key_der km) else Inl SE_Io) = Inr i"
    using False run km by (auto simp: load_or_create_def split: prod.splits)
  then have "length (identity_writes dir km) \<le> n - 1" "identity_of cl (km_cert_der km) (km_key_der km) = Inr i"
      "d' = fold file_op (take (n - 1) (identity_writes dir km)) d"
    by (auto simp: file_run_def split: if_splits)
  moreover have "length (identity_writes dir km) = length (km_cert_pem km) + length (km_key_pem km) + 10"
    by (simp add: identity_writes_def atomic_write_split(1) write_ops_def as_bytes_def)
  ultimately show ?thesis
    using km(1) by (auto simp: identity_writes_disk generated_by_def as_bytes_def simp del: take_all intro!: bexI [of _ km])
qed

text \<open>Earlier runs of the server, each cut short after any number of file operations.\<close>

definition identity_runs :: "CertLib \<Rightarrow> string \<Rightarrow> ((string, KeyMaterial) result \<times> nat) list \<Rightarrow> disk \<Rightarrow> disk" where
  "identity_runs cl dir runs d = fold (\<lambda>(g, n) d. snd (load_or_create cl g n dir d)) runs d"

lemma identity_runs_inv:
  "identity_inv kms dir d \<Longrightarrow> identity_inv (kms \<union> (\<Union>(g, n) \<in> set runs. generated_by g)) dir (identity_runs cl dir runs d)"
proof (induction runs arbitrary: kms d)
  case (Cons x runs)
  obtain g n where x: "x = (g, n)" by (cases x)
  from Cons.IH [OF load_or_create_inv [OF Cons.prems, where cl = cl and g = g and n = n, OF surjective_pairing]] show ?case
    by (simp add: identity_runs_def x Un_assoc)
qed (simp add: identity_runs_def)

text \<open>A run that succeeds leaves its identity on the disk, and every later run reads it back.\<close>

lemma load_or_create_reloads:
  assumes "identity_inv kms dir d" "load_or_create cl g n dir d = (Inr i, d')" "\<forall>km \<in> kms \<union> generated_by g. material_ok cl km"
  obtains km where "km \<in> kms \<union> generated_by g" "identity_of cl (km_cert_der km) (km_key_der km) = Inr i"
    "\<And>g'' n''. 0 < n'' \<Longrightarrow> load_or_create cl g'' n'' dir d' = (Inr i, d')"
proof -
  obtain km where km: "km \<in> kms \<union> generated_by g" "identity_of cl (km_cert_der km) (km_key_der km) = Inr i"
      "d' (join_path dir CERT_FILE) = Some (as_bytes (km_cert_pem km), NEW_FILE_MODE)"
      "d' (join_path dir KEY_FILE) = Some (as_bytes (km_key_pem km), OWNER_ONLY)"
    using load_or_create_result [OF assms(1,2)] assms(3) by fastforce
  have "material_ok cl km" using km(1) assms(3) by blast
  from load_identity_written [OF this km(3,4)]
  have "load_or_create cl g'' n'' dir d' = (Inr i, d')" if "0 < n''" for g'' n''
    using that km(2-4) by (simp add: load_or_create_def)
  with km(1,2) show thesis by (rule that)
qed

text \<open>
  C20: the server's identity is one key pair, for good. Starting from a directory without a
  key, however many runs were cut short and wherever, a run that gets its identity has the
  certificate and the key of one and the same generation, and every later run gets the same
  identity, whatever it would generate.
\<close>

theorem identity_crash_safe:
  assumes "d0 (join_path dir KEY_FILE) = None" "load_or_create cl g n dir (identity_runs cl dir runs d0) = (Inr i, d')"
    and "\<forall>(g', n') \<in> set ((g, n) # runs). \<forall>km \<in> generated_by g'. material_ok cl km"
  shows "\<exists>(g', n') \<in> set ((g, n) # runs). \<exists>km \<in> generated_by g'.
      si_cert_der i = km_cert_der km \<and> si_key_der i = km_key_der km \<and>
      (\<forall>g'' n''. 0 < n'' \<longrightarrow> load_or_create cl g'' n'' dir d' = (Inr i, d'))"
proof -
  let ?kms = "\<Union>(g, n) \<in> set runs. generated_by g"
  have "identity_inv {} dir d0" using assms(1) by (simp add: identity_inv_def)
  from identity_runs_inv [OF this, of runs cl] have inv: "identity_inv ?kms dir (identity_runs cl dir runs d0)" by simp
  have ok: "\<forall>km \<in> ?kms \<union> generated_by g. material_ok cl km" using assms(3) by fastforce
  obtain km where km: "km \<in> ?kms \<union> generated_by g" "identity_of cl (km_cert_der km) (km_key_der km) = Inr i"
      "\<And>g'' n''. 0 < n'' \<Longrightarrow> load_or_create cl g'' n'' dir d' = (Inr i, d')"
    using load_or_create_reloads [OF inv assms(2) ok] by blast
  note km(3)
  moreover have "si_cert_der i = km_cert_der km" "si_key_der i = km_key_der km"
    using km(2) by (auto simp: identity_of_def split: sum.splits)
  ultimately show ?thesis using km(1) by fastforce
qed

section \<open>A concrete server\<close>

definition demo_cl :: CertLib where
  "demo_cl = \<lparr>cl_b64 = (\<lambda>s. Inr (as_bytes s)), cl_spki = (\<lambda>c. Inr c), cl_sha256 = (\<lambda>b. b), cl_hex = to_str,
     cl_single_cert = (\<lambda>_ _. None)\<rparr>"

definition demo_material :: "string \<Rightarrow> KeyMaterial" where
  "demo_material c = \<lparr>km_cert_der = as_bytes (''C'' @ c), km_key_der = as_bytes (''K'' @ c),
     km_cert_pem = with_eol [CHR 0x0A] (pem_block ''CERTIFICATE'' [''C'' @ c]),
     km_key_pem = with_eol [CHR 0x0A] (pem_block ''PRIVATE KEY'' [''K'' @ c])\<rparr>"

lemma demo_material_ok: "list_all graphic c \<Longrightarrow> material_ok demo_cl (demo_material c)"
  by (auto simp: material_ok_def pem_holds_def demo_material_def demo_cl_def is_eol_def pem_line_def graphic_def
      intro!: exI [of _ "[CHR 0x0A]"] exI [of _ "[_]"])

theorem pem_bundle_roundtrip_witness:
  "pem_bundle (cl_b64 demo_cl) (with_eol [CHR 0x0D, CHR 0x0A]
     (concat (map (\<lambda>(cs, ls). cs @ pem_block ''CERTIFICATE'' ls) [([''leaf''], [''AB'', ''CD'']), ([], [''EF''])]))) ''CERTIFICATE'' =
    Inr [as_bytes ''ABCD'', as_bytes ''EF'']"
  by (rule pem_bundle_roundtrip)
     (simp_all add: is_eol_def pem_comment_def pem_line_def graphic_def strip_cr_def demo_cl_def)

theorem identity_crash_safe_witness:
  "\<exists>i d'. load_or_create demo_cl (Inr (demo_material ''2'')) 500 ''d'' (identity_runs demo_cl ''d'' [(Inr (demo_material ''1''), 5)] Map.empty) = (Inr i, d') \<and>
    load_or_create demo_cl (Inr (demo_material ''3'')) 1 ''d'' d' = (Inr i, d')"
proof -
  let ?d = "identity_runs demo_cl ''d'' [(Inr (demo_material ''1''), 5)] Map.empty"
  have d: "?d (join_path ''d'' KEY_FILE) = None"
    by (simp add: identity_runs_def load_or_create_def file_run_def identity_writes_disk)
  have "length (identity_writes ''d'' (demo_material ''2'')) \<le> 499"
    by (simp add: identity_writes_def atomic_write_split(1) write_ops_def as_bytes_def demo_material_def with_eol_def pem_block_def)
  then obtain i d' where run: "load_or_create demo_cl (Inr (demo_material ''2'')) 500 ''d'' ?d = (Inr i, d')"
    using d by (auto simp: load_or_create_def file_run_def identity_of_def compute_spki_fingerprint_def demo_cl_def)
  have "\<forall>(g', n') \<in> set ((Inr (demo_material ''2''), 500) # [(Inr (demo_material ''1''), 5)]). \<forall>km \<in> generated_by g'. material_ok demo_cl km"
    using demo_material_ok [of "''1''"] demo_material_ok [of "''2''"] by (simp add: generated_by_def graphic_def)
  from identity_crash_safe [OF _ run this] run show ?thesis by auto
qed

end
