(* ===== verification/Watch.thy ===== *)
theory Watch
  imports Keys
begin

text \<open>
  The file watchers: the loops of \<^verbatim>\<open>keys.rs\<close> and \<^verbatim>\<open>peers.rs\<close> that reload the key file and the
  peer list when the file system reports a change in their directory. The watcher is the
  notify package: a sequence of events or errors, each with what is at the path when it is
  handled.
\<close>

section \<open>Events\<close>

datatype EventKind = EventAny | EventAccess | EventCreate | EventModify | EventRemove | EventOther

record FsEvent =
  ev_kind :: EventKind
  ev_paths :: "string list"

type_synonym 'a notice = "(string, FsEvent) result \<times> 'a"

text \<open>\<^verbatim>\<open>Path::file_name\<close>.\<close>

definition file_name :: "string \<Rightarrow> string" where
  "file_name path = (case rsplit_once CHR ''/'' path of Some (_, name) \<Rightarrow> name | None \<Rightarrow> path)"

definition touches :: "string \<Rightarrow> (string, FsEvent) result \<Rightarrow> bool" where
  "touches path res =
    (case res of
       Inl _ \<Rightarrow> False
     | Inr event \<Rightarrow>
        list_ex (\<lambda>p. file_name p = file_name path) (ev_paths event) \<and>
        (case ev_kind event of EventModify \<Rightarrow> True | EventCreate \<Rightarrow> True | EventRemove \<Rightarrow> True | _ \<Rightarrow> False))"

section \<open>The loops\<close>

fun keys_watch_loop :: "(string \<Rightarrow> bytes option) \<Rightarrow> string \<Rightarrow> string option notice list \<Rightarrow> KeyRegistry \<Rightarrow> KeyRegistry" where
  "keys_watch_loop b64 path [] reg = reg"
| "keys_watch_loop b64 path ((res, file) # rx) reg =
    (let reg = reg\<lparr>kr_file := file\<rparr>
     in keys_watch_loop b64 path rx (if touches path res then snd (keys_reload b64 reg) else reg))"

fun peers_watch_loop :: "string \<Rightarrow> string option option notice list \<Rightarrow> string list \<Rightarrow> string list" where
  "peers_watch_loop path [] peers = peers"
| "peers_watch_loop path ((res, file) # rx) peers =
    peers_watch_loop path rx (if touches path res then snd (peers_reload file peers) else peers)"

section \<open>No silent revocation\<close>

text \<open>
  What an earlier registry knew is still true in a later one, or its holder has been told.
\<close>

definition told :: "KeyRegistry \<Rightarrow> KeyRegistry \<Rightarrow> bool" where
  "told reg reg' \<longleftrightarrow>
    (\<exists>revoked. kr_revoked reg' = kr_revoked reg @ revoked \<and>
      (\<forall>pk old. keys_get pk reg = Some old \<longrightarrow>
        pk \<in> set revoked \<or> (\<exists>e. keys_get pk reg' = Some e \<and> authorization_equal old e)))"

lemma authorization_equal_refl: "authorization_equal e e"
  by (simp add: authorization_equal_def)

lemma authorization_equal_trans: "authorization_equal a b \<Longrightarrow> authorization_equal b c \<Longrightarrow> authorization_equal a c"
  by (simp add: authorization_equal_def)

lemma told_refl: "kr_entries reg' = kr_entries reg \<Longrightarrow> kr_revoked reg' = kr_revoked reg \<Longrightarrow> told reg reg'"
  using authorization_equal_refl by (auto simp: told_def keys_get_def)

lemma told_trans:
  assumes "told a b" "told b c"
  shows "told a c"
proof -
  obtain r where r: "kr_revoked b = kr_revoked a @ r"
      "\<And>pk old. keys_get pk a = Some old \<Longrightarrow> pk \<in> set r \<or> (\<exists>e. keys_get pk b = Some e \<and> authorization_equal old e)"
    using assms(1) unfolding told_def by blast
  obtain q where q: "kr_revoked c = kr_revoked b @ q"
      "\<And>pk old. keys_get pk b = Some old \<Longrightarrow> pk \<in> set q \<or> (\<exists>e. keys_get pk c = Some e \<and> authorization_equal old e)"
    using assms(2) unfolding told_def by blast
  have "pk \<in> set (r @ q) \<or> (\<exists>e. keys_get pk c = Some e \<and> authorization_equal old e)" if "keys_get pk a = Some old" for pk old
    using r(2) [OF that] q(2) [of pk] authorization_equal_trans by fastforce
  then show ?thesis using r(1) q(1) by (auto simp: told_def intro: exI [of _ "r @ q"])
qed

lemma keys_reload_told: "told reg (snd (keys_reload b64 reg))"
proof (cases "parse_file b64 (kr_file reg)")
  case (Inl e)
  then show ?thesis by (auto simp: keys_reload_def intro: told_refl)
next
  case (Inr new)
  let ?removed = "filter (\<lambda>k. map_of new k = None) (map fst (kr_entries reg))"
  let ?modified = "map fst (filter (\<lambda>(k, n). case map_of (kr_entries reg) k of None \<Rightarrow> False | Some old \<Rightarrow> \<not> authorization_equal old n) new)"
  have "pk \<in> set (?removed @ ?modified) \<or> (\<exists>e. map_of new pk = Some e \<and> authorization_equal old e)"
    if old: "map_of (kr_entries reg) pk = Some old" for pk old
  proof (cases "map_of new pk")
    case None
    then show ?thesis using imageI [OF map_of_SomeD [OF old], of fst] by simp
  next
    case (Some e)
    then have "(pk, e) \<in> set new" by (rule map_of_SomeD)
    then show ?thesis using Some old by (force simp: image_iff)
  qed
  then show ?thesis
    using Inr by (auto simp: told_def keys_reload_def keys_get_def Let_def intro!: exI [of _ "?removed @ ?modified"])
qed

lemma keys_watch_told: "told reg (keys_watch_loop b64 path rx reg)"
proof (induction rx arbitrary: reg)
  case (Cons x rx)
  obtain res f where x: "x = (res, f)" by (cases x)
  let ?reg = "reg\<lparr>kr_file := f\<rparr>"
  have "told reg (if touches path res then snd (keys_reload b64 ?reg) else ?reg)"
    using told_trans [OF told_refl keys_reload_told, of ?reg reg b64] told_refl [of ?reg reg] by simp
  from told_trans [OF this Cons.IH] show ?case by (simp add: x Let_def)
qed (simp add: told_refl)

lemma keys_watch_append: "keys_watch_loop b64 path (xs @ ys) reg = keys_watch_loop b64 path ys (keys_watch_loop b64 path xs reg)"
  by (induction xs arbitrary: reg) (auto simp: Let_def)

text \<open>
  C19: the keys in memory follow the file, and nobody is revoked silently. After a change of
  the file is reported, and as long as nothing else touches it, the server has exactly the
  keys of the file, or those it had before if the file cannot be read or parsed. Whatever was
  reported up to then, the holder of every key that is no longer authorized as it was has
  been told.
\<close>

theorem watcher_follows_file:
  assumes "touches path res" "list_all (\<lambda>(r, f). \<not> touches path r) rest"
  shows "(case parse_file b64 contents of
      Inr es \<Rightarrow> kr_entries (keys_watch_loop b64 path (events @ (res, contents) # rest) reg) = es
    | Inl _ \<Rightarrow> kr_entries (keys_watch_loop b64 path (events @ (res, contents) # rest) reg) = kr_entries (keys_watch_loop b64 path events reg)) \<and>
    told reg (keys_watch_loop b64 path (events @ (res, contents) # rest) reg)"
proof -
  have quiet: "kr_entries (keys_watch_loop b64 path rest r) = kr_entries r" for r
    using assms(2) by (induction rest arbitrary: r) (auto simp: Let_def)
  show ?thesis
    by (rule conjI [OF _ keys_watch_told])
       (use quiet assms(1) in \<open>auto simp: keys_watch_append Let_def keys_reload_def split: sum.splits\<close>)
qed

theorem watcher_follows_file_witness:
  "kr_entries (keys_watch_loop demo_b64 ''/etc/keys'' ([] @ (Inr \<lparr>ev_kind = EventModify, ev_paths = [''/etc/keys'']\<rparr>, Some []) #
      [(Inr \<lparr>ev_kind = EventAccess, ev_paths = [''/etc/keys'']\<rparr>, Some [])]) demo_keys) = []"
  using watcher_follows_file [of "''/etc/keys''" "Inr \<lparr>ev_kind = EventModify, ev_paths = [''/etc/keys'']\<rparr>"
      "[(Inr \<lparr>ev_kind = EventAccess, ev_paths = [''/etc/keys'']\<rparr>, Some [])]" demo_b64 "[]" "Some []" demo_keys]
  by (simp add: touches_def parse_file_def parse_keys_text_def str_lines_def)

text \<open>
  A key file that cannot be read at the moment of an enrollment, because it has a byte that is
  not UTF-8 or because the read fails, counts as empty: the enrollment replaces it by a file
  with the new key alone, and the next reload revokes everybody else.
\<close>

theorem unreadable_file_overwritten:
  assumes "kr_file kr = None" "CHR 0x0A \<notin> set line" "CHR 0x0D \<notin> set line" "trim line = line" "parse_line b64 line = Some (pk, e)"
  shows "\<exists>kr'. append_line b64 True line kr = (Inr (trim_end line), kr') \<and>
    (\<forall>k. keys_get k (snd (keys_reload b64 kr')) = (if k = pk then Some e else None))"
proof -
  let ?kr0 = "\<lparr>kr_file = Some [], kr_entries = [], kr_revoked = []\<rparr>"
  have "parse_file b64 (kr_file ?kr0) = Inr []" by (simp add: parse_file_def parse_keys_text_def str_lines_def)
  then obtain kr0' es where a: "append_line b64 True line ?kr0 = (Inr (trim_end line), kr0')" "parse_file b64 (kr_file kr0') = Inr es"
      "map_of es = [pk \<mapsto> e]"
    using append_line_in_step [of ?kr0 "[]" b64 "[]", OF _ _ _ _ assms(2-5)] by auto
  obtain kr' where k: "append_line b64 True line kr = (Inr (trim_end line), kr')" "kr_file kr' = kr_file kr0'"
    using a(1) assms(1,5) by (auto simp: append_line_def Let_def)
  then show ?thesis using a(2,3) by (auto simp: keys_reload_def keys_get_def Let_def)
qed

end
