(* ===== verification/Relay.thy ===== *)
theory Relay imports Rate Routing
begin

text \<open>
  The byte relays. \<^verbatim>\<open>run_metered\<close> (\<^verbatim>\<open>src/crates/krot-server/src/rate.rs\<close>) joins two metered
  shovels, one per direction, that share the quota of the identity and the flag that says
  whether any byte has flowed; \<^verbatim>\<open>run_bidirectional_with_first_byte_deadline\<close>
  (\<^verbatim>\<open>src/crates/krot-transport/src/relay.rs\<close>) is the unmetered form. The last section is
  the accept loop of the TCP fallback listener
  (\<^verbatim>\<open>src/crates/krot-transport/src/tcp_listener.rs\<close>).
\<close>

section \<open>The metered relay\<close>

datatype Direction = A_to_B | B_to_A

record Metered =
  mt_ab :: Shovel
  mt_ba :: Shovel
  mt_rate :: RateLimitState

definition metered_start :: "RateLimitState \<Rightarrow> Metered" where
  "metered_start rate = \<lparr>mt_ab = shovel_start, mt_ba = shovel_start, mt_rate = rate\<rparr>"

text \<open>The value of \<^verbatim>\<open>try_join!\<close>: the first error, or both counts once both directions are done.\<close>

definition shovel_err :: "Shovel \<Rightarrow> bool" where
  "shovel_err sh \<longleftrightarrow> sh_result sh \<noteq> Running \<and> sh_result sh \<noteq> Done"

definition metered_result :: "Metered \<Rightarrow> (ShovelResult, u64 \<times> u64) result option" where
  "metered_result m =
    (if shovel_err (mt_ab m) then Some (Inl (sh_result (mt_ab m)))
     else if shovel_err (mt_ba m) then Some (Inl (sh_result (mt_ba m)))
     else if sh_result (mt_ab m) = Done \<and> sh_result (mt_ba m) = Done
       then Some (Inr (sh_total (mt_ab m), sh_total (mt_ba m)))
     else None)"

text \<open>
  One event of one direction. The flag \<^verbatim>\<open>seen_any\<close> is one atomic shared by the two
  shovels, so the other direction sees it at once; once the join has a value nothing
  runs any more.
\<close>

fun metered_step :: "TunnelId \<Rightarrow> Direction \<times> ShovelEvent \<Rightarrow> Metered \<Rightarrow> Metered" where
  "metered_step tid (A_to_B, e) m =
    (if metered_result m \<noteq> None then m
     else let (sh, rate) = shovel_step tid e (mt_ab m, mt_rate m)
       in m\<lparr>mt_ab := sh, mt_ba := (mt_ba m)\<lparr>sh_seen_any := sh_seen_any sh\<rparr>, mt_rate := rate\<rparr>)"
| "metered_step tid (B_to_A, e) m =
    (if metered_result m \<noteq> None then m
     else let (sh, rate) = shovel_step tid e (mt_ba m, mt_rate m)
       in m\<lparr>mt_ba := sh, mt_ab := (mt_ab m)\<lparr>sh_seen_any := sh_seen_any sh\<rparr>, mt_rate := rate\<rparr>)"

primrec run_metered :: "TunnelId \<Rightarrow> (Direction \<times> ShovelEvent) list \<Rightarrow> Metered \<Rightarrow> Metered" where
  "run_metered tid [] m = m"
| "run_metered tid (e # es) m = run_metered tid es (metered_step tid e m)"

text \<open>The events of one direction, and what one direction carries until its end of stream.\<close>

definition dir_events :: "Direction \<Rightarrow> (Direction \<times> ShovelEvent) list \<Rightarrow> ShovelEvent list" where
  "dir_events d es = map snd (filter (\<lambda>x. fst x = d) es)"

definition dir_bytes :: "Direction \<Rightarrow> (Direction \<times> ShovelEvent) list \<Rightarrow> bytes" where
  "dir_bytes d es = event_bytes (dir_events d es)"

definition until_eof :: "ShovelEvent list \<Rightarrow> bytes" where
  "until_eof es = event_bytes (takeWhile (\<lambda>e. e \<noteq> ReadEof) es)"

lemma dir_events_simps [simp]:
  "dir_events d [] = []"
  "dir_events d ((d', e) # es) = (if d' = d then e # dir_events d es else dir_events d es)"
  by (simp_all add: dir_events_def)

lemma until_eof_end [simp]: "until_eof (ReadEof # es) = []"
  by (simp add: until_eof_def)

lemma run_metered_stopped:
  "metered_result m \<noteq> None \<Longrightarrow> run_metered tid es m = m"
proof (induction es)
  case (Cons e es)
  have "metered_step tid e m = m" using Cons.prems by (cases "(tid, e, m)" rule: metered_step.cases) auto
  then show ?case using Cons by simp
qed simp

section \<open>One step of a shovel\<close>

text \<open>
  What one event does to a direction: it forwards the bytes of the event or nothing, and
  nothing once it has stopped.
\<close>

lemma shovel_step_forwards:
  assumes "shovel_step tid e (sh, rl) = (sh', rl')"
  obtains fwd where "sh_out sh' = sh_out sh @ fwd" "sh_total sh' = sh_total sh + word_of_nat (length fwd)"
    "sh_result sh \<noteq> Running \<Longrightarrow> fwd = [] \<and> sh_result sh' = sh_result sh"
    "sh_result sh = Running \<Longrightarrow> \<not> shovel_err sh' \<Longrightarrow> fwd = event_bytes [e] \<and> (sh_result sh' = Done \<longleftrightarrow> e = ReadEof)"
    "shovel_err sh' \<Longrightarrow> fwd = []"
proof -
  have "\<exists>fwd. sh_out sh' = sh_out sh @ fwd \<and> sh_total sh' = sh_total sh + word_of_nat (length fwd) \<and>
    (sh_result sh \<noteq> Running \<longrightarrow> fwd = [] \<and> sh_result sh' = sh_result sh) \<and>
    (sh_result sh = Running \<and> \<not> shovel_err sh' \<longrightarrow> fwd = event_bytes [e] \<and> (sh_result sh' = Done \<longleftrightarrow> e = ReadEof)) \<and>
    (shovel_err sh' \<longrightarrow> fwd = [])"
  proof (cases "sh_result sh = Running \<and> (\<exists>buf now now' w. e = Chunk buf now now' w)")
    case True
    then obtain buf now now' w where Chunk: "e = Chunk buf now now' w" by blast
    obtain c r where ch: "charge now now' tid (word_of_nat (length buf)) rl = (c, r)" by fastforce
    show ?thesis using True assms ch
      by (intro exI [of _ "if c = ChargeOk \<and> w then buf else []"]; cases c) (auto simp: Chunk shovel_err_def Let_def)
  next
    case False
    then show ?thesis using assms by (cases e) (auto simp: shovel_err_def split: if_splits)
  qed
  then show thesis using that by blast
qed

lemma shovel_step_quota:
  assumes cap: "rl_quota_cap rl = Some cap" and win: "in_window (rl_quota_reset_at rl) e"
    and small: "unat (rl_quota_used rl) + length (event_bytes [e]) < 2 ^ 64"
    and step: "shovel_step tid e (sh, rl) = (sh', rl')" and out: "sh_out sh' = sh_out sh @ fwd"
  shows "rl_quota_cap rl' = Some cap \<and> rl_quota_reset_at rl' = rl_quota_reset_at rl \<and>
    unat (rl_quota_used rl') \<le> unat (rl_quota_used rl) + length (event_bytes [e]) \<and>
    (fwd \<noteq> [] \<longrightarrow> unat (rl_quota_used rl') = unat (rl_quota_used rl) + length fwd \<and> unat (rl_quota_used rl') \<le> unat cap) \<and>
    unat (rl_quota_used rl) \<le> unat (rl_quota_used rl')"
proof (cases "sh_result sh = Running")
  case False
  then show ?thesis using step out cap by (cases e) auto
next
  case running: True
  show ?thesis
  proof (cases e)
    case (Chunk buf now now' w)
    let ?n = "word_of_nat (length buf) :: u64"
    obtain c r where ch: "charge now now' tid ?n rl = (c, r)" by fastforce
    have n: "unat ?n = length buf" using small by (simp add: Chunk unat_of_nat)
    have "now < rl_quota_reset_at rl" using win by (simp add: Chunk)
    note f = charge_fields [OF ch cap this]
    have used: "unat (rl_quota_used r) = unat (rl_quota_used rl) + length buf"
      using small by (simp add: f Chunk unat_add_u64 n)
    have rl': "rl' = r" using step running ch by (cases c) (auto simp: Chunk Let_def split: if_splits)
    have "fwd \<noteq> [] \<Longrightarrow> c = ChargeOk \<and> fwd = buf"
      using step running ch out by (cases c) (auto simp: Chunk Let_def split: if_splits)
    then show ?thesis using f(1-4) used by (auto simp: rl' Chunk word_le_nat_alt)
  qed (use running step out cap in \<open>auto split: if_splits\<close>)
qed

section \<open>Both directions\<close>

primrec mt_dir :: "Direction \<Rightarrow> Metered \<Rightarrow> Shovel" where
  "mt_dir A_to_B m = mt_ab m"
| "mt_dir B_to_A m = mt_ba m"

primrec opposite :: "Direction \<Rightarrow> Direction" where
  "opposite A_to_B = B_to_A"
| "opposite B_to_A = A_to_B"

lemma opposite_simps [simp]: "opposite d \<noteq> d" "d \<noteq> opposite d" "opposite (opposite d) = d"
  by (cases d; simp)+

lemma direction_cases: "x = d \<or> x = opposite d"
  by (cases x; cases d; simp)

lemma metered_step_dir:
  assumes "metered_result m = None" "shovel_step tid e (mt_dir d m, mt_rate m) = (sh, rl)"
  shows "mt_dir d (metered_step tid (d, e) m) = sh"
    "mt_dir (opposite d) (metered_step tid (d, e) m) = (mt_dir (opposite d) m)\<lparr>sh_seen_any := sh_seen_any sh\<rparr>"
    "mt_rate (metered_step tid (d, e) m) = rl"
  using assms by (cases d; simp)+

lemma metered_err_result: "shovel_err (mt_dir d m) \<Longrightarrow> metered_result m \<noteq> None"
  by (cases d) (simp_all add: metered_result_def)

text \<open>
  Each direction forwards a prefix of what it read, and all of it up to the end of the
  stream when it is done.
\<close>

definition carries :: "Metered \<Rightarrow> (Direction \<times> ShovelEvent) list \<Rightarrow> Metered \<Rightarrow> Direction \<Rightarrow> bytes \<Rightarrow> bool" where
  "carries m es m' d fwd \<longleftrightarrow>
    sh_out (mt_dir d m') = sh_out (mt_dir d m) @ fwd \<and>
    sh_total (mt_dir d m') = sh_total (mt_dir d m) + word_of_nat (length fwd) \<and>
    prefix fwd (dir_bytes d es) \<and> (sh_result (mt_dir d m) \<noteq> Running \<longrightarrow> fwd = []) \<and>
    (sh_result (mt_dir d m) = Running \<and> sh_result (mt_dir d m') = Done \<longrightarrow> fwd = until_eof (dir_events d es))"

lemma carries_other:
  assumes "metered_result m = None" "carries (metered_step tid (d, e) m) es m' (opposite d) fwd"
  shows "carries m ((d, e) # es) m' (opposite d) fwd"
proof -
  obtain sh rl where st: "shovel_step tid e (mt_dir d m, mt_rate m) = (sh, rl)" by fastforce
  show ?thesis using assms(2) by (simp add: carries_def metered_step_dir [OF assms(1) st] dir_bytes_def)
qed

lemma carries_same:
  assumes "metered_result m = None" "carries (metered_step tid (d, e) m) es (run_metered tid es (metered_step tid (d, e) m)) d fwd"
  shows "\<exists>fwd. carries m ((d, e) # es) (run_metered tid es (metered_step tid (d, e) m)) d fwd"
proof -
  obtain sh rl where st: "shovel_step tid e (mt_dir d m, mt_rate m) = (sh, rl)" by fastforce
  note step = metered_step_dir [OF assms(1) st]
  from st obtain new where new: "sh_out sh = sh_out (mt_dir d m) @ new" "sh_total sh = sh_total (mt_dir d m) + word_of_nat (length new)"
    "sh_result (mt_dir d m) \<noteq> Running \<Longrightarrow> new = [] \<and> sh_result sh = sh_result (mt_dir d m)"
    "sh_result (mt_dir d m) = Running \<Longrightarrow> \<not> shovel_err sh \<Longrightarrow> new = event_bytes [e] \<and> (sh_result sh = Done \<longleftrightarrow> e = ReadEof)"
    "shovel_err sh \<Longrightarrow> new = []"
    by (elim shovel_step_forwards) metis
  show ?thesis
  proof (cases "shovel_err sh")
    case err: True
    have "metered_result (metered_step tid (d, e) m) \<noteq> None" using err by (intro metered_err_result [of d]) (simp add: step)
    then have "run_metered tid es (metered_step tid (d, e) m) = metered_step tid (d, e) m" by (rule run_metered_stopped)
    then show ?thesis using new(1,2,5) err by (intro exI [of _ "[]"]) (auto simp: carries_def step shovel_err_def)
  next
    case False
    have eb: "event_bytes (e # dir_events d es) = event_bytes [e] @ event_bytes (dir_events d es)"
      by (cases e) simp_all
    have eof: "until_eof (e # dir_events d es) = (if e = ReadEof then [] else event_bytes [e] @ until_eof (dir_events d es))"
      by (cases e) (simp_all add: until_eof_def)
    have c: "carries m ((d, e) # es) (run_metered tid es (metered_step tid (d, e) m)) d (new @ fwd)"
    proof (cases "sh_result (mt_dir d m) = Running")
      case True
      note new' = new(4) [OF True False]
      have "sh_result sh \<noteq> Running \<longleftrightarrow> e = ReadEof" using new' False by (auto simp: shovel_err_def)
      then show ?thesis using assms(2) new(1,2) new' True unfolding carries_def step
        by (cases "e = ReadEof") (simp_all add: dir_bytes_def eb eof add.assoc)
    next
      case stopped: False
      then show ?thesis using assms(2) new(1-3) unfolding carries_def step by simp
    qed
    then show ?thesis by (rule exI)
  qed
qed

lemma run_metered_carries: "\<exists>fwd. carries m es (run_metered tid es m) d fwd"
proof (induction es arbitrary: m)
  case Nil
  show ?case by (rule exI [of _ "[]"]) (simp add: carries_def dir_bytes_def until_eof_def)
next
  case (Cons x es)
  obtain d' e where x: "x = (d', e)" by fastforce
  show ?case
  proof (cases "metered_result m = None")
    case False
    then show ?thesis by (intro exI [of _ "[]"]) (auto simp: carries_def run_metered_stopped simp del: run_metered.simps)
  next
    case True
    obtain fwd where "carries (metered_step tid (d', e) m) es (run_metered tid es (metered_step tid (d', e) m)) d fwd"
      using Cons.IH by blast
    then show ?thesis using carries_same [OF True] carries_other [OF True] direction_cases [of d d']
      unfolding x run_metered.simps by blast
  qed
qed

text \<open>Together the two directions stay within what is left of the quota window.\<close>

lemma run_metered_quota:
  "rl_quota_cap (mt_rate m) = Some cap \<Longrightarrow> \<forall>(d, e) \<in> set es. in_window (rl_quota_reset_at (mt_rate m)) e \<Longrightarrow>
    unat (rl_quota_used (mt_rate m)) + length (event_bytes (map snd es)) < 2 ^ 64 \<Longrightarrow>
    length (sh_out (mt_ab (run_metered tid es m))) + length (sh_out (mt_ba (run_metered tid es m))) \<le>
    length (sh_out (mt_ab m)) + length (sh_out (mt_ba m)) + (unat cap - unat (rl_quota_used (mt_rate m)))"
proof (induction es arbitrary: m)
  case (Cons x es)
  obtain d e where x: "x = (d, e)" by fastforce
  show ?case
  proof (cases "metered_result m = None")
    case False
    then show ?thesis by (simp add: run_metered_stopped del: run_metered.simps)
  next
    case True
    let ?m = "metered_step tid (d, e) m"
    let ?o = "\<lambda>m. length (sh_out (mt_ab m)) + length (sh_out (mt_ba m))"
    obtain sh rl where st: "shovel_step tid e (mt_dir d m, mt_rate m) = (sh, rl)" by fastforce
    note step = metered_step_dir [OF True st]
    obtain fwd where fwd: "sh_out sh = sh_out (mt_dir d m) @ fwd"
      using shovel_step_forwards [OF st] by metis
    have eb: "length (event_bytes (map snd (x # es))) = length (event_bytes [e]) + length (event_bytes (map snd es))"
      by (cases e) (simp_all add: x)
    have win: "in_window (rl_quota_reset_at (mt_rate m)) e" using Cons.prems(2) by (simp add: x)
    have small: "unat (rl_quota_used (mt_rate m)) + length (event_bytes [e]) < 2 ^ 64" using Cons.prems(3) eb by simp
    note q = shovel_step_quota [OF Cons.prems(1) win small st fwd]
    have o: "?o ?m = ?o m + length fwd" using step(1,2) fwd by (cases d) auto
    have "?o (run_metered tid es ?m) \<le> ?o ?m + (unat cap - unat (rl_quota_used (mt_rate ?m)))"
      using Cons.IH [of ?m] Cons.prems(2,3) q eb by (auto simp: step(3))
    also have "\<dots> \<le> ?o m + (unat cap - unat (rl_quota_used (mt_rate m)))"
      using q by (cases "fwd = []") (auto simp: o step(3))
    finally show ?thesis by (simp add: x)
  qed
qed simp

lemma shovel_start_simps [simp]:
  "sh_out shovel_start = []" "sh_result shovel_start = Running" "sh_total shovel_start = 0"
  "sh_seen_any shovel_start = False" "sh_first shovel_start = True"
  by (simp_all add: shovel_start_def)

lemma metered_start_simps [simp]:
  "mt_ab (metered_start rate) = shovel_start" "mt_ba (metered_start rate) = shovel_start"
  "mt_rate (metered_start rate) = rate" "mt_dir d (metered_start rate) = shovel_start"
  by (cases d; simp add: metered_start_def)+

lemma metered_result_inr:
  "metered_result m = Some (Inr (n_ab, n_ba)) \<longleftrightarrow>
    sh_result (mt_ab m) = Done \<and> sh_result (mt_ba m) = Done \<and> n_ab = sh_total (mt_ab m) \<and> n_ba = sh_total (mt_ba m)"
  by (auto simp: metered_result_def shovel_err_def)

text \<open>
  C8: However the reads, writes and deadlines of the two directions interleave, the
  metered relay of a public connection hands each side an initial part of what the other
  side sent, unaltered and in order; when the relay ends without an error it has handed
  over everything up to the end of the stream in both directions and returns the two byte
  counts. Within one quota window the two directions together never carry more
  than what was left of the quota of the identity.
\<close>

theorem metered_relay:
  assumes "rl_quota_cap rate = Some cap" "\<forall>(d, e) \<in> set es. in_window (rl_quota_reset_at rate) e"
    "unat (rl_quota_used rate) + length (event_bytes (map snd es)) < 2 ^ 64"
    "m = run_metered tid es (metered_start rate)"
  shows "prefix (sh_out (mt_ab m)) (dir_bytes A_to_B es) \<and> prefix (sh_out (mt_ba m)) (dir_bytes B_to_A es) \<and>
    length (sh_out (mt_ab m)) + length (sh_out (mt_ba m)) \<le> unat cap - unat (rl_quota_used rate) \<and>
    (metered_result m = Some (Inr (n_ab, n_ba)) \<longrightarrow>
      sh_out (mt_ab m) = until_eof (dir_events A_to_B es) \<and> sh_out (mt_ba m) = until_eof (dir_events B_to_A es) \<and>
      n_ab = word_of_nat (length (sh_out (mt_ab m))) \<and> n_ba = word_of_nat (length (sh_out (mt_ba m))))"
proof -
  obtain f g where "carries (metered_start rate) es m A_to_B f" "carries (metered_start rate) es m B_to_A g"
    using run_metered_carries assms(4) by metis
  then show ?thesis using run_metered_quota [of "metered_start rate" cap es tid] assms
    by (auto simp: carries_def metered_result_inr)
qed

definition demo_exchange :: "(Direction \<times> ShovelEvent) list" where
  "demo_exchange = [(A_to_B, Chunk [1, 2] 5 5 True), (B_to_A, Chunk [7] 6 6 True), (A_to_B, ReadEof), (B_to_A, ReadEof)]"

definition demo_rate :: RateLimitState where
  "demo_rate = from_entry 0 None (Some \<lparr>rp_bytes = 4, rp_period = Second\<rparr>) 1"

lemma demo_exchange_result:
  "metered_result (run_metered 1 demo_exchange (metered_start demo_rate)) = Some (Inr (2, 1))"
  by (simp add: demo_exchange_def demo_rate_def metered_start_def shovel_start_def metered_result_def shovel_err_def
      from_entry_def from_entry_with_metrics_def period_ms_def charge_def roll_quota_def Let_def)

theorem metered_relay_witness:
  "sh_out (mt_ab (run_metered 1 demo_exchange (metered_start demo_rate))) = [1, 2] \<and>
   sh_out (mt_ba (run_metered 1 demo_exchange (metered_start demo_rate))) = [7]"
  using metered_relay [of demo_rate 4 demo_exchange "run_metered 1 demo_exchange (metered_start demo_rate)" 1 2 1]
    demo_exchange_result
  by (simp add: demo_exchange_def demo_rate_def until_eof_def from_entry_def from_entry_with_metrics_def period_ms_def)

section \<open>The first-byte deadline\<close>

definition deadline_inv :: "RateLimitState \<Rightarrow> Metered \<Rightarrow> bool" where
  "deadline_inv rate m \<longleftrightarrow> (\<forall>d. sh_seen_any (mt_dir (opposite d) m) = sh_seen_any (mt_dir d m) \<and>
    (\<not> sh_seen_any (mt_dir d m) \<longrightarrow> sh_out (mt_dir d m) = [] \<and> mt_rate m = rate) \<and>
    (sh_result (mt_dir d m) = TimedOut \<longrightarrow> \<not> sh_seen_any (mt_dir d m)))"

lemma shovel_step_deadline:
  assumes "shovel_step tid e (sh, rate) = (sh', rate')" "sh_result sh = TimedOut \<longrightarrow> \<not> sh_seen_any sh" "\<not> shovel_err sh"
  shows "sh_seen_any sh \<longrightarrow> sh_seen_any sh'" "sh_result sh' = TimedOut \<longrightarrow> \<not> sh_seen_any sh'"
    "\<not> sh_seen_any sh' \<longrightarrow> sh_out sh' = sh_out sh \<and> rate' = rate"
  using assms by (cases e; auto simp: shovel_err_def Let_def split: if_splits Charge.splits prod.splits)+

lemma deadline_inv_step:
  assumes "deadline_inv rate m"
  shows "deadline_inv rate (metered_step tid x m)"
proof -
  obtain d e where x: "x = (d, e)" by fastforce
  show ?thesis
  proof (cases "metered_result m = None")
    case False
    then have "metered_step tid x m = m" by (cases d) (auto simp: x)
    then show ?thesis using assms by simp
  next
    case True
    obtain sh rl where st: "shovel_step tid e (mt_dir d m, mt_rate m) = (sh, rl)" by fastforce
    note step = metered_step_dir [OF True st]
    have ok: "\<not> shovel_err (mt_dir d' m)" for d' using True metered_err_result by blast
    have live: "sh_result (mt_dir d' m) \<noteq> TimedOut" for d' using ok [of d'] by (auto simp: shovel_err_def)
    note dl = shovel_step_deadline [OF st _ ok]
    have inv: "sh_seen_any (mt_dir (opposite d) m) = sh_seen_any (mt_dir d m)"
      "\<not> sh_seen_any (mt_dir d' m) \<Longrightarrow> sh_out (mt_dir d' m) = [] \<and> mt_rate m = rate" for d'
      using assms by (auto simp: deadline_inv_def)
    have "sh_seen_any (mt_dir d' (metered_step tid (d, e) m)) = sh_seen_any sh \<and>
      (\<not> sh_seen_any sh \<longrightarrow> sh_out (mt_dir d' (metered_step tid (d, e) m)) = [] \<and> rl = rate) \<and>
      (sh_result (mt_dir d' (metered_step tid (d, e) m)) = TimedOut \<longrightarrow> \<not> sh_seen_any sh)" for d'
      using direction_cases [of d' d] dl inv live by (auto simp: step)
    then show ?thesis unfolding deadline_inv_def x by (simp add: step)
  qed
qed

lemma run_metered_steps: "(\<lambda>m m'. \<exists>tid x. m' = metered_step tid x m)\<^sup>*\<^sup>* m (run_metered tid es m)"
  by (induction es arbitrary: m) (auto intro: converse_rtranclp_into_rtranclp)

interpretation relay_deadline: invariant_system "\<lambda>m. m = metered_start rate" "\<lambda>m m'. \<exists>tid x. m' = metered_step tid x m" "deadline_inv rate"
  for rate
  by unfold_locales (auto simp: deadline_inv_step, simp add: deadline_inv_def)

text \<open>
  C40: The first-byte deadline drops only silent streams: a relay that ends with the
  timeout has handed over no byte in either direction and has charged nothing to the
  quota, so a stream that carries traffic is never cut by it, however long it then lasts.
\<close>

theorem deadline_only_when_silent:
  assumes "metered_result (run_metered tid es (metered_start rate)) = Some (Inl TimedOut)"
  shows "sh_out (mt_ab (run_metered tid es (metered_start rate))) = [] \<and>
    sh_out (mt_ba (run_metered tid es (metered_start rate))) = [] \<and>
    mt_rate (run_metered tid es (metered_start rate)) = rate"
proof -
  let ?m = "run_metered tid es (metered_start rate)"
  have inv: "deadline_inv rate ?m" using relay_deadline.reachable_inv [OF refl run_metered_steps] .
  obtain d where "sh_result (mt_dir d ?m) = TimedOut"
    using assms by (auto simp: metered_result_def split: if_splits intro: that [of A_to_B] that [of B_to_A])
  then have "\<not> sh_seen_any (mt_dir d' ?m)" for d'
    using inv direction_cases [of d' d] unfolding deadline_inv_def by metis
  then have "sh_out (mt_dir d' ?m) = [] \<and> mt_rate ?m = rate" for d' using inv unfolding deadline_inv_def by blast
  from this [of A_to_B] this [of B_to_A] show ?thesis by simp
qed

theorem deadline_only_when_silent_witness:
  "metered_result (run_metered 1 [(B_to_A, ReadEof), (A_to_B, Deadline)] (metered_start demo_rate)) = Some (Inl TimedOut) \<and>
   mt_rate (run_metered 1 [(B_to_A, ReadEof), (A_to_B, Deadline)] (metered_start demo_rate)) = demo_rate"
  using deadline_only_when_silent [of 1 "[(B_to_A, ReadEof), (A_to_B, Deadline)]" demo_rate]
  by (simp add: metered_result_def shovel_err_def)

text \<open>
  The flag starts unset in every relay, so bytes that the caller wrote before it (the
  replayed request of the HTTP and TLS routes) do not stop the deadline: a service that
  takes longer than the deadline to answer has its stream dropped.
\<close>

lemma deadline_ignores_earlier_bytes:
  "metered_result (run_metered tid [(d, Deadline)] (metered_start rate)) = Some (Inl TimedOut)"
  by (cases d) (simp_all add: metered_result_def shovel_err_def)

section \<open>The unmetered relay\<close>

text \<open>
  An endpoint is what it will still deliver and what was written to it.
  \<^verbatim>\<open>tokio::io::copy_bidirectional\<close> is a parameter.
\<close>

record Duplex =
  dx_in :: bytes
  dx_out :: bytes

datatype RelayError = RelayTimedOut | RelayIo string

datatype Side = SideA | SideB

datatype FirstRead = RaceElapsed | RaceError string | RaceRead Side nat

type_synonym relay = "(RelayError, u64 \<times> u64) result \<times> Duplex \<times> Duplex"

definition run_bidirectional :: "(Duplex \<Rightarrow> Duplex \<Rightarrow> relay) \<Rightarrow> Duplex \<Rightarrow> Duplex \<Rightarrow> relay" where
  "run_bidirectional copy_bidirectional a b = copy_bidirectional a b"

definition run_bidirectional_with_first_byte_deadline ::
    "(Duplex \<Rightarrow> Duplex \<Rightarrow> relay) \<Rightarrow> FirstRead \<Rightarrow> (unit, unit) result \<Rightarrow> Duplex \<Rightarrow> Duplex \<Rightarrow> relay" where
  "run_bidirectional_with_first_byte_deadline copy_bidirectional race write a b =
    (case race of
       RaceElapsed \<Rightarrow> (Inl RelayTimedOut, a, b)
     | RaceError e \<Rightarrow> (Inl (RelayIo e), a, b)
     | RaceRead side n \<Rightarrow>
         let (buf, a, b) = (case side of
               SideA \<Rightarrow> (take n (dx_in a), a\<lparr>dx_in := drop n (dx_in a)\<rparr>, b)
             | SideB \<Rightarrow> (take n (dx_in b), a, b\<lparr>dx_in := drop n (dx_in b)\<rparr>));
             len = (word_of_nat (length buf) :: u64);
             (a_to_b, b_to_a) = (case side of SideA \<Rightarrow> (len, 0) | SideB \<Rightarrow> (0, len))
         in if buf \<noteq> [] \<and> write = Inl () then (Inl (RelayIo ''write''), a, b)
            else let (a, b) = (case side of SideA \<Rightarrow> (a, b\<lparr>dx_out := dx_out b @ buf\<rparr>)
                               | SideB \<Rightarrow> (a\<lparr>dx_out := dx_out a @ buf\<rparr>, b))
              in (case copy_bidirectional a b of
                    (Inl e, a, b) \<Rightarrow> (Inl e, a, b)
                  | (Inr (extra_a_to_b, extra_b_to_a), a, b) \<Rightarrow>
                      (Inr (a_to_b + extra_a_to_b, b_to_a + extra_b_to_a), a, b)))"

text \<open>What \<^verbatim>\<open>copy_bidirectional\<close> documents of a run that ends well.\<close>

definition copy_law :: "(Duplex \<Rightarrow> Duplex \<Rightarrow> relay) \<Rightarrow> bool" where
  "copy_law copy \<longleftrightarrow> (\<forall>a b. copy a b =
    (Inr (word_of_nat (length (dx_in a)), word_of_nat (length (dx_in b))),
     a\<lparr>dx_in := [], dx_out := dx_out a @ dx_in b\<rparr>, b\<lparr>dx_in := [], dx_out := dx_out b @ dx_in a\<rparr>))"

lemma word_of_nat_take_drop: "word_of_nat (length (take n xs)) + word_of_nat (length (drop n xs)) = (word_of_nat (length xs) :: u64)"
  by (metis append_take_drop_id length_append of_nat_add)

theorem first_byte_race_transparent:
  assumes "copy_law copy"
  shows "run_bidirectional_with_first_byte_deadline copy (RaceRead side n) (Inr ()) a b = run_bidirectional copy a b"
proof -
  note c = assms [unfolded copy_law_def, rule_format]
  show ?thesis
    by (cases side) (simp_all add: run_bidirectional_with_first_byte_deadline_def run_bidirectional_def c
      word_of_nat_take_drop del: length_take length_drop)
qed

section \<open>The TCP fallback listener\<close>

text \<open>
  What one accepted socket does with the TLS handshake: it stays silent, fails it, or
  completes it with the protocol it selected.
\<close>

datatype TlsPeer = TlsSilent | TlsFails | TlsDone "bytes option"

datatype ListenerEvent = AcceptFails | Accepted TlsPeer

datatype AcceptResult = AcceptPending | AcceptErr | AcceptIncoming

primrec accept_loop :: "ListenerEvent list \<Rightarrow> AcceptResult \<times> ListenerEvent list" where
  "accept_loop [] = (AcceptPending, [])"
| "accept_loop (e # es) =
    (case e of
       AcceptFails \<Rightarrow> (AcceptErr, es)
     | Accepted TlsSilent \<Rightarrow> (AcceptPending, es)
     | Accepted TlsFails \<Rightarrow> accept_loop es
     | Accepted (TlsDone selected) \<Rightarrow>
         if selected \<noteq> Some ALPN_TCP then accept_loop es else (AcceptIncoming, es))"

text \<open>A peer that fails the handshake is passed over; one that never sends its hello is waited for.\<close>

definition skipped :: "ListenerEvent \<Rightarrow> bool" where
  "skipped e \<longleftrightarrow> e = Accepted TlsFails \<or> (\<exists>p. e = Accepted (TlsDone p) \<and> p \<noteq> Some ALPN_TCP)"

lemma accept_loop_skips: "\<forall>e \<in> set es. skipped e \<Longrightarrow> accept_loop (es @ rest) = accept_loop rest"
  by (induction es) (auto simp: skipped_def)

theorem bad_peer_does_not_stall:
  "\<forall>e \<in> set es. skipped e \<Longrightarrow>
    accept_loop (es @ Accepted (TlsDone (Some ALPN_TCP)) # rest) = (AcceptIncoming, rest)"
  by (simp add: accept_loop_skips)

theorem silent_peer_stalls: "fst (accept_loop (Accepted TlsSilent # es)) = AcceptPending"
  by simp
end
