(* ===== verification/Startup.thy ===== *)
theory Startup imports Server Acme Admin_Api Relay
begin

text \<open>
  Starting and running the server: the command line (\<^verbatim>\<open>krot-server/src/main.rs\<close>) and the
  configuration it gives (\<^verbatim>\<open>krot-server/src/config.rs\<close>), \<^verbatim>\<open>Server::start\<close> with the sockets it
  binds, the accept loop with its graceful shutdown, and the worker threads of
  \<^verbatim>\<open>run_multicore\<close> (\<^verbatim>\<open>krot-server/src/server.rs\<close>) with their sockets
  (\<^verbatim>\<open>krot-server/src/sockets.rs\<close>). What the operating system, the key generator and the
  certificate authority answer are arguments.
\<close>

section \<open>The command line\<close>

record PortRange =
  pr_lo :: u16
  pr_hi :: u16

datatype PortRangeError = ExpectedLoHi | BadPort | LoAboveHi

definition port_range_from_str :: "string \<Rightarrow> (PortRangeError, PortRange) result" where
  "port_range_from_str s =
    (case split_once CHR ''-'' s of
       None \<Rightarrow> Inl ExpectedLoHi
     | Some (lo, hi) \<Rightarrow>
        (case parse_uint 16 lo of
           None \<Rightarrow> Inl BadPort
         | Some l \<Rightarrow>
            (case parse_uint 16 hi of
               None \<Rightarrow> Inl BadPort
             | Some h \<Rightarrow>
                if (word_of_nat l :: u16) > word_of_nat h then Inl LoAboveHi
                else Inr \<lparr>pr_lo = word_of_nat l, pr_hi = word_of_nat h\<rparr>)))"

definition port_range_to_string :: "PortRange \<Rightarrow> string" where
  "port_range_to_string r = show_nat (unat (pr_lo r)) @ ''-'' @ show_nat (unat (pr_hi r))"

record Args =
  ar_domain :: "string option"
  ar_public_host :: "string option"
  ar_public_quic :: "u16 option"
  ar_bind :: SocketAddr
  ar_data_dir :: string
  ar_authorized_keys :: string
  ar_peer_list :: string
  ar_tcp_fallback_bind :: "SocketAddr option"
  ar_tcp_port_pool :: PortRange
  ar_issue_admin_token :: bool
  ar_admin_bind :: "SocketAddr option"
  ar_cores :: nat
  ar_resume_grace_secs :: nat
  ar_tls_cert :: "string option"
  ar_tls_key :: "string option"
  ar_acme_contact :: "string option"
  ar_acme_directory :: "string option"
  ar_acme_production :: bool
  ar_http_bind :: SocketAddr
  ar_https_bind :: SocketAddr

definition LETSENCRYPT_PRODUCTION :: string where
  "LETSENCRYPT_PRODUCTION = ''https://acme-v02.api.letsencrypt.org/directory''"

definition main_bind :: "Args \<Rightarrow> SocketAddr" where
  "main_bind args = (case ar_public_quic args of None \<Rightarrow> ar_bind args | Some port \<Rightarrow> (fst (ar_bind args), port))"

definition main_domain_tls :: "Args \<Rightarrow> (string, DomainTls) result" where
  "main_domain_tls args =
    (case (ar_tls_cert args, ar_tls_key args, ar_acme_contact args) of
       (Some cert, Some key, None) \<Rightarrow> Inr (PemFile cert key)
     | (None, None, Some contact) \<Rightarrow>
         Inr (Acme contact (case ar_acme_directory args of
           Some directory \<Rightarrow> Some directory
         | None \<Rightarrow> if ar_acme_production args then Some LETSENCRYPT_PRODUCTION else None))
     | _ \<Rightarrow> Inl ''DomainMode requires either --tls-cert + --tls-key, or --acme-contact'')"

definition main_mode :: "Args \<Rightarrow> (string, Mode) result" where
  "main_mode args =
    (let pool = (pr_lo (ar_tcp_port_pool args), pr_hi (ar_tcp_port_pool args))
     in case ar_domain args of
          Some apex \<Rightarrow>
            (case main_domain_tls args of
               Inl e \<Rightarrow> Inl e
             | Inr tls \<Rightarrow> Inr (ModeDomain apex tls (ar_http_bind args) (ar_https_bind args) pool))
        | None \<Rightarrow>
            Inr (ModeIp (case ar_public_host args of Some h \<Rightarrow> h | None \<Rightarrow> fst (main_bind args)) pool))"

definition main_cores :: "nat option \<Rightarrow> Args \<Rightarrow> nat" where
  "main_cores available_parallelism args =
    (if ar_cores args = 0 then (case available_parallelism of None \<Rightarrow> 1 | Some n \<Rightarrow> n) else ar_cores args)"

definition main_config :: "nat option \<Rightarrow> Args \<Rightarrow> (string, ServerConfig) result" where
  "main_config available_parallelism args =
    (case main_mode args of
       Inl e \<Rightarrow> Inl e
     | Inr mode \<Rightarrow> Inr
        \<lparr>cf_bind = main_bind args, cf_data_dir = ar_data_dir args,
         cf_authorized_keys_path = ar_authorized_keys args, cf_mode = mode,
         cf_issue_admin_token = ar_issue_admin_token args, cf_admin_bind = ar_admin_bind args,
         cf_admin_session_ttl = DEFAULT_SESSION_TTL, cf_peer_list_path = ar_peer_list args,
         cf_tcp_fallback_bind = ar_tcp_fallback_bind args,
         cf_bw_partitions = main_cores available_parallelism args,
         cf_resume_grace = Some (ar_resume_grace_secs args * 1000)\<rparr>)"

definition local_in :: "string \<Rightarrow> ServerConfig" where
  "local_in data_dir =
    \<lparr>cf_bind = (''127.0.0.1'', 0), cf_data_dir = data_dir,
     cf_authorized_keys_path = join_path data_dir ''authorized_keys'', cf_mode = mode_default,
     cf_issue_admin_token = False, cf_admin_bind = Some (''127.0.0.1'', 0),
     cf_admin_session_ttl = DEFAULT_SESSION_TTL, cf_peer_list_path = join_path data_dir ''peers.txt'',
     cf_tcp_fallback_bind = None, cf_bw_partitions = 1, cf_resume_grace = None\<rparr>"

section \<open>Sockets\<close>

text \<open>
  The sockets that are bound, each with its protocol, address and whether it asked to share
  the port. A second socket on an address is refused unless both asked for it.
  The argument \<^verbatim>\<open>grant\<close> is the local address the system gives for a requested one, or a refusal.
\<close>

datatype Protocol = UDP | TCP

record BoundSocket =
  bs_protocol :: Protocol
  bs_addr :: SocketAddr
  bs_reuse_port :: bool

type_synonym grant = "Protocol \<Rightarrow> SocketAddr \<Rightarrow> SocketAddr option"

definition bind_socket ::
  "grant \<Rightarrow> bool \<Rightarrow> Protocol \<Rightarrow> SocketAddr \<Rightarrow> BoundSocket list \<Rightarrow> (ServerError, SocketAddr \<times> BoundSocket list) result" where
  "bind_socket grant reuse protocol addr ss =
    (case grant protocol addr of
       None \<Rightarrow> Inl SE_Io
     | Some local \<Rightarrow>
        if list_ex (\<lambda>s. bs_protocol s = protocol \<and> bs_addr s = local \<and> \<not> (bs_reuse_port s \<and> reuse)) ss then Inl SE_Io
        else Inr (local, \<lparr>bs_protocol = protocol, bs_addr = local, bs_reuse_port = reuse\<rparr> # ss))"

definition reuseport_udp :: "grant \<Rightarrow> SocketAddr \<Rightarrow> BoundSocket list \<Rightarrow> (ServerError, SocketAddr \<times> BoundSocket list) result" where
  "reuseport_udp grant addr ss = bind_socket grant True UDP addr ss"

definition reuseport_tcp :: "grant \<Rightarrow> SocketAddr \<Rightarrow> BoundSocket list \<Rightarrow> (ServerError, SocketAddr \<times> BoundSocket list) result" where
  "reuseport_tcp grant addr ss = bind_socket grant True TCP addr ss"

section \<open>Starting\<close>

record StartEnv =
  st_grant :: grant
  st_key_b64 :: "string \<Rightarrow> bytes option"
  st_keys_file :: "string option option"
  st_keys_create :: bool
  st_peers_file :: "string option option"
  st_hash_file :: "bytes option"
  st_lib :: AcmeLib
  st_acme :: AcmeEnv
  st_clock :: int
  st_generated :: "(string, KeyMaterial) result"
  st_disk_ops :: nat
  st_quic_tls :: "bytes list \<times> bytes \<Rightarrow> TransportError option"
  st_start_secs :: u64

record Server =
  sr_quic :: SocketAddr
  sr_shared :: SharedState
  sr_tls :: "bytes list \<times> bytes"
  sr_apex :: "string option"
  sr_https_bind :: "SocketAddr option"
  sr_identity :: "ServerIdentity option"
  sr_http_addr :: "SocketAddr option"
  sr_https_addr :: "SocketAddr option"
  sr_admin_api_addr :: "SocketAddr option"
  sr_tcp_fallback_addr :: "SocketAddr option"

definition from_domain_tls :: "CertLib \<Rightarrow> DomainTls \<Rightarrow> disk \<Rightarrow> (ServerError, bytes list \<times> bytes) result" where
  "from_domain_tls cl tls d =
    (case tls of
       PemFile cert key \<Rightarrow> load_tls_from_pem cl cert key d
     | Acme contact directory \<Rightarrow>
         Inl (keys_text ''TlsSource::from_domain_tls does not handle ACME; use domain::acme::acquire_cert via Server::start'' []))"

text \<open>The certificate of the apex domain, once the router that answers the challenges is up.\<close>

definition domain_certificate ::
  "StartEnv \<Rightarrow> DomainTls \<Rightarrow> string \<Rightarrow> disk \<Rightarrow> (ServerError, bytes list \<times> bytes) result \<times> disk" where
  "domain_certificate en tls data_dir d =
    (case tls of
       PemFile cert key \<Rightarrow> (load_tls_from_pem (CertLib.truncate (st_lib en)) cert key d, d)
     | Acme contact directory \<Rightarrow>
         (case acquire_cert (st_lib en) (st_acme en) (st_clock en) (st_disk_ops en) data_dir new_store d of
            (Inl e, _, d) \<Rightarrow> (Inl e, d)
          | (Inr (chain, key), _, d) \<Rightarrow>
             (case cl_single_cert (st_lib en) chain key of
                Some e \<Rightarrow> (Inl (SE_Rustls e), d)
              | None \<Rightarrow> (Inr (chain, key), d))))"

definition start_domain_plane ::
  "StartEnv \<Rightarrow> DomainTls \<Rightarrow> SocketAddr \<Rightarrow> SocketAddr \<Rightarrow> string \<Rightarrow> disk \<Rightarrow> BoundSocket list \<Rightarrow>
    (ServerError, (bytes list \<times> bytes) \<times> SocketAddr \<times> SocketAddr \<times> BoundSocket list) result \<times> disk" where
  "start_domain_plane en tls http_bind https_bind data_dir d ss =
    (case bind_socket (st_grant en) False TCP http_bind ss of
       Inl e \<Rightarrow> (Inl e, d)
     | Inr (http_addr, ss) \<Rightarrow>
        (case bind_socket (st_grant en) False TCP https_bind ss of
           Inl e \<Rightarrow> (Inl e, d)
         | Inr (https_addr, ss) \<Rightarrow>
            (case domain_certificate en tls data_dir d of
               (Inl e, d) \<Rightarrow> (Inl e, d)
             | (Inr tls_cfg, d) \<Rightarrow> (Inr (tls_cfg, http_addr, https_addr, ss), d))))"

text \<open>The part of the start that depends on the mode.\<close>

record Plane =
  pl_tls :: "bytes list \<times> bytes"
  pl_identity :: "ServerIdentity option"
  pl_http :: "SocketAddr option"
  pl_https :: "SocketAddr option"
  pl_apex :: "string option"
  pl_https_bind :: "SocketAddr option"

definition start_plane ::
  "StartEnv \<Rightarrow> ServerConfig \<Rightarrow> disk \<Rightarrow> BoundSocket list \<Rightarrow> (ServerError, Plane \<times> BoundSocket list) result \<times> disk" where
  "start_plane en config d ss =
    (case cf_mode config of
       ModeIp host pool \<Rightarrow>
         (case load_or_create (CertLib.truncate (st_lib en)) (st_generated en) (st_disk_ops en) (cf_data_dir config) d of
            (Inl e, d) \<Rightarrow> (Inl e, d)
          | (Inr i, d) \<Rightarrow>
             (case into_rustls (CertLib.truncate (st_lib en)) i of
                Inl e \<Rightarrow> (Inl e, d)
              | Inr tls \<Rightarrow>
                 (Inr (\<lparr>pl_tls = tls, pl_identity = Some i, pl_http = None, pl_https = None, pl_apex = None,
                        pl_https_bind = None\<rparr>, ss), d)))
     | ModeDomain apex tls http_bind https_bind pool \<Rightarrow>
         (case start_domain_plane en tls http_bind https_bind (cf_data_dir config) d ss of
            (Inl e, d) \<Rightarrow> (Inl e, d)
          | (Inr (tls_cfg, http_addr, https_addr, ss), d) \<Rightarrow>
             (Inr (\<lparr>pl_tls = tls_cfg, pl_identity = None, pl_http = Some http_addr, pl_https = Some https_addr,
                    pl_apex = Some apex, pl_https_bind = Some https_bind\<rparr>, ss), d)))"

definition bind_optional ::
  "grant \<Rightarrow> SocketAddr option \<Rightarrow> BoundSocket list \<Rightarrow> (ServerError, SocketAddr option \<times> BoundSocket list) result" where
  "bind_optional grant addr ss =
    (case addr of
       None \<Rightarrow> Inr (None, ss)
     | Some a \<Rightarrow>
        (case bind_socket grant False TCP a ss of
           Inl e \<Rightarrow> Inl e
         | Inr (local, ss) \<Rightarrow> Inr (Some local, ss)))"

definition start_shared :: "StartEnv \<Rightarrow> ServerConfig \<Rightarrow> (ServerError, SharedState) result" where
  "start_shared en config =
    (case keys_open (st_key_b64 en) (st_keys_create en) (st_keys_file en) of
       Inl e \<Rightarrow> Inl (keys_error e)
     | Inr keys \<Rightarrow>
        (case peers_open (st_peers_file en) of
           Inl e \<Rightarrow> Inl (keys_error e)
         | Inr peers \<Rightarrow>
            Inr \<lparr>sv_keys = keys, sv_admin = token_store_new (st_hash_file en),
                 sv_registry = registry_new (tcp_port_pool (cf_mode config)), sv_config = config,
                 sv_rates = [], sv_rate_states = [], sv_peers = peers,
                 sv_metrics = metrics_new (st_start_secs en), sv_tasks = [], sv_aborted = []\<rparr>))"

definition start ::
  "StartEnv \<Rightarrow> ServerConfig \<Rightarrow> disk \<Rightarrow> BoundSocket list \<Rightarrow> (ServerError, Server \<times> BoundSocket list) result \<times> disk" where
  "start en config d ss =
    (case start_shared en config of
       Inl e \<Rightarrow> (Inl e, d)
     | Inr shared \<Rightarrow>
        (case start_plane en config d ss of
           (Inl e, d) \<Rightarrow> (Inl e, d)
         | (Inr (plane, ss), d) \<Rightarrow>
            (case st_quic_tls en (pl_tls plane) of
               Some e \<Rightarrow> (Inl (SE_Transport e), d)
             | None \<Rightarrow>
                (case bind_socket (st_grant en) False UDP (cf_bind config) ss of
                   Inl e \<Rightarrow> (Inl e, d)
                 | Inr (quic, ss) \<Rightarrow>
                    (case bind_optional (st_grant en) (cf_admin_bind config) ss of
                       Inl e \<Rightarrow> (Inl e, d)
                     | Inr (admin_api_addr, ss) \<Rightarrow>
                        (case bind_optional (st_grant en) (cf_tcp_fallback_bind config) ss of
                           Inl e \<Rightarrow> (Inl e, d)
                         | Inr (tcp_fallback_addr, ss) \<Rightarrow>
                            (Inr (\<lparr>sr_quic = quic, sr_shared = shared, sr_tls = pl_tls plane, sr_apex = pl_apex plane,
                                   sr_https_bind = pl_https_bind plane, sr_identity = pl_identity plane,
                                   sr_http_addr = pl_http plane, sr_https_addr = pl_https plane,
                                   sr_admin_api_addr = admin_api_addr, sr_tcp_fallback_addr = tcp_fallback_addr\<rparr>, ss), d)))))))"

definition fingerprint_hex :: "Server \<Rightarrow> string option" where
  "fingerprint_hex sv = map_option si_spki_sha256 (sr_identity sv)"

section \<open>The accept loop\<close>

text \<open>
  The loop of \<^verbatim>\<open>run_until\<close> and of a worker. At its \<^verbatim>\<open>i\<close>-th turn \<^verbatim>\<open>shutdown i\<close> says whether
  \<^verbatim>\<open>wait_shutdown\<close> is ready, which the biased select looks at first, and \<^verbatim>\<open>ev i\<close> is
  what else it waits for: a connection, the closing of the endpoint, or a finished task.
\<close>

datatype LoopEvent = EvIncoming nat | EvClosed | EvJoined nat

record LoopState =
  lp_spawned :: "nat list"
  lp_tasks :: "nat list"

definition spawn_task :: "nat \<Rightarrow> LoopState \<Rightarrow> LoopState" where
  "spawn_task c st = st\<lparr>lp_spawned := lp_spawned st @ [c], lp_tasks := lp_tasks st @ [c]\<rparr>"

definition join_task :: "nat \<Rightarrow> LoopState \<Rightarrow> LoopState" where
  "join_task c st = st\<lparr>lp_tasks := remove1 c (lp_tasks st)\<rparr>"

partial_function (option) accept_tasks ::
  "(nat \<Rightarrow> bool) \<Rightarrow> (nat \<Rightarrow> LoopEvent) \<Rightarrow> nat \<Rightarrow> LoopState \<Rightarrow> LoopState option" where
  "accept_tasks shutdown ev i st =
    (if shutdown i then Some st
     else case ev i of
       EvClosed \<Rightarrow> Some st
     | EvIncoming c \<Rightarrow> accept_tasks shutdown ev (Suc i) (spawn_task c st)
     | EvJoined c \<Rightarrow> accept_tasks shutdown ev (Suc i) (join_task c st))"

declare accept_tasks.simps [code]

text \<open>
  Draining: \<^verbatim>\<open>finish c\<close> is how long task \<^verbatim>\<open>c\<close> still needs. The tasks that need longer than
  the deadline are aborted with the set that holds them.
\<close>

definition drain :: "(nat \<Rightarrow> nat option) \<Rightarrow> nat list \<Rightarrow> nat list \<times> nat list" where
  "drain finish tasks =
    partition (\<lambda>c. case finish c of None \<Rightarrow> False | Some t \<Rightarrow> t \<le> SHUTDOWN_DEADLINE) tasks"

record LoopEnd =
  le_spawned :: "nat list"
  le_joined :: "nat list"
  le_aborted :: "nat list"
  le_endpoint_closed :: bool

definition run_until :: "(nat \<Rightarrow> bool) \<Rightarrow> (nat \<Rightarrow> LoopEvent) \<Rightarrow> (nat \<Rightarrow> nat option) \<Rightarrow> LoopEnd option" where
  "run_until shutdown ev finish =
    (case accept_tasks shutdown ev 0 \<lparr>lp_spawned = [], lp_tasks = []\<rparr> of
       None \<Rightarrow> None
     | Some st \<Rightarrow>
        (let (joined, aborted) = drain finish (lp_tasks st)
         in Some \<lparr>le_spawned = lp_spawned st, le_joined = joined, le_aborted = aborted, le_endpoint_closed = True\<rparr>))"

section \<open>Worker threads\<close>

text \<open>
  A worker binds its own sockets and then runs the accept loop; an error of its set-up
  ends it, and the sockets it had bound go with it.
\<close>

definition worker ::
  "grant \<Rightarrow> TransportError option \<Rightarrow> Server \<Rightarrow> BoundSocket list \<Rightarrow> (ServerError, unit) result \<times> BoundSocket list" where
  "worker grant quic_tls sv ss =
    (case reuseport_udp grant (cf_bind (sv_config (sr_shared sv))) ss of
       Inl e \<Rightarrow> (Inl e, ss)
     | Inr (_, ss') \<Rightarrow>
        (case quic_tls of
           Some e \<Rightarrow> (Inl (SE_Transport e), ss)
         | None \<Rightarrow>
            (case (sr_https_bind sv, sr_apex sv) of
               (Some https_bind, Some apex) \<Rightarrow>
                 (case reuseport_tcp grant https_bind ss' of
                    Inl e \<Rightarrow> (Inl e, ss)
                  | Inr (_, ss'') \<Rightarrow> (Inr (), ss''))
             | _ \<Rightarrow> (Inr (), ss'))))"

primrec spawn_workers ::
  "grant \<Rightarrow> TransportError option \<Rightarrow> Server \<Rightarrow> nat \<Rightarrow> BoundSocket list \<Rightarrow> (ServerError, unit) result list \<times> BoundSocket list" where
  "spawn_workers grant quic_tls sv 0 ss = ([], ss)"
| "spawn_workers grant quic_tls sv (Suc n) ss =
    (let (r, ss) = worker grant quic_tls sv ss;
         (rs, ss) = spawn_workers grant quic_tls sv n ss
     in (r # rs, ss))"

text \<open>
  Dropping the server releases the QUIC socket it was started with; its other sockets
  belong to tasks of the start-up runtime. The value is \<^verbatim>\<open>None\<close> where an assertion fails.
\<close>

definition release_quic :: "Server \<Rightarrow> BoundSocket list \<Rightarrow> BoundSocket list" where
  "release_quic sv ss = filter (\<lambda>s. \<not> (bs_protocol s = UDP \<and> bs_addr s = sr_quic sv)) ss"

definition run_multicore ::
  "grant \<Rightarrow> TransportError option \<Rightarrow> nat \<Rightarrow> Server \<Rightarrow> BoundSocket list \<Rightarrow> ((ServerError, unit) result list \<times> BoundSocket list) option" where
  "run_multicore grant quic_tls cores sv ss =
    (if cores < 1 then None
     else if snd (cf_bind (sv_config (sr_shared sv))) = 0 then None
     else if (case sr_https_bind sv of Some https_bind \<Rightarrow> snd https_bind = 0 | None \<Rightarrow> False) then None
     else Some (spawn_workers grant quic_tls sv cores (release_quic sv ss)))"

section \<open>The port pool\<close>

text \<open>
  C39: A port pool the command line accepts is a range whose first port is not above its
  last, every such range can be written on the command line, and what the program prints
  of a range is read back as that range.
\<close>

theorem port_range_wellformed:
  "port_range_from_str (port_range_to_string r) = (if pr_lo r \<le> pr_hi r then Inr r else Inl LoAboveHi) \<and>
    ((\<exists>s. port_range_from_str s = Inr r) \<longleftrightarrow> pr_lo r \<le> pr_hi r)"
proof -
  have "CHR ''-'' \<notin> set (show_nat (unat (pr_lo r)))"
    by (rule show_nat_chars) (simp add: is_ascii_digit_def less_eq_char_def)
  then have "split_once CHR ''-'' (port_range_to_string r) = Some (show_nat (unat (pr_lo r)), show_nat (unat (pr_hi r)))"
    by (simp add: port_range_to_string_def split_once_Some)
  moreover have "unat (pr_lo r) < 2 ^ 16" "unat (pr_hi r) < 2 ^ 16"
    using unsigned_less [of "pr_lo r"] unsigned_less [of "pr_hi r"] by simp_all
  ultimately have rt: "port_range_from_str (port_range_to_string r) = (if pr_lo r \<le> pr_hi r then Inr r else Inl LoAboveHi)"
    by (simp add: port_range_from_str_def parse_show_nat not_le)
  have "port_range_from_str s = Inr r \<Longrightarrow> pr_lo r \<le> pr_hi r" for s
    by (auto simp: port_range_from_str_def not_less split: option.splits if_splits)
  with rt show ?thesis by metis
qed

section \<open>Shutting down\<close>

definition stops :: "(nat \<Rightarrow> bool) \<Rightarrow> (nat \<Rightarrow> LoopEvent) \<Rightarrow> nat \<Rightarrow> bool" where
  "stops shutdown ev i \<longleftrightarrow> shutdown i \<or> ev i = EvClosed"

text \<open>The connections that came in during the first turns.\<close>

primrec arrivals :: "(nat \<Rightarrow> LoopEvent) \<Rightarrow> nat \<Rightarrow> nat list" where
  "arrivals ev 0 = []"
| "arrivals ev (Suc n) = arrivals ev n @ (case ev n of EvIncoming c \<Rightarrow> [c] | _ \<Rightarrow> [])"

definition loop_step :: "LoopEvent \<Rightarrow> LoopState \<Rightarrow> LoopState" where
  "loop_step e st = (case e of EvIncoming c \<Rightarrow> spawn_task c st | EvJoined c \<Rightarrow> join_task c st | EvClosed \<Rightarrow> st)"

primrec loop_at :: "(nat \<Rightarrow> LoopEvent) \<Rightarrow> LoopState \<Rightarrow> nat \<Rightarrow> LoopState" where
  "loop_at ev st 0 = st"
| "loop_at ev st (Suc n) = loop_step (ev n) (loop_at ev st n)"

lemma accept_tasks_step:
  "\<not> stops shutdown ev i \<Longrightarrow> accept_tasks shutdown ev i st = accept_tasks shutdown ev (Suc i) (loop_step (ev i) st)"
  by (subst accept_tasks.simps) (auto simp: stops_def loop_step_def split: LoopEvent.split)

lemma accept_tasks_stop: "stops shutdown ev i \<Longrightarrow> accept_tasks shutdown ev i st = Some st"
  by (subst accept_tasks.simps) (auto simp: stops_def)

lemma accept_tasks_until:
  "\<forall>j < n. \<not> stops shutdown ev j \<Longrightarrow> accept_tasks shutdown ev 0 st = accept_tasks shutdown ev n (loop_at ev st n)"
  by (induction n) (simp_all add: accept_tasks_step)

lemma accept_tasks_stops:
  assumes "accept_tasks shutdown ev i st = Some st'"
  shows "\<exists>n \<ge> i. stops shutdown ev n"
proof (rule accept_tasks.raw_induct [where P = "\<lambda>shutdown ev i st st'. \<exists>n \<ge> i. stops shutdown ev n", OF _ assms])
  fix accept shutdown ev i st st'
  assume IH: "\<And>shutdown ev i st st'. accept shutdown ev i st = Some st' \<Longrightarrow> \<exists>n \<ge> i. stops shutdown ev n"
    and run: "(if shutdown i then Some st else case ev i of EvIncoming c \<Rightarrow> accept shutdown ev (Suc i) (spawn_task c st)
      | EvClosed \<Rightarrow> Some st | EvJoined c \<Rightarrow> accept shutdown ev (Suc i) (join_task c st)) = Some st'"
  show "\<exists>n \<ge> i. stops shutdown ev n"
  proof (cases "stops shutdown ev i")
    case False
    then obtain st1 where "accept shutdown ev (Suc i) st1 = Some st'"
      using run by (auto simp: stops_def split: LoopEvent.splits)
    then show ?thesis using IH Suc_leD by blast
  qed blast
qed

lemma loop_at_spawned: "lp_spawned (loop_at ev \<lparr>lp_spawned = [], lp_tasks = []\<rparr> n) = arrivals ev n"
  by (induction n) (auto simp: loop_step_def spawn_task_def join_task_def split: LoopEvent.split)

lemma loop_at_tasks:
  "set (lp_tasks (loop_at ev \<lparr>lp_spawned = [], lp_tasks = []\<rparr> n)) \<subseteq> set (arrivals ev n)"
  "c \<in> set (arrivals ev n) \<Longrightarrow> c \<notin> set (lp_tasks (loop_at ev \<lparr>lp_spawned = [], lp_tasks = []\<rparr> n)) \<Longrightarrow> \<exists>j < n. ev j = EvJoined c"
proof (induction n)
  case (Suc n)
  { case 1 then show ?case using Suc.IH(1)
      by (auto simp: loop_step_def spawn_task_def join_task_def split: LoopEvent.splits dest: notin_set_remove1) }
  { case 2 show ?case
    proof (cases "c \<in> set (arrivals ev n) \<and> c \<notin> set (lp_tasks (loop_at ev \<lparr>lp_spawned = [], lp_tasks = []\<rparr> n))")
      case True then show ?thesis using Suc.IH(2) less_SucI by blast
    next
      case False
      then have "ev n = EvJoined c" using 2
        by (auto simp: loop_step_def spawn_task_def join_task_def split: LoopEvent.splits)
           (metis in_set_remove1)
      then show ?thesis by blast
    qed }
qed simp_all

text \<open>
  C13: The server's accept loop returns if and only if the shutdown signal comes or the
  endpoint closes. At the first turn where one of them holds it stops accepting: the
  connections it has spawned are those that came in before, the shutdown signal winning
  over a connection that is ready at the same turn, and every one of them has finished
  before, is waited for and joined, or is aborted; an aborted one was still running when
  the shutdown deadline passed.
\<close>

theorem run_until_returns:
  "((\<exists>r. run_until shutdown ev finish = Some r) \<longleftrightarrow> (\<exists>n. stops shutdown ev n)) \<and>
    (\<forall>r. run_until shutdown ev finish = Some r \<longrightarrow>
      (\<exists>n. stops shutdown ev n \<and> (\<forall>j < n. \<not> stops shutdown ev j) \<and> le_spawned r = arrivals ev n \<and> le_endpoint_closed r \<and>
        set (le_joined r) \<union> set (le_aborted r) \<subseteq> set (arrivals ev n) \<and>
        (\<forall>c \<in> set (arrivals ev n). c \<in> set (le_joined r) \<or> c \<in> set (le_aborted r) \<or> (\<exists>j < n. ev j = EvJoined c)) \<and>
        (\<forall>c \<in> set (le_aborted r). \<forall>t. finish c = Some t \<longrightarrow> SHUTDOWN_DEADLINE < t)))"
proof (cases "\<exists>n. stops shutdown ev n")
  case False
  then show ?thesis using accept_tasks_stops by (fastforce simp: run_until_def split: option.splits)
next
  case True
  then obtain n where n: "stops shutdown ev n" "\<forall>j < n. \<not> stops shutdown ev j"
    by (metis LeastI_ex not_less_Least)
  define st where "st = loop_at ev \<lparr>lp_spawned = [], lp_tasks = []\<rparr> n"
  obtain joined aborted where jd: "drain finish (lp_tasks st) = (joined, aborted)" by fastforce
  let ?r = "\<lparr>le_spawned = arrivals ev n, le_joined = joined, le_aborted = aborted, le_endpoint_closed = True\<rparr>"
  have run: "run_until shutdown ev finish = Some ?r"
    using accept_tasks_until [OF n(2)] accept_tasks_stop [OF n(1)] jd
    by (simp add: run_until_def loop_at_spawned st_def)
  have all: "set joined \<union> set aborted = set (lp_tasks st)"
    and late: "\<forall>c \<in> set aborted. \<forall>t. finish c = Some t \<longrightarrow> SHUTDOWN_DEADLINE < t"
    using jd by (auto simp: drain_def split: option.splits)
  have "set joined \<union> set aborted \<subseteq> set (arrivals ev n)"
    "\<forall>c \<in> set (arrivals ev n). c \<in> set joined \<or> c \<in> set aborted \<or> (\<exists>j < n. ev j = EvJoined c)"
    using loop_at_tasks [where ev = ev and n = n] all unfolding st_def by blast+
  then have "\<exists>m. stops shutdown ev m \<and> (\<forall>j < m. \<not> stops shutdown ev j) \<and> le_spawned ?r = arrivals ev m \<and> le_endpoint_closed ?r \<and>
        set (le_joined ?r) \<union> set (le_aborted ?r) \<subseteq> set (arrivals ev m) \<and>
        (\<forall>c \<in> set (arrivals ev m). c \<in> set (le_joined ?r) \<or> c \<in> set (le_aborted ?r) \<or> (\<exists>j < m. ev j = EvJoined c)) \<and>
        (\<forall>c \<in> set (le_aborted ?r). \<forall>t. finish c = Some t \<longrightarrow> SHUTDOWN_DEADLINE < t)"
    using n late by (intro exI [of _ n]) simp
  then show ?thesis using run True by simp
qed

theorem run_until_returns_witness:
  "\<exists>r. run_until (\<lambda>i. 2 \<le> i) EvIncoming (\<lambda>c. if c = 0 then Some 10 else None) = Some r \<and> le_spawned r = [0, 1]"
proof -
  let ?sd = "\<lambda>i. 2 \<le> (i :: nat)"
  note t = run_until_returns [of ?sd EvIncoming "\<lambda>c. if c = 0 then Some 10 else None"]
  have "stops ?sd EvIncoming 2" by (simp add: stops_def)
  then obtain r where r: "run_until ?sd EvIncoming (\<lambda>c. if c = 0 then Some 10 else None) = Some r" using t by blast
  then obtain n where n: "stops ?sd EvIncoming n" "\<forall>j < n. \<not> stops ?sd EvIncoming j" "le_spawned r = arrivals EvIncoming n"
    using t by blast
  then have "n = 2" by (auto simp: stops_def) (metis le_neq_implies_less order_refl)
  then show ?thesis using r n(3) by (auto simp: numeral_2_eq_2)
qed

section \<open>Sockets of the workers\<close>

lemma bind_socket_cases:
  assumes "bind_socket grant reuse p a ss = Inr (local, ss')"
  shows "grant p a = Some local" "ss' = \<lparr>bs_protocol = p, bs_addr = local, bs_reuse_port = reuse\<rparr> # ss"
  using assms by (auto simp: bind_socket_def split: option.splits if_splits)

lemma bind_socket_Inr:
  "bind_socket grant reuse p a ss = Inr (local, ss') \<Longrightarrow>
    grant p a = Some local \<and> ss' = \<lparr>bs_protocol = p, bs_addr = local, bs_reuse_port = reuse\<rparr> # ss"
  using bind_socket_cases by blast

lemma bind_optional_tcp:
  assumes "bind_optional grant a ss = Inr (local, ss')"
  shows "set ss \<subseteq> set ss'" "s \<in> set ss' \<Longrightarrow> s \<in> set ss \<or> bs_protocol s = TCP"
  using assms by (auto simp: bind_optional_def split: option.splits sum.splits prod.splits dest!: bind_socket_cases(2))

lemma start_plane_sockets:
  assumes "start_plane en config d [] = (Inr (plane, ss), d')"
  shows "\<forall>s \<in> set ss. bs_protocol s = TCP"
    "case cf_mode config of ModeIp host pool \<Rightarrow> pl_https_bind plane = None
     | ModeDomain apex tls hb hsb pool \<Rightarrow> pl_https_bind plane = Some hsb \<and> pl_apex plane = Some apex \<and>
         (\<exists>local. st_grant en TCP hsb = Some local \<and> \<lparr>bs_protocol = TCP, bs_addr = local, bs_reuse_port = False\<rparr> \<in> set ss)"
  using assms
  by (auto simp: start_plane_def start_domain_plane_def split: Mode.splits sum.splits prod.splits
      dest!: bind_socket_Inr)

lemma start_sockets:
  assumes "start en config d [] = (Inr (sv, ss), d')"
  obtains plane ss0 d0 where "start_plane en config d [] = (Inr (plane, ss0), d0)" "d' = d0"
    "sv_config (sr_shared sv) = config" "sr_https_bind sv = pl_https_bind plane" "sr_apex sv = pl_apex plane"
    "sr_identity sv = pl_identity plane" "sr_tls sv = pl_tls plane"
    "st_grant en UDP (cf_bind config) = Some (sr_quic sv)" "set ss0 \<subseteq> set ss"
    "\<forall>s \<in> set ss. bs_protocol s = UDP \<longrightarrow> bs_addr s = sr_quic sv"
proof -
  obtain shared where sh: "start_shared en config = Inr shared" using assms by (auto simp: start_def split: sum.splits)
  obtain plane ss0 d0 where pl: "start_plane en config d [] = (Inr (plane, ss0), d0)"
    using assms sh by (auto simp: start_def split: sum.splits prod.splits)
  obtain quic ss1 where q: "bind_socket (st_grant en) False UDP (cf_bind config) ss0 = Inr (quic, ss1)"
    using assms sh pl by (auto simp: start_def split: sum.splits prod.splits option.splits)
  obtain aa ss2 where a: "bind_optional (st_grant en) (cf_admin_bind config) ss1 = Inr (aa, ss2)"
    using assms sh pl q by (auto simp: start_def split: sum.splits prod.splits option.splits)
  obtain ta where t: "bind_optional (st_grant en) (cf_tcp_fallback_bind config) ss2 = Inr (ta, ss)"
    and sv: "d' = d0" "sr_shared sv = shared" "sr_https_bind sv = pl_https_bind plane" "sr_apex sv = pl_apex plane"
      "sr_identity sv = pl_identity plane" "sr_tls sv = pl_tls plane" "sr_quic sv = quic"
    using assms sh pl q a by (auto simp: start_def split: sum.splits prod.splits option.splits)
  have cfg: "sv_config shared = config" using sh by (auto simp: start_shared_def split: sum.splits)
  have udp: "bs_protocol s = UDP \<Longrightarrow> bs_addr s = quic" if "s \<in> set ss" for s
    using bind_optional_tcp(2) [OF t that] bind_optional_tcp(2) [OF a, of s] start_plane_sockets(1) [OF pl] bind_socket_cases(2) [OF q]
    by auto
  show thesis using that [OF pl sv(1) _ sv(3-6)] sv cfg bind_socket_cases [OF q] bind_optional_tcp(1) [OF a] bind_optional_tcp(1) [OF t] udp
    by auto
qed

lemma spawn_workers_ip:
  "st_grant en UDP (cf_bind (sv_config (sr_shared sv))) = Some a \<Longrightarrow> sr_https_bind sv = None \<Longrightarrow>
    \<forall>s \<in> set ss. bs_protocol s = UDP \<and> bs_addr s = a \<longrightarrow> bs_reuse_port s \<Longrightarrow>
    fst (spawn_workers (st_grant en) None sv n ss) = replicate n (Inr ())"
proof (induction n arbitrary: ss)
  case (Suc n)
  let ?s = "\<lparr>bs_protocol = UDP, bs_addr = a, bs_reuse_port = True\<rparr>"
  have "worker (st_grant en) None sv ss = (Inr (), ?s # ss)"
    using Suc.prems by (auto simp: worker_def reuseport_udp_def bind_socket_def list_ex_iff)
  then show ?case using Suc.IH [of "?s # ss"] Suc.prems by (simp split: prod.split add: prod_eq_iff)
qed simp

lemma spawn_workers_domain:
  "st_grant en UDP (cf_bind (sv_config (sr_shared sv))) = Some a \<Longrightarrow> sr_https_bind sv = Some hb \<Longrightarrow> sr_apex sv = Some apex \<Longrightarrow>
    st_grant en TCP hb = Some local \<Longrightarrow> \<lparr>bs_protocol = TCP, bs_addr = local, bs_reuse_port = False\<rparr> \<in> set ss \<Longrightarrow>
    spawn_workers (st_grant en) None sv n ss = (replicate n (Inl SE_Io), ss)"
proof (induction n)
  case (Suc n)
  have "worker (st_grant en) None sv ss = (Inl SE_Io, ss)"
    using Suc.prems by (auto simp: worker_def reuseport_udp_def reuseport_tcp_def bind_socket_def list_ex_iff)
  then show ?case using Suc by simp
qed simp

text \<open>
  C31: What the worker threads of a multi-core server do after a start that succeeded: in
  IpMode every one of them gets its own socket and serves, while in
  DomainMode every one of them ends at once with an I/O error, since the HTTPS listener
  bound at the start is still open and was not bound to be shared.
\<close>

theorem multicore_workers:
  assumes "start en config d [] = (Inr (sv, ss), d')" "run_multicore (st_grant en) None cores sv ss = Some (rs, ss')"
  shows "rs = replicate cores (case cf_mode config of ModeIp _ _ \<Rightarrow> Inr () | ModeDomain _ _ _ _ _ \<Rightarrow> Inl SE_Io)"
proof -
  obtain plane ss0 where pl: "start_plane en config d [] = (Inr (plane, ss0), d')"
    and sv: "sv_config (sr_shared sv) = config" "sr_https_bind sv = pl_https_bind plane" "sr_apex sv = pl_apex plane"
    and q: "st_grant en UDP (cf_bind config) = Some (sr_quic sv)" "set ss0 \<subseteq> set ss"
      "\<forall>s \<in> set ss. bs_protocol s = UDP \<longrightarrow> bs_addr s = sr_quic sv"
    using start_sockets [OF assms(1)] by metis
  have run: "spawn_workers (st_grant en) None sv cores (release_quic sv ss) = (rs, ss')"
    using assms(2) by (auto simp: run_multicore_def split: if_splits)
  show ?thesis
  proof (cases "cf_mode config")
    case (ModeIp host pool)
    then have "sr_https_bind sv = None" using start_plane_sockets(2) [OF pl] sv(2) by simp
    then show ?thesis using spawn_workers_ip [of en sv "sr_quic sv" "release_quic sv ss" cores] q run ModeIp
      by (auto simp: sv(1) release_quic_def)
  next
    case (ModeDomain apex tls hb hsb pool)
    then obtain local where l: "sr_https_bind sv = Some hsb" "sr_apex sv = Some apex" "st_grant en TCP hsb = Some local"
        "\<lparr>bs_protocol = TCP, bs_addr = local, bs_reuse_port = False\<rparr> \<in> set ss"
      using start_plane_sockets(2) [OF pl] sv(2,3) q(2) by auto
    then have "\<lparr>bs_protocol = TCP, bs_addr = local, bs_reuse_port = False\<rparr> \<in> set (release_quic sv ss)"
      by (simp add: release_quic_def)
    then show ?thesis using spawn_workers_domain [OF _ l(1-3), of "sr_quic sv" "release_quic sv ss" cores] q(1) run ModeDomain
      by (simp add: sv(1))
  qed
qed

definition demo_start :: StartEnv where
  "demo_start = \<lparr>st_grant = (\<lambda>_. Some), st_key_b64 = (\<lambda>_. None), st_keys_file = Some (Some []), st_keys_create = True,
     st_peers_file = None, st_hash_file = None, st_lib = demo_xl, st_acme = demo_acme, st_clock = 0,
     st_generated = Inr (demo_material ''1''), st_disk_ops = 500, st_quic_tls = (\<lambda>_. None), st_start_secs = 0\<rparr>"

definition demo_config :: ServerConfig where
  "demo_config = (local_in ''d'')\<lparr>cf_bind := (''0.0.0.0'', 7853)\<rparr>"

lemma demo_identity_created:
  "\<exists>i d'. load_or_create (CertLib.truncate demo_xl) (Inr (demo_material ''1'')) 500 ''d'' Map.empty = (Inr i, d')"
proof -
  have "length (identity_writes ''d'' (demo_material ''1'')) \<le> 499"
    by (simp add: identity_writes_def atomic_write_split(1) write_ops_def as_bytes_def demo_material_def with_eol_def pem_block_def)
  then show ?thesis
    by (auto simp: load_or_create_def file_run_def identity_of_def compute_spki_fingerprint_def demo_xl_def demo_cl_def CertLib.defs)
qed

lemma demo_started_with:
  assumes "load_or_create (CertLib.truncate lib) g n ''d'' d = (Inr i, d')" "\<And>c k. cl_single_cert lib c k = None"
  shows "\<exists>sv ss. start (demo_start\<lparr>st_lib := lib, st_generated := g, st_disk_ops := n\<rparr>) demo_config d [] = (Inr (sv, ss), d') \<and>
    sv_config (sr_shared sv) = demo_config \<and> sr_https_bind sv = None \<and> sr_identity sv = Some i"
proof -
  let ?en = "demo_start\<lparr>st_lib := lib, st_generated := g, st_disk_ops := n\<rparr>"
  have no_keys: "parse_keys_text b [] = Inr []" for b by (simp add: parse_keys_text_def str_lines_def)
  obtain shared where sh: "start_shared ?en demo_config = Inr shared" "sv_config shared = demo_config"
    by (simp add: start_shared_def demo_start_def keys_open_def parse_file_def peers_open_def no_keys)
  obtain plane where pl: "start_plane ?en demo_config d [] = (Inr (plane, []), d')" "pl_https_bind plane = None" "pl_identity plane = Some i"
    using assms by (simp add: start_plane_def demo_config_def local_in_def mode_default_def into_rustls_def CertLib.defs)
  have fields: "st_grant demo_start p a = Some a" "st_quic_tls demo_start t = None" "cf_admin_bind demo_config = Some (''127.0.0.1'', 0)"
    "cf_tcp_fallback_bind demo_config = None" for p a t
    by (simp_all add: demo_start_def demo_config_def local_in_def)
  show ?thesis using sh(2) pl(2,3) by (simp add: start_def sh(1) pl(1) bind_socket_def bind_optional_def fields)
qed

lemma demo_started:
  "\<exists>sv ss d'. start demo_start demo_config Map.empty [] = (Inr (sv, ss), d') \<and> sv_config (sr_shared sv) = demo_config \<and> sr_https_bind sv = None"
proof -
  obtain i d' where i: "load_or_create (CertLib.truncate demo_xl) (Inr (demo_material ''1'')) 500 ''d'' Map.empty = (Inr i, d')"
    using demo_identity_created by blast
  have "cl_single_cert demo_xl c k = None" for c k by (simp add: demo_xl_def demo_cl_def CertLib.defs)
  from demo_started_with [OF i this] show ?thesis by (auto simp: demo_start_def)
qed

theorem multicore_workers_witness:
  "\<exists>sv ss d' ss'. start demo_start demo_config Map.empty [] = (Inr (sv, ss), d') \<and>
    run_multicore (st_grant demo_start) None 2 sv ss = Some ([Inr (), Inr ()], ss')"
proof -
  obtain sv ss d' where st: "start demo_start demo_config Map.empty [] = (Inr (sv, ss), d')"
      "sv_config (sr_shared sv) = demo_config" "sr_https_bind sv = None"
    using demo_started by blast
  obtain rs ss' where w: "spawn_workers (st_grant demo_start) None sv 2 (release_quic sv ss) = (rs, ss')"
    by (rule prod.exhaust)
  have run: "run_multicore (st_grant demo_start) None 2 sv ss = Some (rs, ss')"
    using st(2,3) by (simp add: run_multicore_def demo_config_def w)
  have "rs = [Inr (), Inr ()]"
    using multicore_workers [OF st(1) run] by (simp add: demo_config_def local_in_def mode_default_def numeral_2_eq_2)
  then show ?thesis using st(1) run by blast
qed
end
