(* ===== verification/Client_Tunnel.thy ===== *)
theory Client_Tunnel imports Client_Session Routing
begin

text \<open>
  Publishing and serving a tunnel (\<^verbatim>\<open>krot-client/src/tunnel.rs\<close>) and the commands of the
  client (\<^verbatim>\<open>krot-client/src/main.rs\<close>): what a publish call registers, the task that accepts
  the server's streams for the tunnel and hands each to the proxy, and what the commands do
  in which order up to the end of the process. Loading the configuration, the network and
  the arrival of streams and signals are arguments.
\<close>

section \<open>Publishing\<close>

record TunnelHandle =
  th_published :: PublishedTunnel
  th_target :: SocketAddr
  th_inspect :: bool
  th_auth :: "AuthConfig option"
  th_control :: ClientStream

definition publish_tunnel ::
  "bool \<Rightarrow> ClientStream \<Rightarrow> string \<Rightarrow> TunnelKind \<Rightarrow> SocketAddr \<Rightarrow> bool \<Rightarrow> SessionId option \<Rightarrow> AuthConfig option
    \<Rightarrow> (ClientError, TunnelHandle) result" where
  "publish_tunnel timed_out ct label kind local_target inspector resume_session_id auth =
    (case publish timed_out label kind inspector resume_session_id ct of
       (Inl e, _) \<Rightarrow> Inl e
     | (Inr p, ct) \<Rightarrow>
         Inr \<lparr>th_published = p, th_target = local_target, th_inspect = inspector, th_auth = auth, th_control = ct\<rparr>)"

definition client_publish_tcp :: "bool \<Rightarrow> ClientStream \<Rightarrow> string \<Rightarrow> SocketAddr \<Rightarrow> (ClientError, TunnelHandle) result" where
  "client_publish_tcp timed_out ct label local_target =
    publish_tunnel timed_out ct label (Tcp None) local_target False None None"

definition client_publish_tcp_resume ::
  "bool \<Rightarrow> ClientStream \<Rightarrow> string \<Rightarrow> SocketAddr \<Rightarrow> SessionId \<Rightarrow> (ClientError, TunnelHandle) result" where
  "client_publish_tcp_resume timed_out ct label local_target resume_session_id =
    publish_tunnel timed_out ct label (Tcp None) local_target False (Some resume_session_id) None"

definition client_publish_http ::
  "bool \<Rightarrow> ClientStream \<Rightarrow> string \<Rightarrow> SocketAddr \<Rightarrow> bool \<Rightarrow> (ClientError, TunnelHandle) result" where
  "client_publish_http timed_out ct label local_target inspector =
    publish_tunnel timed_out ct label Http local_target inspector None None"

definition client_publish_http_authed ::
  "bool \<Rightarrow> ClientStream \<Rightarrow> string \<Rightarrow> SocketAddr \<Rightarrow> bool \<Rightarrow> AuthConfig \<Rightarrow> (ClientError, TunnelHandle) result" where
  "client_publish_http_authed timed_out ct label local_target inspector auth =
    publish_tunnel timed_out ct label Http local_target inspector None (Some auth)"

definition client_publish_http_resume ::
  "bool \<Rightarrow> ClientStream \<Rightarrow> string \<Rightarrow> SocketAddr \<Rightarrow> bool \<Rightarrow> SessionId \<Rightarrow> (ClientError, TunnelHandle) result" where
  "client_publish_http_resume timed_out ct label local_target inspector resume_session_id =
    publish_tunnel timed_out ct label Http local_target inspector (Some resume_session_id) None"

section \<open>Serving\<close>

text \<open>
  The serving task. A shutdown message, or the end of its sender, says goodbye; a stream is
  given to a task of its own; the end of the connection ends the task.
\<close>

datatype ServeEvent = ShutdownReceived | StreamAccepted nat | ConnectionEnded

record StreamTask =
  tk_stream :: nat
  tk_tunnel_id :: TunnelId
  tk_target :: SocketAddr
  tk_inspect :: bool
  tk_auth :: "AuthConfig option"

definition stream_task :: "TunnelHandle \<Rightarrow> nat \<Rightarrow> StreamTask" where
  "stream_task h s =
    \<lparr>tk_stream = s, tk_tunnel_id = pt_tunnel_id (th_published h), tk_target = th_target h, tk_inspect = th_inspect h,
     tk_auth = th_auth h\<rparr>"

definition run_stream_task :: "ProxyEnv \<Rightarrow> StreamTask \<Rightarrow> ProxyEnd proxy" where
  "run_stream_task env t = handle_bi_inspected env (tk_tunnel_id t) (tk_inspect t) (tk_auth t)"

primrec serve :: "TunnelHandle \<Rightarrow> ServeEvent list \<Rightarrow> (ClientError, unit) result option \<times> StreamTask list \<times> ClientStream" where
  "serve h [] = (None, [], th_control h)"
| "serve h (e # es) =
    (case e of
       ShutdownReceived \<Rightarrow> (Some (Inr ()), [], shutdown (th_control h))
     | ConnectionEnded \<Rightarrow> (Some (Inr ()), [], th_control h)
     | StreamAccepted s \<Rightarrow> (let (r, ts, ct) = serve h es in (r, stream_task h s # ts, ct)))"

section \<open>Commands\<close>

record CommandEnv =
  ce_load :: "(ClientError, ClientConfig) result"
  ce_net :: Net
  ce_lib :: Lib
  ce_timed_out :: bool
  ce_random :: u32

definition run_init ::
  "Net \<Rightarrow> Lib \<Rightarrow> (string \<Rightarrow> string \<Rightarrow> bytes option \<Rightarrow> (ClientError, ClientStream \<times> string option) result) \<Rightarrow>
    (ClientError, ClientConfig) result \<Rightarrow> bytes \<Rightarrow> (ClientConfig \<Rightarrow> (ClientError, unit) result) \<Rightarrow>
    string \<Rightarrow> string \<Rightarrow> string option \<Rightarrow> string option \<Rightarrow> string option \<Rightarrow> (ClientError, string list) result" where
  "run_init net lib dial_enroll existing seed save server admin_token fingerprint sni label =
    (let (host, port) = split_host_port server
     in case enroll net lib dial_enroll existing seed save \<lparr>eo_server_host = host, eo_server_quic_port = port, eo_sni = sni, eo_admin_token = admin_token,
            eo_label_hint = label, eo_pinned_fingerprint = fingerprint\<rparr> of
          Inl e \<Rightarrow> Inl e
        | Inr cfg \<Rightarrow>
            Inr ((''enrolled at '' @ sp_host (cfg_server cfg) @ '':'' @ show_nat (unat (sp_quic_port (cfg_server cfg)))) #
              (case sp_fingerprint (cfg_server cfg) of Some fp \<Rightarrow> [''pinned '' @ fp] | None \<Rightarrow> [])))"

definition run_tcp :: "CommandEnv \<Rightarrow> u16 \<Rightarrow> (ClientError, TunnelHandle) result" where
  "run_tcp env local_port =
    (case ce_load env of
       Inl e \<Rightarrow> Inl e
     | Inr cfg \<Rightarrow>
        (case connect (ce_net env) (ce_lib env) (cfg_server cfg) (cfg_identity cfg) of
           Inl e \<Rightarrow> Inl e
         | Inr session \<Rightarrow> client_publish_tcp (ce_timed_out env) (as_stream session) ''tcp'' (''127.0.0.1'', local_port)))"

definition run_http ::
  "CommandEnv \<Rightarrow> u16 \<Rightarrow> string option \<Rightarrow> bool \<Rightarrow> AuthConfig option \<Rightarrow> (ClientError, TunnelHandle) result" where
  "run_http env local_port label inspect auth =
    (case ce_load env of
       Inl e \<Rightarrow> Inl e
     | Inr cfg \<Rightarrow>
        (case connect (ce_net env) (ce_lib env) (cfg_server cfg) (cfg_identity cfg) of
           Inl e \<Rightarrow> Inl e
         | Inr session \<Rightarrow>
            (let label = (case label of Some l \<Rightarrow> l | None \<Rightarrow> default_label (ce_random env));
                 target = (''127.0.0.1'', local_port)
             in case auth of
                  Some a \<Rightarrow> client_publish_http_authed (ce_timed_out env) (as_stream session) label target inspect a
                | None \<Rightarrow> client_publish_http (ce_timed_out env) (as_stream session) label target inspect)))"

text \<open>
  The end of a command. On the interrupt the shutdown message is queued and the process
  ends without waiting for the serving task; \<^verbatim>\<open>scheduled\<close> says whether that task still runs
  to its end before the runtime is gone.
\<close>

datatype Wake = CtrlC | ServingEnded

definition await_shutdown :: "bool \<Rightarrow> Wake \<Rightarrow> ServeEvent list \<Rightarrow> TunnelHandle \<Rightarrow> ClientStream" where
  "await_shutdown scheduled wake es h =
    (case wake of
       CtrlC \<Rightarrow> snd (snd (serve h (if scheduled then es @ [ShutdownReceived] else es)))
     | ServingEnded \<Rightarrow> snd (snd (serve h es)))"

section \<open>Streams of a tunnel\<close>

lemma serve_tasks: "t \<in> set (fst (snd (serve h es))) \<Longrightarrow> \<exists>s. StreamAccepted s \<in> set es \<and> t = stream_task h s"
  by (induction es) (auto split: ServeEvent.splits prod.splits)

lemma publish_tunnel_fields:
  "publish_tunnel timed_out ct label kind target insp resume auth = Inr h \<Longrightarrow>
    th_inspect h = insp \<and> th_auth h = auth \<and> th_target h = target \<and>
    publish timed_out label kind insp resume ct = (Inr (th_published h), th_control h)"
  by (auto simp: publish_tunnel_def split: prod.splits sum.splits)

text \<open>
  C36: When the HTTP command is started with a login or a key, every stream of its tunnel,
  whatever arrives and for as long as it serves, goes to the proxy with that policy, the
  local service on the loopback address and the id of the tunnel the server registered; no
  stream of the tunnel is served without it.
\<close>

theorem auth_on_every_stream:
  assumes "run_http env local_port label inspect (Some auth) = Inr h" "t \<in> set (fst (snd (serve h es)))"
  shows "run_stream_task penv t = handle_bi_inspected penv (pt_tunnel_id (th_published h)) inspect (Some auth) \<and>
    tk_target t = (''127.0.0.1'', local_port)"
proof -
  obtain ct l where "publish_tunnel (ce_timed_out env) ct l Http (''127.0.0.1'', local_port) inspect None (Some auth) = Inr h"
    using assms(1) by (auto simp: run_http_def client_publish_http_authed_def Let_def split: sum.splits)
  from publish_tunnel_fields [OF this] serve_tasks [OF assms(2)] show ?thesis
    by (auto simp: stream_task_def run_stream_task_def)
qed

text \<open>Without the serving task getting to run, the interrupt ends the process with no goodbye sent.\<close>

theorem interrupt_may_skip_bye:
  assumes "Bye \<notin> set (ct_out (th_control h))" "ShutdownReceived \<notin> set es"
  shows "Bye \<notin> set (ct_out (await_shutdown False CtrlC es h))"
proof -
  have "snd (snd (serve h es)) = th_control h"
    using assms(2) by (induction es) (auto split: ServeEvent.splits prod.splits)
  then show ?thesis using assms(1) by (simp add: await_shutdown_def)
qed

section \<open>A registration between client and server\<close>

text \<open>What the server answers to a frame is what it has written more than before.\<close>

definition answers :: "SessState \<Rightarrow> SessState \<Rightarrow> ServerFrame list" where
  "answers st st' = drop (length (cs_out (sx_ctrl st))) (cs_out (sx_ctrl st'))"

lemma reply_answers: "answers st (snd (reply f st)) = (if cs_writes (sx_ctrl st) = 0 then [] else [f])"
  by (simp add: answers_def reply_def send_frame_def)

lemma register_http_registered:
  assumes "register_http sn env label insp st = (r, st')" "answers st st' = TunnelRegistered tid url port # rest"
  shows "\<exists>apex tls hb hsb pool. sn_mode sn = ModeDomain apex tls hb hsb pool \<and> url = http_url label apex \<and> is_valid_label label \<and>
    resolve_label label (sx_registry st') = Some \<lparr>rt_id = tid, rt_connection = sn_connection sn, rt_rate = sn_rate sn, rt_inspect = insp\<rparr>"
proof (cases "may_register_http sn env label (sx_registry st)")
  case None
  then show ?thesis using register_http_may_not [OF None, of insp] assms
    by (auto simp: rejected_def answers_def reply_def send_frame_def split: if_splits)
next
  case (Some apex)
  then have mode: "\<exists>tls hb hsb pool. sn_mode sn = ModeDomain apex tls hb hsb pool" "is_valid_label label"
    by (auto simp: may_register_http_def split: Mode.splits if_splits)
  have "url = http_url label apex \<and>
    resolve_label label (sx_registry st') = Some \<lparr>rt_id = tid, rt_connection = sn_connection sn, rt_rate = sn_rate sn, rt_inspect = insp\<rparr>"
    using register_http_may [OF Some] assms
    by (auto simp: publish_http_def allocate_http_def fresh_id_def Let_def reply_def send_frame_def
        registry_insert_def resolve_label_def AList.update_conv' answers_def split: if_splits)
  then show ?thesis using mode by blast
qed

lemma dispatch_http_registered:
  assumes "dispatch_frame sn env (RegisterTunnel label Http None insp) st = (r, st')" "answers st st' = TunnelRegistered tid url port # rest"
  shows "\<exists>r'. register_http sn env label insp st = (r', st')"
  using assms
  by (auto simp: register_def register_fresh_def and_continue_def answers_def reply_def send_frame_def Let_def
      split: option.splits if_splits sum.splits prod.splits)

lemma publish_reads:
  assumes "publish timed_out label kind insp resume ct = (Inr p, ct')" "ct_in ct = map Inr fs"
  shows "\<exists>rest. fs = TunnelRegistered (pt_tunnel_id p) (pt_public_url p) (pt_public_port p) # rest"
    "ct_out ct' = ct_out ct @ [RegisterTunnel label kind resume insp]"
  using assms
  by (auto simp: publish_def client_send_def client_recv_def split: if_splits list.splits sum.splits ServerFrame.splits)

section \<open>A concrete command\<close>

definition demo_served :: ClientStream where
  "demo_served = (demo_ct [AuthChallenge [7], AuthOk [9], TunnelRegistered 1 ''https://demo.ex'' None])\<lparr>ct_writes := 4\<rparr>"

definition demo_command :: CommandEnv where
  "demo_command = \<lparr>ce_load = Inr \<lparr>cfg_identity = demo_identity,
       cfg_server = \<lparr>sp_host = ''relay'', sp_quic_port = 443, sp_tcp_port = None, sp_sni = None, sp_fingerprint = Some ''sha256:''\<rparr>\<rparr>,
     ce_net = \<lparr>net_lookup = (\<lambda>_. Inr [''addr'']), net_dial = (\<lambda>_ _ _ _. Inr demo_served)\<rparr>, ce_lib = demo_lib_client,
     ce_timed_out = False, ce_random = 0\<rparr>"

lemma demo_command_runs:
  "\<exists>h. run_http demo_command 8080 (Some ''demo'') False (Some a) = Inr h \<and> pt_tunnel_id (th_published h) = 1"
  by (simp add: run_http_def demo_command_def connect_def connect_quic_def connect_over_def resolve_server_def build_client_tls_def
      fingerprint_bytes_def strip_prefix_def starts_with_def demo_lib_client_def demo_identity_def finish_auth_def send_kind_def
      id_pubkey_def challenge_phase_def client_send_def client_recv_def signing_key_def auth_reply_def demo_served_def demo_ct_def
      client_publish_http_authed_def publish_tunnel_def publish_def)

theorem auth_on_every_stream_witness:
  "\<exists>h t. run_http demo_command 8080 (Some ''demo'') False (Some demo_key) = Inr h \<and>
    fst (snd (serve h [StreamAccepted 3, ShutdownReceived])) = [t] \<and>
    run_stream_task demo_proxy_env t = handle_bi_inspected demo_proxy_env 1 False (Some demo_key)"
proof -
  obtain h where h: "run_http demo_command 8080 (Some ''demo'') False (Some demo_key) = Inr h" "pt_tunnel_id (th_published h) = 1"
    using demo_command_runs by blast
  show ?thesis
    using auth_on_every_stream [OF h(1), of "stream_task h 3" "[StreamAccepted 3, ShutdownReceived]" demo_proxy_env] h
    by (intro exI [of _ h] exI [of _ "stream_task h 3"]) simp
qed
end
